(* ===== verification/Prelude.thy ===== *)
theory Prelude
  imports
    Main
    "HOL-Library.Multiset"
    "HOL-Library.AList"
    "HOL-Library.Char_ord"
    "HOL-Library.List_Lexorder"
    "HOL-Library.Word"
begin

section \<open>Shared vocabulary: errors, results, dictionaries, strings\<close>

text \<open>
  What every component theory uses: Python exceptions as values of a sum type with its
  bind, insertion-ordered dictionaries as association lists (\<open>AList.update\<close> replaces a
  key in place or appends it, as a Python \<open>dict\<close> does), the string operations the
  source calls (\<open>str.split\<close>, \<open>str.join\<close>), first-match scans of a list, and a generic
  locale for step relations with an invariant.
\<close>

named_theorems res_simps \<open>evaluation rules of the result monad\<close>
named_theorems dict_simps \<open>lookups in dictionaries built by updates\<close>

subsection \<open>Exceptions as values\<close>

datatype py_error =
    ValueError
  | TypeError
  | KeyError
  | RuntimeError
  | ValidationError
  | InvalidOperation
  | ZeroDivisionError
  | PayrollCalculationError
  | DatabaseError

type_synonym 'a res = "py_error + 'a"

fun bind_res :: "'a res \<Rightarrow> ('a \<Rightarrow> 'b res) \<Rightarrow> 'b res" where
  "bind_res (Inl e) f = Inl e"
| "bind_res (Inr x) f = f x"

lemma bind_res_Inr_iff [res_simps]:
  "bind_res m f = Inr y \<longleftrightarrow> (\<exists>x. m = Inr x \<and> f x = Inr y)"
  by (cases m) auto

lemma bind_res_Inl_iff [res_simps]:
  "bind_res m f = Inl e \<longleftrightarrow> m = Inl e \<or> (\<exists>x. m = Inr x \<and> f x = Inl e)"
  by (cases m) auto

definition guard_res :: "bool \<Rightarrow> py_error \<Rightarrow> 'a \<Rightarrow> 'a res" where
  "guard_res ok e x = (if ok then Inr x else Inl e)"

lemma guard_res_Inr_iff [simp, res_simps]: "guard_res ok e x = Inr y \<longleftrightarrow> ok \<and> x = y"
  by (auto simp: guard_res_def)

lemma guard_res_True [simp]: "guard_res True e x = Inr x"
  by (simp add: guard_res_def)

lemma guard_res_False [simp]: "guard_res False e x = Inl e"
  by (simp add: guard_res_def)

fun map_res :: "('a \<Rightarrow> 'b res) \<Rightarrow> 'a list \<Rightarrow> 'b list res" where
  "map_res f [] = Inr []"
| "map_res f (x # xs) =
     bind_res (f x) (\<lambda>y. bind_res (map_res f xs) (\<lambda>ys. Inr (y # ys)))"

lemma map_res_Inr_length: "map_res f xs = Inr ys \<Longrightarrow> length ys = length xs"
  by (induction xs arbitrary: ys) (auto simp: res_simps)

lemma map_res_list_all2:
  "map_res f xs = Inr ys \<Longrightarrow> list_all2 (\<lambda>x y. f x = Inr y) xs ys"
  by (induction xs arbitrary: ys) (auto simp: res_simps)

lemma map_res_total:
  "(\<And>x. x \<in> set xs \<Longrightarrow> \<exists>y. f x = Inr y) \<Longrightarrow> \<exists>ys. map_res f xs = Inr ys"
proof (induction xs)
  case Nil
  show ?case by simp
next
  case (Cons x xs)
  then obtain y ys where "f x = Inr y" and "map_res f xs = Inr ys"
    by (meson list.set_intros)
  then show ?case by simp
qed

text \<open>
  \<open>returns m P\<close>: the computation finishes without raising and its value satisfies \<open>P\<close>
  (total correctness); it composes along the bind.
\<close>

definition returns :: "'a res \<Rightarrow> ('a \<Rightarrow> bool) \<Rightarrow> bool" where
  "returns m P \<longleftrightarrow> (\<exists>x. m = Inr x \<and> P x)"

lemma returns_Inr [simp]: "returns (Inr x) P \<longleftrightarrow> P x"
  by (simp add: returns_def)

lemma returns_InrI: "m = Inr x \<Longrightarrow> P x \<Longrightarrow> returns m P"
  by (simp add: returns_def)

lemma returns_bind: "returns m P \<Longrightarrow> (\<And>x. P x \<Longrightarrow> returns (f x) Q) \<Longrightarrow> returns (bind_res m f) Q"
  by (auto simp: returns_def)

lemma returns_weaken: "returns m P \<Longrightarrow> (\<And>x. P x \<Longrightarrow> Q x) \<Longrightarrow> returns m Q"
  by (auto simp: returns_def)

subsection \<open>Dictionaries and sets built by comprehension\<close>

type_synonym ('k, 'v) dict = "('k \<times> 'v) list"

text \<open>\<open>{k: v for ...}\<close>: later entries overwrite the value, the first insertion fixes the place.\<close>

definition dict_of :: "('k \<times> 'v) list \<Rightarrow> ('k, 'v) dict" where
  "dict_of kvs = fold (\<lambda>(k, v) d. AList.update k v d) kvs []"

lemma map_of_fold_update:
  "map_of (fold (\<lambda>(k, v) d. AList.update k v d) kvs d) = map_of d ++ map_of (rev kvs)"
proof (induction kvs arbitrary: d)
  case Nil
  show ?case by simp
next
  case (Cons kv kvs)
  obtain k v where kv: "kv = (k, v)" by (cases kv)
  show ?case
    by (simp add: kv Cons.IH AList.update_conv' map_add_assoc [symmetric] map_add_def fun_eq_iff
        split: option.splits)
qed

lemma map_of_dict_of [simp, dict_simps]: "map_of (dict_of kvs) = map_of (rev kvs)"
  by (simp add: dict_of_def map_of_fold_update)

lemma map_of_update [simp, dict_simps]:
  "map_of (AList.update k v d) = (map_of d)(k \<mapsto> v)"
  by (rule AList.update_conv')

lemma map_of_rev_SomeD: "map_of (rev kvs) k = Some v \<Longrightarrow> (k, v) \<in> set kvs"
  by (drule map_of_SomeD) simp

lemma map_of_rev_ne_None: "(k, v) \<in> set kvs \<Longrightarrow> \<exists>w. map_of (rev kvs) k = Some w"
proof -
  assume "(k, v) \<in> set kvs"
  then have "k \<in> fst ` set (rev kvs)" by force
  then show ?thesis
    by (metis map_of_eq_None_iff not_None_eq)
qed

text \<open>\<open>next((x for x in xs if p(x)), None)\<close> and the early-return scans of the source.\<close>

abbreviation first_match :: "('a \<Rightarrow> bool) \<Rightarrow> 'a list \<Rightarrow> 'a option" where
  "first_match p xs \<equiv> List.find p xs"

lemma first_match_SomeD: "first_match p xs = Some x \<Longrightarrow> x \<in> set xs \<and> p x"
  by (auto simp: find_Some_iff in_set_conv_nth)

lemma first_match_None: "first_match p xs = None \<longleftrightarrow> (\<forall>x \<in> set xs. \<not> p x)"
  by (auto simp: find_None_iff)

subsection \<open>Strings\<close>

text \<open>
  A Python \<open>str\<close> is a list of code points; a \<open>char\<close> stands for one. Equality,
  concatenation, lexicographic order and the whitespace of \<open>str.split\<close> are all the source
  uses of them outside \<open>casefold\<close> and the NFC normalisation, which are parameters where they
  occur.
\<close>

definition py_space :: "char \<Rightarrow> bool" where
  "py_space c \<longleftrightarrow> of_char c \<in> {9, 10, 11, 12, 13, 28, 29, 30, 31, 32, 133, 160 :: nat}"

fun split_on :: "(char \<Rightarrow> bool) \<Rightarrow> string \<Rightarrow> string list" where
  "split_on p [] = [[]]"
| "split_on p (c # cs) =
     (if p c then [] # split_on p cs
      else (case split_on p cs of [] \<Rightarrow> [[c]] | w # ws \<Rightarrow> (c # w) # ws))"

definition py_split :: "string \<Rightarrow> string list" where
  "py_split s = filter (\<lambda>w. w \<noteq> []) (split_on py_space s)"

fun py_join :: "string \<Rightarrow> string list \<Rightarrow> string" where
  "py_join sep [] = []"
| "py_join sep [w] = w"
| "py_join sep (w # ws) = w @ sep @ py_join sep ws"

lemma split_on_nonempty [simp]: "split_on p s \<noteq> []"
  by (induction s) (auto split: list.splits)

lemma split_on_no_sep: "w \<in> set (split_on p s) \<Longrightarrow> \<forall>c \<in> set w. \<not> p c"
proof (induction s arbitrary: w)
  case Nil
  then show ?case by simp
next
  case (Cons a s)
  obtain v vs where vs: "split_on p s = v # vs"
    by (cases "split_on p s") auto
  with Cons.IH have "\<forall>c \<in> set v. \<not> p c" and "\<And>u. u \<in> set vs \<Longrightarrow> \<forall>c \<in> set u. \<not> p c"
    by auto
  with Cons.prems vs show ?case by (auto split: if_splits)
qed

lemma split_on_id: "\<forall>c \<in> set w. \<not> p c \<Longrightarrow> split_on p w = [w]"
  by (induction w) auto

lemma split_on_append_sep:
  "\<forall>c \<in> set w. \<not> p c \<Longrightarrow> p c \<Longrightarrow> split_on p (w @ c # s) = w # split_on p s"
  by (induction w) auto

text \<open>Joining words with one space and splitting again gives the words back.\<close>

lemma py_split_join:
  assumes "\<forall>w \<in> set ws. w \<noteq> [] \<and> (\<forall>c \<in> set w. \<not> py_space c)"
  shows "py_split (py_join '' '' ws) = ws"
  using assms
proof (induction "'' ''" ws rule: py_join.induct)
  case 1
  then show ?case by (simp add: py_split_def)
next
  case (2 w)
  then show ?case by (simp add: py_split_def split_on_id)
next
  case (3 w v ws)
  then have "split_on py_space (w @ CHR '' '' # py_join '' '' (v # ws)) =
      w # split_on py_space (py_join '' '' (v # ws))"
    by (intro split_on_append_sep) (auto simp: py_space_def)
  with 3 show ?case by (simp add: py_split_def)
qed

lemma py_split_words: "w \<in> set (py_split s) \<Longrightarrow> w \<noteq> [] \<and> (\<forall>c \<in> set w. \<not> py_space c)"
  by (auto simp: py_split_def dest: split_on_no_sep)

lemma py_split_join_split [simp]: "py_split (py_join '' '' (py_split s)) = py_split s"
  by (rule py_split_join) (blast dest: py_split_words)

subsection \<open>Tables\<close>

text \<open>A table is the list of its rows; \<open>UPDATE t SET f WHERE p\<close> maps \<open>f\<close> over the rows with \<open>p\<close>.\<close>

definition update_rows :: "('a \<Rightarrow> bool) \<Rightarrow> ('a \<Rightarrow> 'a) \<Rightarrow> 'a list \<Rightarrow> 'a list" where
  "update_rows p f xs = map (\<lambda>x. if p x then f x else x) xs"

lemma set_update_rows: "set (update_rows p f xs) = f ` {x \<in> set xs. p x} \<union> {x \<in> set xs. \<not> p x}"
  by (auto simp: update_rows_def)

lemma map_update_rows:
  "(\<And>x. p x \<Longrightarrow> k (f x) = k x) \<Longrightarrow> map k (update_rows p f xs) = map k xs"
  by (simp add: update_rows_def)

lemma update_rows_none: "(\<And>x. x \<in> set xs \<Longrightarrow> \<not> p x) \<Longrightarrow> update_rows p f xs = xs"
  by (simp add: update_rows_def map_idI)

lemma update_rowsE:
  assumes "y \<in> set (update_rows p f xs)"
  obtains x where "x \<in> set xs" "p x" "y = f x" | "y \<in> set xs" "\<not> p y"
  using assms by (auto simp: set_update_rows)

lemma update_rows_hit: "x \<in> set xs \<Longrightarrow> p x \<Longrightarrow> f x \<in> set (update_rows p f xs)"
  by (auto simp: set_update_rows)

lemma update_rows_miss: "x \<in> set xs \<Longrightarrow> \<not> p x \<Longrightarrow> x \<in> set (update_rows p f xs)"
  by (auto simp: set_update_rows)

lemma distinct_key: "distinct (map k xs) \<Longrightarrow> x \<in> set xs \<Longrightarrow> y \<in> set xs \<Longrightarrow> k x = k y \<Longrightarrow> x = y"
  by (auto simp: distinct_map dest: inj_onD)

subsection \<open>Step relations with an invariant\<close>

text \<open>\<open>run_of step s es s'\<close>: the events \<open>es\<close>, in order, lead from \<open>s\<close> to \<open>s'\<close>.\<close>

inductive run_of :: "('s \<Rightarrow> 'e \<Rightarrow> 's \<Rightarrow> bool) \<Rightarrow> 's \<Rightarrow> 'e list \<Rightarrow> 's \<Rightarrow> bool"
  for step :: "'s \<Rightarrow> 'e \<Rightarrow> 's \<Rightarrow> bool" where
  run_of_nil: "run_of step s [] s"
| run_of_snoc: "run_of step s es t \<Longrightarrow> step t e u \<Longrightarrow> run_of step s (es @ [e]) u"

lemma run_of_single: "step s e t \<Longrightarrow> run_of step s [e] t"
  using run_of_snoc [OF run_of_nil, of step s e t] by simp

lemma run_of_append: "run_of step t fs u \<Longrightarrow> run_of step s es t \<Longrightarrow> run_of step s (es @ fs) u"
proof (induction rule: run_of.induct)
  case (run_of_snoc t fs v e u)
  then show ?case using run_of.run_of_snoc [of step s "es @ fs" v e u] by simp
qed simp

lemma run_of_cons: "step s e t \<Longrightarrow> run_of step t es u \<Longrightarrow> run_of step s (e # es) u"
  using run_of_append [of step t es u s "[e]"] run_of_single [of step s e t] by simp

text \<open>A component proves that its steps keep a predicate and gets it along every run.\<close>

locale step_invariant =
  fixes step :: "'s \<Rightarrow> 'e \<Rightarrow> 's \<Rightarrow> bool" and holds :: "'s \<Rightarrow> bool"
  assumes kept: "holds s \<Longrightarrow> step s e t \<Longrightarrow> holds t"
begin

lemma along_run: "run_of step s es t \<Longrightarrow> holds s \<Longrightarrow> holds t"
  by (induction rule: run_of.induct) (auto intro: kept)

end

text \<open>A measured quantity that every step moves by what its event weighs.\<close>

locale step_account = step_invariant step holds
  for step :: "'s \<Rightarrow> 'e \<Rightarrow> 's \<Rightarrow> bool" and holds :: "'s \<Rightarrow> bool" +
  fixes amount_of :: "'s \<Rightarrow> int" and weight :: "'e \<Rightarrow> int"
  assumes accounted: "holds s \<Longrightarrow> step s e t \<Longrightarrow> amount_of t = amount_of s + weight e"
begin

lemma balance: "run_of step s es t \<Longrightarrow> holds s \<Longrightarrow> amount_of t = amount_of s + sum_list (map weight es)"
proof (induction rule: run_of.induct)
  case (run_of_snoc s es t e u)
  then show ?case using accounted [OF along_run] by simp
qed simp

end

end
