(* ===== verification/PyDecimal.thy ===== *)
theory PyDecimal
  imports Complex_Main Prelude
begin

section \<open>Decimal arithmetic in the default context\<close>

text \<open>
  The finite values of Python's \<open>decimal.Decimal\<close> and the operations the payroll engine
  applies to them, in the default context (28 significant digits, \<open>ROUND_HALF_EVEN\<close>):
  addition, subtraction, multiplication and division round their exact result to the
  context; \<open>quantize\<close> to cents with \<open>ROUND_HALF_UP\<close> raises \<open>InvalidOperation\<close> when the
  result needs more than 28 digits. A number is an integer coefficient and an exponent of
  ten. Exponents stay far from the context's limits of plus or minus 999999 and a
  negative zero equals zero in every comparison the source makes, so neither is modelled.
  The lemmas say when an operation is exact and bound what rounding can do.
\<close>

named_theorems dec_exact \<open>operations that the context does not round\<close>

datatype decimal = Dec (coef: int) (dexp: int)

definition ctx_prec :: int where
  "ctx_prec = 28"

text \<open>The number of decimal digits of a coefficient, \<open>len(str(n))\<close>.\<close>

function ndig :: "int \<Rightarrow> int" where
  "ndig n = (if n < 10 then 1 else 1 + ndig (n div 10))"
  by pat_completeness auto
termination
  by (relation "measure nat") auto

declare ndig.simps [simp del]

definition half_even_div :: "int \<Rightarrow> int \<Rightarrow> int" where
  "half_even_div n m =
     (let q = n div m; r = n mod m
      in if m < 2 * r \<or> (2 * r = m \<and> q mod 2 = 1) then q + 1 else q)"

definition half_up_div :: "int \<Rightarrow> int \<Rightarrow> int" where
  "half_up_div n m = (if m \<le> 2 * (n mod m) then n div m + 1 else n div m)"

definition dec_fix :: "decimal \<Rightarrow> decimal" where
  "dec_fix d =
     (let k = ndig \<bar>coef d\<bar>
      in if k \<le> ctx_prec then d
         else let s = k - ctx_prec; q = half_even_div \<bar>coef d\<bar> (10 ^ nat s)
              in if ctx_prec < ndig q
                 then Dec (sgn (coef d) * (q div 10)) (dexp d + s + 1)
                 else Dec (sgn (coef d) * q) (dexp d + s))"

text \<open>The coefficient of \<open>d\<close> at an exponent not above its own.\<close>

definition at_exp :: "decimal \<Rightarrow> int \<Rightarrow> int" where
  "at_exp d e = coef d * 10 ^ nat (dexp d - e)"

definition dec_add :: "decimal \<Rightarrow> decimal \<Rightarrow> decimal" where
  "dec_add a b = (let e = min (dexp a) (dexp b) in dec_fix (Dec (at_exp a e + at_exp b e) e))"

definition dec_sub :: "decimal \<Rightarrow> decimal \<Rightarrow> decimal" where
  "dec_sub a b = (let e = min (dexp a) (dexp b) in dec_fix (Dec (at_exp a e - at_exp b e) e))"

definition dec_mul :: "decimal \<Rightarrow> decimal \<Rightarrow> decimal" where
  "dec_mul a b = dec_fix (Dec (coef a * coef b) (dexp a + dexp b))"

function strip_zeros :: "int \<Rightarrow> int \<Rightarrow> int \<Rightarrow> int \<times> int" where
  "strip_zeros q e ideal =
     (if e < ideal \<and> q mod 10 = 0 then strip_zeros (q div 10) (e + 1) ideal else (q, e))"
  by pat_completeness auto
termination
  by (relation "measure (\<lambda>(q, e, ideal). nat (ideal - e))") auto

declare strip_zeros.simps [simp del]

definition dec_div :: "decimal \<Rightarrow> decimal \<Rightarrow> decimal res" where
  "dec_div a b =
     (if coef b = 0 then Inl (if coef a = 0 then InvalidOperation else ZeroDivisionError)
      else if coef a = 0 then Inr (Dec 0 (dexp a - dexp b))
      else
        let n = \<bar>coef a\<bar>; m = \<bar>coef b\<bar>; s = sgn (coef a) * sgn (coef b);
            shift = ndig m - ndig n + ctx_prec + 1;
            e = dexp a - dexp b - shift;
            num = (if 0 \<le> shift then n * 10 ^ nat shift else n);
            den = (if 0 \<le> shift then m else m * 10 ^ nat (- shift));
            q = num div den
        in if num mod den \<noteq> 0
           then Inr (dec_fix (Dec (s * (if q mod 5 = 0 then q + 1 else q)) e))
           else let qe = strip_zeros q e (dexp a - dexp b)
                in Inr (dec_fix (Dec (s * fst qe) (snd qe))))"

definition dec_le :: "decimal \<Rightarrow> decimal \<Rightarrow> bool" where
  "dec_le a b = (let e = min (dexp a) (dexp b) in at_exp a e \<le> at_exp b e)"

definition dec_lt :: "decimal \<Rightarrow> decimal \<Rightarrow> bool" where
  "dec_lt a b = (\<not> dec_le b a)"

definition dec_eq :: "decimal \<Rightarrow> decimal \<Rightarrow> bool" where
  "dec_eq a b = (dec_le a b \<and> dec_le b a)"

definition dec_of_int :: "int \<Rightarrow> decimal" where
  "dec_of_int n = Dec n 0"

text \<open>
  Python's \<open>max\<close> and \<open>min\<close> of two arguments: the first one wins a tie.
\<close>

definition dec_max :: "decimal \<Rightarrow> decimal \<Rightarrow> decimal" where
  "dec_max a b = (if dec_lt a b then b else a)"

definition dec_min :: "decimal \<Rightarrow> decimal \<Rightarrow> decimal" where
  "dec_min a b = (if dec_lt b a then b else a)"

text \<open>\<open>value.quantize(Decimal("0.01"), rounding=ROUND_HALF_UP)\<close>.\<close>

definition rescale_cents :: "decimal \<Rightarrow> int" where
  "rescale_cents d =
     (if -2 \<le> dexp d then \<bar>coef d\<bar> * 10 ^ nat (dexp d + 2)
      else half_up_div \<bar>coef d\<bar> (10 ^ nat (-2 - dexp d)))"

definition quantize_cents :: "decimal \<Rightarrow> decimal res" where
  "quantize_cents d =
     (if coef d = 0 then Inr (Dec 0 (-2))
      else if ctx_prec < dexp d + ndig \<bar>coef d\<bar> - 1 + 2 + 1 then Inl InvalidOperation
      else if ctx_prec < ndig (rescale_cents d) then Inl InvalidOperation
      else Inr (Dec (sgn (coef d) * rescale_cents d) (-2)))"

subsection \<open>Digit counts\<close>

lemma ndig_less [simp]: "n < 10 \<Longrightarrow> ndig n = 1"
  by (simp add: ndig.simps)

lemma ndig_ge: "10 \<le> n \<Longrightarrow> ndig n = 1 + ndig (n div 10)"
  by (subst ndig.simps) simp

lemma ndig_pos: "1 \<le> ndig n"
proof (induction n rule: ndig.induct)
  case (1 n)
  then show ?case by (cases "n < 10") (auto simp: ndig_ge)
qed

lemma div10_less_iff: "(n::int) div 10 < m \<longleftrightarrow> n < 10 * m"
  by linarith

lemma ndig_le_iff: "0 \<le> n \<Longrightarrow> ndig n \<le> int k + 1 \<longleftrightarrow> n < 10 ^ Suc k"
proof (induction k arbitrary: n)
  case 0
  then show ?case
    using ndig_pos [of "n div 10"] by (cases "n < 10") (auto simp: ndig_ge not_le)
next
  case (Suc k)
  show ?case
  proof (cases "n < 10")
    case True
    have "(10::int) ^ 1 \<le> 10 ^ Suc (Suc k)" by (rule power_increasing) simp_all
    with True show ?thesis by simp
  next
    case False
    then have "ndig n \<le> int (Suc k) + 1 \<longleftrightarrow> ndig (n div 10) \<le> int k + 1"
      by (simp add: ndig_ge add.commute)
    also have "\<dots> \<longleftrightarrow> n div 10 < 10 ^ Suc k"
      using Suc.prems by (intro Suc.IH) simp
    also have "\<dots> \<longleftrightarrow> n < 10 * 10 ^ Suc k"
      by (rule div10_less_iff)
    also have "\<dots> \<longleftrightarrow> n < 10 ^ Suc (Suc k)"
      by simp
    finally show ?thesis .
  qed
qed

lemma ndig_le_prec: "0 \<le> n \<Longrightarrow> ndig n \<le> ctx_prec \<longleftrightarrow> n < 10 ^ 28"
  using ndig_le_iff [of n 27] by (simp add: ctx_prec_def)

lemma ndig_le_prec_num: "0 \<le> n \<Longrightarrow> ndig n \<le> 28 \<longleftrightarrow> n < 10000000000000000000000000000"
  using ndig_le_prec [of n] by (simp add: ctx_prec_def)

text \<open>Evaluation of closed terms: every rule is conditional, so none of them loops.\<close>

lemma strip_zeros_stop: "\<not> (e < ideal \<and> q mod 10 = 0) \<Longrightarrow> strip_zeros q e ideal = (q, e)"
  by (subst strip_zeros.simps) (rule if_not_P)

lemma strip_zeros_step:
  "e < ideal \<Longrightarrow> q mod 10 = 0 \<Longrightarrow> strip_zeros q e ideal = strip_zeros (q div 10) (e + 1) ideal"
  by (subst strip_zeros.simps) simp

lemmas dec_eval = ndig_less ndig_ge strip_zeros_stop strip_zeros_step
  dec_fix_def dec_add_def dec_sub_def dec_mul_def dec_div_def quantize_cents_def rescale_cents_def
  dec_le_def dec_lt_def dec_eq_def dec_max_def dec_min_def at_exp_def
  half_even_div_def half_up_div_def ctx_prec_def dec_of_int_def Let_def


subsection \<open>Exact operations\<close>

lemma dec_fix_exact [dec_exact]: "\<bar>coef d\<bar> < 10 ^ 28 \<Longrightarrow> dec_fix d = d"
  using ndig_le_prec [of "\<bar>coef d\<bar>"] by (simp add: dec_fix_def)

lemma dec_sub_cents [dec_exact]:
  "\<bar>a - b\<bar> < 10 ^ 28 \<Longrightarrow> dec_sub (Dec a (-2)) (Dec b (-2)) = Dec (a - b) (-2)"
  by (simp add: dec_sub_def at_exp_def dec_fix_exact)

lemma dec_add_cents [dec_exact]:
  "\<bar>a + b\<bar> < 10 ^ 28 \<Longrightarrow> dec_add (Dec a (-2)) (Dec b (-2)) = Dec (a + b) (-2)"
  by (simp add: dec_add_def at_exp_def dec_fix_exact)

lemma dec_add_cents_zero [dec_exact]:
  "\<bar>a\<bar> < 10 ^ 28 \<Longrightarrow> dec_add (Dec a (-2)) (Dec 0 0) = Dec a (-2)"
  by (simp add: dec_add_def at_exp_def dec_fix_exact)

lemma sgn_mult_abs_int: "sgn a * \<bar>a\<bar> = (a::int)"
  by (simp add: sgn_if)

lemma half_up_div_nonneg: "0 \<le> n \<Longrightarrow> 0 < m \<Longrightarrow> 0 \<le> half_up_div n m"
  by (simp add: half_up_div_def pos_imp_zdiv_nonneg_iff)

lemma rescale_cents_nonneg: "0 \<le> rescale_cents d"
  by (simp add: rescale_cents_def half_up_div_nonneg)

lemma quantize_cents_id [dec_exact]:
  "\<bar>a\<bar> < 10 ^ 28 \<Longrightarrow> quantize_cents (Dec a (-2)) = Inr (Dec a (-2))"
  using ndig_le_prec [of "\<bar>a\<bar>"]
  by (auto simp: quantize_cents_def rescale_cents_def sgn_mult_abs_int)

lemma quantize_cents_shape:
  assumes "quantize_cents d = Inr r"
  shows "\<exists>c. r = Dec c (-2) \<and> \<bar>c\<bar> < 10 ^ 28"
proof (cases "coef d = 0")
  case True
  with assms show ?thesis by (auto simp: quantize_cents_def)
next
  case False
  with assms have "ndig (rescale_cents d) \<le> ctx_prec"
    and r: "r = Dec (sgn (coef d) * rescale_cents d) (-2)"
    by (auto simp: quantize_cents_def split: if_splits)
  then have "\<bar>sgn (coef d) * rescale_cents d\<bar> < 10 ^ 28"
    using False ndig_le_prec [OF rescale_cents_nonneg] rescale_cents_nonneg [of d]
    by (simp add: abs_mult abs_sgn_eq)
  with r show ?thesis by blast
qed

lemma quantize_cents_idem: "quantize_cents d = Inr r \<Longrightarrow> quantize_cents r = Inr r"
  using quantize_cents_shape [of d r] by (auto simp: quantize_cents_id)

lemma quantize_cents_Inr_coef:
  "quantize_cents d = Inr r \<Longrightarrow> r = Dec (sgn (coef d) * rescale_cents d) (-2)"
  by (auto simp: quantize_cents_def split: if_splits)

lemma quantize_cents_sign:
  assumes "quantize_cents d = Inr r"
  shows "0 \<le> coef d \<Longrightarrow> 0 \<le> coef r" and "coef d \<le> 0 \<Longrightarrow> coef r \<le> 0"
  using quantize_cents_Inr_coef [OF assms] rescale_cents_nonneg [of d]
  by (auto simp: sgn_if)

subsection \<open>The number a decimal denotes\<close>

definition dval :: "decimal \<Rightarrow> rat" where
  "dval d = of_int (coef d) * 10 powi dexp d"

lemma dval_zero [simp]: "dval (Dec 0 e) = 0"
  by (simp add: dval_def)

lemma powi_add_nat:
  assumes "0 \<le> s"
  shows "(10::rat) powi (e + s) = 10 ^ nat s * 10 powi e"
proof -
  have "(10::rat) powi (e + s) = 10 powi (int (nat s) + e)"
    using assms by (simp add: add.commute)
  also have "\<dots> = 10 powi int (nat s) * 10 powi e"
    by (rule power_int_add) simp
  finally show ?thesis by (simp only: power_int_of_nat)
qed

lemma dval_at_exp: "e \<le> dexp d \<Longrightarrow> dval d = of_int (at_exp d e) * 10 powi e"
  using powi_add_nat [of "dexp d - e" e] by (simp add: dval_def at_exp_def)

lemma pow10_pos [simp]: "0 < (10::rat) powi e"
  by (simp add: zero_less_power_int)

lemma dec_le_iff: "dec_le a b \<longleftrightarrow> dval a \<le> dval b"
proof -
  let ?e = "min (dexp a) (dexp b)"
  have "dval a = of_int (at_exp a ?e) * 10 powi ?e" and "dval b = of_int (at_exp b ?e) * 10 powi ?e"
    by (simp_all add: dval_at_exp)
  then show ?thesis
    by (simp only: dec_le_def Let_def mult_le_cancel_right_pos [OF pow10_pos] of_int_le_iff)
qed

lemma dec_lt_iff: "dec_lt a b \<longleftrightarrow> dval a < dval b"
  by (auto simp: dec_lt_def dec_le_iff)

lemma dec_eq_iff: "dec_eq a b \<longleftrightarrow> dval a = dval b"
  by (auto simp: dec_eq_def dec_le_iff)

lemma dval_nonneg_iff: "0 \<le> dval d \<longleftrightarrow> 0 \<le> coef d"
proof -
  have "0 \<le> dval d \<longleftrightarrow> 0 * 10 powi dexp d \<le> of_int (coef d) * (10::rat) powi dexp d"
    by (simp add: dval_def)
  also have "\<dots> \<longleftrightarrow> 0 \<le> (of_int (coef d) :: rat)"
    by (simp only: mult_le_cancel_right_pos [OF pow10_pos])
  finally show ?thesis by simp
qed

lemma dval_max: "dval (dec_max a b) = max (dval a) (dval b)"
  by (simp add: dec_max_def dec_lt_iff max_def)

lemma dval_min: "dval (dec_min a b) = min (dval a) (dval b)"
  by (simp add: dec_min_def dec_lt_iff min_def)

lemmas dec_order = dec_le_iff dec_lt_iff dec_eq_iff


subsection \<open>What rounding can do\<close>

lemma half_up_div_bounds:
  assumes "0 < (m::int)"
  shows "\<bar>2 * (half_up_div n m * m - n)\<bar> \<le> m"
proof -
  define q r where qr: "q = n div m" "r = n mod m"
  have "0 \<le> r" and "r < m" and n: "n = q * m + r" using assms by (simp_all add: qr)
  then show ?thesis
    unfolding half_up_div_def Let_def qr [symmetric] by (auto simp: n algebra_simps)
qed

lemma half_even_div_bounds:
  assumes "0 < (m::int)"
  shows "\<bar>2 * (half_even_div n m * m - n)\<bar> \<le> m"
proof -
  define q r where qr: "q = n div m" "r = n mod m"
  have "0 \<le> r" and "r < m" and n: "n = q * m + r" using assms by (simp_all add: qr)
  then show ?thesis
    unfolding half_even_div_def Let_def qr [symmetric] by (auto simp: n algebra_simps)
qed

lemma half_even_div_nonneg: "0 \<le> n \<Longrightarrow> 0 < m \<Longrightarrow> 0 \<le> half_even_div n m"
  by (simp add: half_even_div_def Let_def pos_imp_zdiv_nonneg_iff)

lemma ndig_lower: "1 \<le> n \<Longrightarrow> 10 ^ nat (ndig n - 1) \<le> n"
proof (induction n rule: ndig.induct)
  case (1 n)
  show ?case
  proof (cases "n < 10")
    case True
    with 1 show ?thesis by simp
  next
    case False
    with 1 have IH: "10 ^ nat (ndig (n div 10) - 1) \<le> n div 10" by simp
    have "nat (ndig n - 1) = Suc (nat (ndig (n div 10) - 1))"
      using False ndig_pos [of "n div 10"] by (simp add: ndig_ge)
    then have "(10::int) ^ nat (ndig n - 1) = 10 * 10 ^ nat (ndig (n div 10) - 1)" by simp
    also have "\<dots> \<le> 10 * (n div 10)" using IH by simp
    also have "\<dots> \<le> n" by simp
    finally show ?thesis .
  qed
qed

text \<open>Rounding to the context keeps the sign.\<close>

lemma dec_fix_coef_sign: "0 \<le> coef d \<Longrightarrow> 0 \<le> coef (dec_fix d)"
  by (auto simp: dec_fix_def Let_def half_even_div_nonneg sgn_if pos_imp_zdiv_nonneg_iff)

lemma abs_dval: "\<bar>dval d\<bar> = of_int \<bar>coef d\<bar> * 10 powi dexp d"
  using pow10_pos [of "dexp d"] by (simp add: dval_def abs_mult)

lemma ndig_upper: "0 \<le> n \<Longrightarrow> n < 10 ^ nat (ndig n)"
proof -
  assume n: "0 \<le> n"
  define k where "k = nat (ndig n - 1)"
  have k: "ndig n = int k + 1" "nat (ndig n) = Suc k"
    using ndig_pos [of n] by (simp_all add: k_def)
  with n show ?thesis using ndig_le_iff [of n k] by simp
qed

text \<open>The relative error of the context rounding.\<close>

lemma dec_fix_close: "\<bar>dval (dec_fix d) - dval d\<bar> \<le> \<bar>dval d\<bar> / 10 ^ 27"
proof (cases "ndig \<bar>coef d\<bar> \<le> ctx_prec")
  case True
  then show ?thesis by (simp add: dec_fix_def)
next
  case False
  define n s m where d: "n = \<bar>coef d\<bar>" "s = ndig n - ctx_prec" "m = (10 ^ nat s :: int)"
  define q where q: "q = half_even_div n m"
  have n0: "0 \<le> n" by (simp add: d)
  have s0: "0 < s" using False by (simp add: d)
  have n1: "1 \<le> n" using False ndig_less [of n] by (cases "n < 10") (auto simp: d ctx_prec_def)
  have m0: "0 < m" by (simp add: d)
  have err: "\<bar>2 * (q * m - n)\<bar> \<le> m"
    unfolding q by (rule half_even_div_bounds) (rule m0)
  have "10 ^ 27 * m = 10 ^ nat (ndig n - 1)"
    using s0 by (simp add: d ctx_prec_def nat_diff_distrib power_add [symmetric] del: power_numeral)
  also have "\<dots> \<le> n" by (rule ndig_lower) (rule n1)
  finally have mn: "10 ^ 27 * m \<le> n" .
  have "n < 10 ^ nat (ndig n)" by (rule ndig_upper) (rule n0)
  also have "(10::int) ^ nat (ndig n) = 10 ^ 28 * m"
    using s0 by (simp add: d ctx_prec_def power_add [symmetric] del: power_numeral)
  finally have nm: "n < 10 ^ 28 * m" .
  have val: "dval (dec_fix d) = of_int (sgn (coef d) * q) * 10 powi (dexp d + s)"
  proof (cases "ctx_prec < ndig q")
    case True
    have "2 * (x - n) \<le> m \<Longrightarrow> n < y \<Longrightarrow> 2 * x < 2 * y + m" for x y :: int
      by arith
    from this [OF abs_le_D1 [OF err] nm] have "2 * (q * m) < 2 * (10 ^ 28 * m) + m" .
    then have "2 * q * m < (2 * 10 ^ 28 + 1) * m" by (simp add: algebra_simps)
    then have "2 * q < 2 * 10 ^ 28 + 1" using m0 by (simp only: mult_less_cancel_right_pos)
    moreover have "\<not> q < 10 ^ 28"
      using True ndig_le_prec [of q] half_even_div_nonneg [OF n0 m0] by (auto simp: q)
    ultimately have "q = 10 ^ 28" by linarith
    with True False s0 show ?thesis
      by (simp add: dec_fix_def dval_def Let_def d [symmetric] q [symmetric] power_int_add_1)
  next
    case False
    with \<open>\<not> ndig \<bar>coef d\<bar> \<le> ctx_prec\<close> show ?thesis
      by (simp add: dec_fix_def dval_def Let_def d [symmetric] q [symmetric])
  qed
  have "dval (dec_fix d) - dval d = of_int (sgn (coef d) * (q * m - n)) * 10 powi dexp d"
  proof -
    have a: "dval (dec_fix d) = of_int (sgn (coef d) * (q * m)) * 10 powi dexp d"
      using s0 powi_add_nat [of s "dexp d"] unfolding val by (simp add: d(3))
    have b: "dval d = of_int (sgn (coef d) * n) * 10 powi dexp d"
      unfolding dval_def d(1) sgn_mult_abs_int ..
    show ?thesis unfolding a b by (simp add: algebra_simps)
  qed
  then have "\<bar>dval (dec_fix d) - dval d\<bar> = of_int \<bar>sgn (coef d) * (q * m - n)\<bar> * 10 powi dexp d"
    by (simp only: abs_mult [of _ "10 powi dexp d"] abs_of_pos [OF pow10_pos] of_int_abs)
  also have "\<bar>sgn (coef d) * (q * m - n)\<bar> \<le> \<bar>q * m - n\<bar>"
    by (simp add: abs_mult abs_sgn_eq)
  finally have "\<bar>dval (dec_fix d) - dval d\<bar> \<le> of_int \<bar>q * m - n\<bar> * 10 powi dexp d"
    by simp
  moreover have "of_int \<bar>q * m - n\<bar> \<le> (of_int n :: rat) / 10 ^ 27"
  proof -
    have "2 * \<bar>q * m - n\<bar> \<le> m" using err by (simp only: abs_mult abs_numeral)
    then have "2 * (10 ^ 27 * \<bar>q * m - n\<bar>) \<le> 10 ^ 27 * m" by simp
    with mn n0 have "10 ^ 27 * \<bar>q * m - n\<bar> \<le> n" by simp
    then have "(of_int (10 ^ 27 * \<bar>q * m - n\<bar>) :: rat) \<le> of_int n" by (simp only: of_int_le_iff)
    then show ?thesis by (simp add: field_simps)
  qed
  ultimately have "\<bar>dval (dec_fix d) - dval d\<bar> \<le> of_int n / 10 ^ 27 * 10 powi dexp d"
    by (meson mult_right_mono order_trans less_imp_le pow10_pos)
  then show ?thesis by (simp add: abs_dval d)
qed


subsection \<open>Quantizing to cents is rounding half away from zero\<close>

definition round_cents :: "rat \<Rightarrow> int" where
  "round_cents x = (if 0 \<le> x then \<lfloor>100 * x + 1 / 2\<rfloor> else - \<lfloor>100 * (- x) + 1 / 2\<rfloor>)"

lemma half_up_div_floor:
  assumes "0 < (m::int)"
  shows "half_up_div n m = \<lfloor>of_int n / of_int m + 1 / 2 :: rat\<rfloor>"
proof (rule sym, rule floor_unique)
  define h where "h = half_up_div n m"
  define q r where qr: "q = n div m" "r = n mod m"
  have n: "n = q * m + r" "0 \<le> r" "r < m" using assms by (simp_all add: qr)
  have "h = (if m \<le> 2 * r then q + 1 else q)"
    by (simp add: h_def half_up_div_def qr)
  then have "2 * (h * m) \<le> 2 * n + m" and "2 * n + m < 2 * ((h + 1) * m)"
    using n by (auto simp: algebra_simps)
  then have "(of_int (2 * (h * m)) :: rat) \<le> of_int (2 * n + m)"
    and "(of_int (2 * n + m) :: rat) < of_int (2 * ((h + 1) * m))"
    by (simp_all only: of_int_le_iff of_int_less_iff)
  then show "of_int (half_up_div n m) \<le> (of_int n / of_int m + 1 / 2 :: rat)"
    and "(of_int n / of_int m + 1 / 2 :: rat) < of_int (half_up_div n m) + 1"
    using assms unfolding h_def [symmetric] by (simp_all add: field_simps)
qed

lemma rescale_cents_floor: "rescale_cents d = \<lfloor>100 * \<bar>dval d\<bar> + 1 / 2\<rfloor>"
proof (cases "-2 \<le> dexp d")
  case True
  have "(10::rat) powi dexp d = 10 powi (-2 + (dexp d + 2))" by simp
  also have "\<dots> = 10 ^ nat (dexp d + 2) * 10 powi (-2)"
    using True by (intro powi_add_nat) simp
  finally have "100 * \<bar>dval d\<bar> = of_int (\<bar>coef d\<bar> * 10 ^ nat (dexp d + 2))"
    by (simp add: abs_dval)
  moreover have "\<lfloor>of_int k + 1 / 2 :: rat\<rfloor> = k" for k
    by (rule floor_unique) simp_all
  ultimately have "\<lfloor>100 * \<bar>dval d\<bar> + 1 / 2\<rfloor> = \<bar>coef d\<bar> * 10 ^ nat (dexp d + 2)"
    by presburger
  then show ?thesis
    using True by (simp add: rescale_cents_def)
next
  case False
  define m where "m = (10 ^ nat (-2 - dexp d) :: int)"
  have "(10::rat) powi (-2) = 10 powi (dexp d + (-2 - dexp d))" by simp
  also have "\<dots> = 10 ^ nat (-2 - dexp d) * 10 powi dexp d"
    using False by (intro powi_add_nat) simp
  finally have "100 * \<bar>dval d\<bar> = of_int \<bar>coef d\<bar> / of_int m"
    by (simp add: abs_dval m_def field_simps)
  moreover have "rescale_cents d = half_up_div \<bar>coef d\<bar> m"
    using False by (simp add: rescale_cents_def m_def)
  ultimately show ?thesis
    using half_up_div_floor [of m "\<bar>coef d\<bar>"] by (simp add: m_def)
qed

lemma quantize_cents_value:
  assumes "quantize_cents d = Inr r"
  shows "r = Dec (round_cents (dval d)) (-2)"
proof -
  have "sgn (coef d) * rescale_cents d = round_cents (dval d)"
  proof (cases "coef d = 0")
    case True
    then have "dval d = 0" by (simp add: dval_def)
    moreover have "\<lfloor>1 / 2 :: rat\<rfloor> = 0" by (rule floor_unique) simp_all
    ultimately show ?thesis using True by (simp add: round_cents_def)
  next
    case False
    then show ?thesis
      using rescale_cents_floor [of d] dval_nonneg_iff [of d]
      by (cases "0 \<le> coef d") (simp_all add: round_cents_def)
  qed
  with quantize_cents_Inr_coef [OF assms] show ?thesis by simp
qed

lemma dval_cents: "dval (Dec c (-2)) = of_int c / 100"
  by (simp add: dval_def)

lemma round_cents_mono:
  assumes "x \<le> y"
  shows "round_cents x \<le> round_cents y"
proof -
  have ge: "0 \<le> \<lfloor>100 * z + 1 / 2\<rfloor>" if "0 \<le> z" for z :: rat
    using that by (simp add: zero_le_floor)
  consider "0 \<le> x" | "x < 0" "0 \<le> y" | "x < 0" "y < 0" by linarith
  then show ?thesis
  proof cases
    case 1
    with assms show ?thesis by (auto simp: round_cents_def intro!: floor_mono)
  next
    case 2
    with ge [of y] ge [of "- x"] have "- \<lfloor>100 * (- x) + 1 / 2\<rfloor> \<le> \<lfloor>100 * y + 1 / 2\<rfloor>"
      by linarith
    with 2 show ?thesis unfolding round_cents_def by (simp only: not_le [symmetric] if_True if_False)
  next
    case 3
    with assms have "\<lfloor>100 * (- y) + 1 / 2\<rfloor> \<le> \<lfloor>100 * (- x) + 1 / 2\<rfloor>"
      by (intro floor_mono) simp
    with 3 show ?thesis by (simp add: round_cents_def)
  qed
qed

lemma round_cents_close: "\<bar>of_int (round_cents x) / 100 - x\<bar> \<le> 1 / 200"
proof -
  have fl: "\<bar>of_int \<lfloor>100 * z + 1 / 2\<rfloor> / 100 - z\<bar> \<le> 1 / 200" for z :: rat
  proof -
    define f where "f = (of_int \<lfloor>100 * z + 1 / 2\<rfloor> :: rat)"
    have "f \<le> 100 * z + 1 / 2" and "100 * z + 1 / 2 < f + 1"
      unfolding f_def by linarith+
    then have "f / 100 - z \<le> 1 / 200" and "- (f / 100 - z) \<le> 1 / 200" by linarith+
    then show ?thesis unfolding f_def by (rule abs_leI)
  qed
  show ?thesis
  proof (cases "0 \<le> x")
    case True
    with fl [of x] show ?thesis by (simp add: round_cents_def)
  next
    case False
    define f where "f = (of_int \<lfloor>100 * (- x) + 1 / 2\<rfloor> :: rat)"
    have "\<bar>f / 100 - (- x)\<bar> \<le> 1 / 200"
      unfolding f_def by (rule fl)
    then have "\<bar>- f / 100 - x\<bar> \<le> 1 / 200" by linarith
    with False show ?thesis by (simp add: round_cents_def f_def)
  qed
qed

lemma quantize_cents_total:
  assumes "\<bar>dval d\<bar> < 10 ^ 25"
  shows "\<exists>r. quantize_cents d = Inr r"
proof (cases "coef d = 0")
  case True
  then show ?thesis by (simp add: quantize_cents_def)
next
  case False
  define n where "n = \<bar>coef d\<bar>"
  have n: "1 \<le> n" using False by (simp add: n_def)
  have "(of_int (10 ^ nat (ndig n - 1)) :: rat) \<le> of_int n"
    using ndig_lower [OF n] by (simp only: of_int_le_iff)
  then have "(10::rat) ^ nat (ndig n - 1) * 10 powi dexp d \<le> of_int n * 10 powi dexp d"
    by (intro mult_right_mono) (simp_all add: less_imp_le)
  also have "\<dots> < 10 powi 25"
    using assms by (simp add: abs_dval n_def)
  also have "(10::rat) ^ nat (ndig n - 1) * 10 powi dexp d = 10 powi (dexp d + (ndig n - 1))"
    using ndig_pos [of n] by (intro powi_add_nat [symmetric]) simp
  finally have "(10::rat) powi (dexp d + (ndig n - 1)) < 10 powi 25" .
  then have "dexp d + (ndig n - 1) < 25"
    using power_int_increasing [of 25 "dexp d + (ndig n - 1)" "10::rat"]
    by (cases "dexp d + (ndig n - 1) < 25") simp_all
  then have adj: "\<not> ctx_prec < dexp d + ndig n - 1 + 2 + 1"
    by (simp add: ctx_prec_def)
  have "rescale_cents d < 10 ^ 28"
    using assms unfolding rescale_cents_floor by (simp add: floor_less_iff)
  then have "ndig (rescale_cents d) \<le> ctx_prec"
    using ndig_le_prec [OF rescale_cents_nonneg] by simp
  with adj False show ?thesis
    by (simp add: quantize_cents_def n_def)
qed


subsection \<open>Magnitude bounds\<close>

text \<open>
  \<open>mag_le B d\<close> says that the magnitude of \<open>d\<close> is at most \<open>B\<close>. Each operation widens the
  bound by at most a factor of two for the context rounding, which is enough to show that
  \<open>quantize\<close> cannot overflow on amounts of any realistic size.
\<close>

definition mag_le :: "rat \<Rightarrow> decimal \<Rightarrow> bool" where
  "mag_le B d \<longleftrightarrow> \<bar>dval d\<bar> \<le> B"

lemma mag_le_mono: "mag_le A d \<Longrightarrow> A \<le> B \<Longrightarrow> mag_le B d"
  by (simp add: mag_le_def)

lemma dec_fix_mag: "mag_le B d \<Longrightarrow> mag_le (2 * B) (dec_fix d)"
proof -
  assume "mag_le B d"
  then have B: "\<bar>dval d\<bar> \<le> B" by (simp add: mag_le_def)
  have "\<bar>dval d\<bar> / 10 ^ 27 \<le> \<bar>dval d\<bar>" by (simp add: divide_le_eq)
  then have "\<bar>dval (dec_fix d)\<bar> \<le> 2 * \<bar>dval d\<bar>" using dec_fix_close [of d] by linarith
  with B show ?thesis by (simp add: mag_le_def)
qed

lemma dval_sum_exact:
  "dval (Dec (at_exp a (min (dexp a) (dexp b)) + at_exp b (min (dexp a) (dexp b)))
     (min (dexp a) (dexp b))) = dval a + dval b"
  "dval (Dec (at_exp a (min (dexp a) (dexp b)) - at_exp b (min (dexp a) (dexp b)))
     (min (dexp a) (dexp b))) = dval a - dval b"
  by (simp_all add: dval_at_exp [of "min (dexp a) (dexp b)" a] dval_at_exp [of "min (dexp a) (dexp b)" b]
      dval_def [of "Dec _ _"] algebra_simps)

lemma dec_add_mag: "mag_le A a \<Longrightarrow> mag_le B b \<Longrightarrow> mag_le (2 * (A + B)) (dec_add a b)"
  unfolding dec_add_def Let_def
  by (rule dec_fix_mag) (simp add: mag_le_def dval_sum_exact)

lemma dec_sub_mag: "mag_le A a \<Longrightarrow> mag_le B b \<Longrightarrow> mag_le (2 * (A + B)) (dec_sub a b)"
  unfolding dec_sub_def Let_def
  by (rule dec_fix_mag) (simp add: mag_le_def dval_sum_exact)

lemma dval_mul_exact: "dval (Dec (coef a * coef b) (dexp a + dexp b)) = dval a * dval b"
  by (simp add: dval_def power_int_add)

lemma dec_mul_mag: "mag_le A a \<Longrightarrow> mag_le B b \<Longrightarrow> mag_le (2 * (A * B)) (dec_mul a b)"
  unfolding dec_mul_def
  by (rule dec_fix_mag) (simp add: mag_le_def dval_mul_exact abs_mult mult_mono')

lemma dec_add_nonneg: "0 \<le> coef a \<Longrightarrow> 0 \<le> coef b \<Longrightarrow> 0 \<le> coef (dec_add a b)"
  unfolding dec_add_def Let_def
  by (rule dec_fix_coef_sign) (simp add: at_exp_def)

lemma dec_mul_nonneg: "0 \<le> coef a \<Longrightarrow> 0 \<le> coef b \<Longrightarrow> 0 \<le> coef (dec_mul a b)"
  unfolding dec_mul_def by (rule dec_fix_coef_sign) simp

lemma quantize_cents_mag:
  assumes "mag_le B d" "B < 10 ^ 25"
  shows "returns (quantize_cents d)
    (\<lambda>r. mag_le (B + 1) r \<and> dexp r = -2 \<and> (0 \<le> coef d \<longrightarrow> 0 \<le> coef r))"
proof -
  from assms have "\<bar>dval d\<bar> < 10 ^ 25" by (simp add: mag_le_def)
  from quantize_cents_total [OF this] obtain r where r: "quantize_cents d = Inr r" by blast
  have dr: "dval r = of_int (round_cents (dval d)) / 100"
    using quantize_cents_value [OF r] by (simp add: dval_cents)
  have "\<bar>dval r - dval d\<bar> \<le> 1 / 200"
    unfolding dr by (rule round_cents_close)
  with assms(1) have "mag_le (B + 1) r" unfolding mag_le_def by linarith
  with r show ?thesis
    using quantize_cents_value [OF r] quantize_cents_sign(1) [OF r] by (simp add: returns_def)
qed


text \<open>The quotient of a division has at least 28 digits, so the sticky digit is harmless.\<close>

lemma strip_zeros_value:
  "of_int (fst (strip_zeros q e i)) * (10::rat) powi snd (strip_zeros q e i) = of_int q * 10 powi e"
proof (induction q e i rule: strip_zeros.induct)
  case (1 q e i)
  show ?case
  proof (cases "e < i \<and> q mod 10 = 0")
    case True
    then have "q = q div 10 * 10" by (simp add: mod_eq_0_iff_dvd)
    then have "(of_int q :: rat) = of_int (q div 10) * 10"
      by (metis of_int_mult of_int_numeral)
    with True 1 show ?thesis
      by (simp add: strip_zeros_step power_int_add_1)
  next
    case False
    then show ?thesis by (simp add: strip_zeros_stop)
  qed
qed

lemma strip_zeros_nonneg: "0 \<le> q \<Longrightarrow> 0 \<le> fst (strip_zeros q e i)"
proof (induction q e i rule: strip_zeros.induct)
  case (1 q e i)
  then show ?case
    by (cases "e < i \<and> q mod 10 = 0") (simp_all add: strip_zeros_step strip_zeros_stop)
qed

lemma div_shift_large:
  assumes "1 \<le> n" "1 \<le> m" "sh = ndig m - ndig n + ctx_prec + 1"
  shows "10 ^ 28 * (if 0 \<le> sh then m else m * 10 ^ nat (- sh))
    \<le> (if 0 \<le> sh then n * 10 ^ nat sh else n)"
proof -
  have n: "10 ^ nat (ndig n - 1) \<le> n" and m: "m < 10 ^ nat (ndig m)"
    using ndig_lower [of n] ndig_upper [of m] assms by simp_all
  have pos: "1 \<le> ndig n" "1 \<le> ndig m" by (rule ndig_pos)+
  show ?thesis
  proof (cases "0 \<le> sh")
    case True
    have "10 ^ 28 * m \<le> 10 ^ 28 * 10 ^ nat (ndig m)" using m by simp
    also have "\<dots> = (10::int) ^ (28 + nat (ndig m))" by (rule power_add [symmetric])
    also have "\<dots> \<le> 10 ^ (nat (ndig n - 1) + nat sh)"
      using assms(3) pos True by (intro power_increasing) (simp_all add: ctx_prec_def)
    also have "\<dots> = 10 ^ nat (ndig n - 1) * 10 ^ nat sh" by (rule power_add)
    also have "\<dots> \<le> n * 10 ^ nat sh" using n by (intro mult_right_mono) simp_all
    finally show ?thesis using True by simp
  next
    case False
    have "m * 10 ^ nat (- sh) \<le> 10 ^ nat (ndig m) * 10 ^ nat (- sh)"
      using m by (intro mult_right_mono) simp_all
    then have "10 ^ 28 * (m * 10 ^ nat (- sh)) \<le> 10 ^ 28 * (10 ^ nat (ndig m) * 10 ^ nat (- sh))"
      by simp
    also have "\<dots> = (10::int) ^ (28 + (nat (ndig m) + nat (- sh)))" by (simp only: power_add)
    also have "\<dots> \<le> 10 ^ nat (ndig n - 1)"
      using assms(3) pos False by (intro power_increasing) (simp_all add: ctx_prec_def)
    finally show ?thesis using n False by simp
  qed
qed

lemma shift_ratio:
  assumes "m \<noteq> (0::int)"
  shows "of_int (if 0 \<le> sh then n * 10 ^ nat sh else n) / of_int (if 0 \<le> sh then m else m * 10 ^ nat (- sh))
     = of_int n / of_int m * (10::rat) powi sh"
  using assms by (simp add: power_int_def field_simps)

text \<open>
  A division is the context rounding of a decimal that differs from the true quotient by
  less than one part in \<open>10 ^ 28\<close>, and not at all when the scaled division has no remainder.
\<close>

definition div_parts :: "decimal \<Rightarrow> decimal \<Rightarrow> int \<times> int \<times> int" where
  "div_parts a b =
     (let n = \<bar>coef a\<bar>; m = \<bar>coef b\<bar>; sh = ndig m - ndig n + ctx_prec + 1
      in (if 0 \<le> sh then n * 10 ^ nat sh else n, if 0 \<le> sh then m else m * 10 ^ nat (- sh),
          dexp a - dexp b - sh))"

lemma dec_div_parts:
  assumes "coef a \<noteq> 0" "coef b \<noteq> 0" "div_parts a b = (num, den, e)"
  shows "dec_div a b =
    Inr (dec_fix (let q = num div den; s = sgn (coef a) * sgn (coef b)
      in if num mod den \<noteq> 0 then Dec (s * (if q mod 5 = 0 then q + 1 else q)) e
         else Dec (s * fst (strip_zeros q e (dexp a - dexp b))) (snd (strip_zeros q e (dexp a - dexp b)))))"
  using assms by (auto simp: dec_div_def div_parts_def Let_def)

lemma div_parts_ratio:
  assumes "coef a \<noteq> 0" "coef b \<noteq> 0" "div_parts a b = (num, den, e)"
  shows "0 < den" "10 ^ 28 * den \<le> num" "\<bar>dval a / dval b\<bar> = of_int num / of_int den * 10 powi e"
proof -
  define n m sh where d: "n = \<bar>coef a\<bar>" "m = \<bar>coef b\<bar>" "sh = ndig m - ndig n + ctx_prec + 1"
  have nm: "1 \<le> n" "1 \<le> m" using assms by (simp_all add: d)
  have nd: "num = (if 0 \<le> sh then n * 10 ^ nat sh else n)"
    "den = (if 0 \<le> sh then m else m * 10 ^ nat (- sh))" "e = dexp a - dexp b - sh"
    using assms(3) unfolding div_parts_def Let_def d by simp_all
  show "0 < den" using nm by (simp add: nd)
  show "10 ^ 28 * den \<le> num" unfolding nd by (rule div_shift_large [OF nm d(3)])
  have "of_int num / of_int den * (10::rat) powi e = of_int n / of_int m * 10 powi (sh + e)"
    using nm shift_ratio [of m sh n] by (simp add: nd(1,2) power_int_add)
  also have "\<dots> = (of_int n * 10 powi dexp a) / (of_int m * 10 powi dexp b)"
    by (simp add: nd power_int_diff)
  also have "\<dots> = \<bar>dval a / dval b\<bar>" by (simp add: abs_dval abs_divide d)
  finally show "\<bar>dval a / dval b\<bar> = of_int num / of_int den * 10 powi e" by simp
qed


lemma dec_div_near:
  assumes "coef a \<noteq> 0" "coef b \<noteq> 0" "0 \<le> coef a" "0 \<le> coef b"
  shows "\<exists>x. dec_div a b = Inr (dec_fix x) \<and> 0 \<le> coef x
    \<and> \<bar>dval x - dval a / dval b\<bar> \<le> dval a / dval b / 10 ^ 28"
proof -
  obtain num den e where p: "div_parts a b = (num, den, e)" by (cases "div_parts a b")
  note r = div_parts_ratio [OF assms(1,2) p]
  define q where "q = num div den"
  define t where "t = (of_int num / of_int den :: rat)"
  have q0: "0 \<le> q" using r(1,2) by (simp add: q_def pos_imp_zdiv_nonneg_iff)
  have fl: "of_int q \<le> t" "t < of_int q + 1"
    using floor_correct [of t] by (simp_all add: q_def t_def floor_divide_of_int_eq)
  have "(of_int (10 ^ 28 * den) :: rat) \<le> of_int num" using r(2) by (simp only: of_int_le_iff)
  then have t1: "1 \<le> t / 10 ^ 28" using r(1) by (simp add: t_def field_simps)
  have ab: "0 \<le> dval a / dval b" using assms by (simp add: dval_nonneg_iff divide_nonneg_nonneg)
  then have ex: "dval a / dval b = t * 10 powi e" using r(3) by (simp only: t_def abs_of_nonneg)
  have s1: "sgn (coef a) * sgn (coef b) = 1" using assms by (simp add: sgn_if)
  show ?thesis
  proof (cases "num mod den = 0")
    case False
    define q' where "q' = (if q mod 5 = 0 then q + 1 else q)"
    have "\<bar>of_int q' - t\<bar> \<le> t / 10 ^ 28" using fl t1 by (auto simp: q'_def)
    then have "\<bar>of_int q' - t\<bar> * 10 powi e \<le> t / 10 ^ 28 * 10 powi e"
      by (intro mult_right_mono) (simp_all add: less_imp_le)
    moreover have "\<bar>dval (Dec q' e) - dval a / dval b\<bar> = \<bar>of_int q' - t\<bar> * 10 powi e"
      unfolding ex dval_def [of "Dec q' e"]
      by (simp only: decimal.sel left_diff_distrib [symmetric] abs_mult abs_of_pos [OF pow10_pos])
    moreover have "dec_div a b = Inr (dec_fix (Dec q' e))"
      using dec_div_parts [OF assms(1,2) p] False by (simp add: Let_def s1 q'_def q_def)
    moreover have "0 \<le> q'" using q0 by (simp add: q'_def)
    ultimately show ?thesis unfolding ex by (intro exI [of _ "Dec q' e"]) simp
  next
    case True
    let ?z = "strip_zeros q e (dexp a - dexp b)"
    have "of_int num = (of_int (q * den) :: rat)"
      using True by (simp add: q_def mod_eq_0_iff_dvd)
    then have "of_int q = t" using r(1) by (simp add: t_def)
    then have "dval (Dec (fst ?z) (snd ?z)) = dval a / dval b"
      using strip_zeros_value [of q e "dexp a - dexp b"] ex by (simp add: dval_def)
    moreover have "dec_div a b = Inr (dec_fix (Dec (fst ?z) (snd ?z)))"
      using dec_div_parts [OF assms(1,2) p] True by (simp add: Let_def s1 q_def)
    moreover have "0 \<le> fst ?z" by (rule strip_zeros_nonneg) (rule q0)
    ultimately show ?thesis
      using ab by (intro exI [of _ "Dec (fst ?z) (snd ?z)"]) simp
  qed
qed

lemma dec_div_close:
  assumes "0 \<le> coef a" "0 < coef b"
  shows "returns (dec_div a b)
    (\<lambda>r. 0 \<le> coef r \<and> \<bar>dval r - dval a / dval b\<bar> \<le> dval a / dval b / 10 ^ 26)"
proof (cases "coef a = 0")
  case True
  then have "dval a = 0" by (simp add: dval_def)
  with True assms show ?thesis by (simp add: dec_div_def)
next
  case False
  with assms obtain x where x: "dec_div a b = Inr (dec_fix x)" "0 \<le> coef x"
    "\<bar>dval x - dval a / dval b\<bar> \<le> dval a / dval b / 10 ^ 28"
    using dec_div_near [of a b] by auto
  define t where "t = dval a / dval b"
  have t0: "0 \<le> t" using assms by (simp add: t_def dval_nonneg_iff divide_nonneg_nonneg)
  have x0: "0 \<le> dval x" using x(2) by (simp add: dval_nonneg_iff)
  have "\<bar>dval (dec_fix x) - dval x\<bar> \<le> dval x / 10 ^ 27"
    using dec_fix_close [of x] x0 by simp
  moreover have "\<bar>dval x - t\<bar> \<le> t / 10 ^ 28" using x(3) by (simp add: t_def)
  ultimately have "\<bar>dval (dec_fix x) - t\<bar> \<le> t / 10 ^ 26"
    using t0 x0 unfolding abs_le_iff by (simp add: field_simps)
  then show ?thesis
    using x dec_fix_coef_sign [OF x(2)] by (simp add: t_def)
qed


lemma dec_div_mag:
  assumes "mag_le A a" "0 \<le> coef a" "1 \<le> dval b"
  shows "returns (dec_div a b) (\<lambda>r. 0 \<le> coef r \<and> mag_le (2 * A) r)"
proof -
  have b: "0 < coef b" using assms(3) dval_nonneg_iff [of b] by (auto simp: dval_def intro: ccontr)
  have a0: "0 \<le> dval a" using assms(2) by (simp add: dval_nonneg_iff)
  then have q0: "0 \<le> dval a / dval b" using assms(3) by simp
  have "dval a / dval b \<le> dval a / 1" using a0 assms(3) by (intro divide_left_mono) simp_all
  with assms(1) a0 have "dval a / dval b \<le> A" by (simp add: mag_le_def)
  define t where "t = dval a / dval b"
  have t: "0 \<le> t" "t \<le> A" unfolding t_def by fact+
  have "t / 10 ^ 26 \<le> t" using t(1) by (simp add: divide_le_eq)
  then have "\<bar>x\<bar> \<le> 2 * A" if "\<bar>x - t\<bar> \<le> t / 10 ^ 26" for x
    using that t by linarith
  then show ?thesis
    by (intro returns_weaken [OF dec_div_close [OF assms(2) b]]) (auto simp: mag_le_def t_def)
qed

subsection \<open>Dividing an amount in cents and rounding it to cents\<close>

text \<open>
  The 28-digit quotient is close enough to the exact one that rounding it to cents gives
  the half-up rounding of the exact quotient, ties included: the two roundings of
  \<open>_money(amount / p)\<close> never disagree with one rounding.
\<close>

lemma strip_zeros_mult:
  "e + int k \<le> i \<Longrightarrow> strip_zeros (q * 10 ^ k) e i = strip_zeros q (e + int k) i"
proof (induction k arbitrary: e)
  case 0
  then show ?case by simp
next
  case (Suc k)
  then have "strip_zeros (q * 10 ^ Suc k) e i = strip_zeros (q * 10 ^ k) (e + 1) i"
    by (subst strip_zeros_step) (simp_all add: mult.assoc)
  also have "\<dots> = strip_zeros q (e + 1 + int k) i" using Suc by simp
  finally show ?case by (simp add: algebra_simps)
qed

lemma dec_div_tie:
  assumes "0 < c" "c < 10 ^ 20" "0 < p" "p \<le> 10 ^ 4" "2 * c = z * p"
  shows "\<exists>r. dec_div (Dec c (-2)) (Dec p 0) = Inr r \<and> dval r = of_int c / (100 * of_int p)"
proof -
  define sh where "sh = ndig p - ndig c + ctx_prec + 1"
  have "ndig c \<le> 20" using ndig_le_iff [of c 19] assms by simp
  then have sh: "1 \<le> sh" using ndig_pos [of p] by (simp add: sh_def ctx_prec_def)
  define k where "k = nat (sh - 1)"
  have k: "nat sh = Suc k" "sh = int k + 1" using sh by (simp_all add: k_def)
  have parts: "div_parts (Dec c (-2)) (Dec p 0) = (c * 10 ^ nat sh, p, -2 - sh)"
    using sh assms unfolding div_parts_def Let_def by (simp add: sh_def)
  have "c * 10 ^ nat sh = 5 * (2 * c) * 10 ^ k" unfolding k(1) by simp
  then have num: "c * 10 ^ nat sh = 5 * z * 10 ^ k * p" unfolding assms(5) by simp
  then have q: "c * 10 ^ nat sh div p = 5 * z * 10 ^ k" "c * 10 ^ nat sh mod p = 0"
    using assms(3) by simp_all
  have z: "0 < z" "z < 2 * 10 ^ 20"
  proof -
    show "0 < z" using assms by (metis mult_pos_pos zero_less_mult_pos2 zero_less_numeral)
    then have "z * 1 \<le> z * p" using assms(3) by (intro mult_left_mono) simp_all
    with assms show "z < 2 * 10 ^ 20" by simp
  qed
  have str: "strip_zeros (5 * z * 10 ^ k) (-2 - sh) (-2) = strip_zeros (5 * z) (-3) (-2)"
    by (subst strip_zeros_mult) (simp_all add: k)
  define w where "w = (if z mod 2 = 0 then Dec (z div 2) (-2) else Dec (5 * z) (-3))"
  have "Dec (fst (strip_zeros (5 * z) (-3) (-2))) (snd (strip_zeros (5 * z) (-3) (-2))) = w"
  proof (cases "z mod 2 = 0")
    case True
    then have "5 * z mod 10 = 0" "5 * z div 10 = z div 2" by presburger+
    with True show ?thesis by (simp add: w_def strip_zeros_step strip_zeros_stop)
  next
    case False
    then have "5 * z mod 10 \<noteq> 0" by presburger
    with False show ?thesis by (simp add: w_def strip_zeros_stop)
  qed
  then have "dec_div (Dec c (-2)) (Dec p 0) = Inr (dec_fix w)"
    using dec_div_parts [OF _ _ parts] assms by (simp add: Let_def q str)
  moreover have "dec_fix w = w" using z by (intro dec_fix_exact) (auto simp: w_def)
  moreover have "dval w = of_int z / 200"
  proof (cases "z mod 2 = 0")
    case True
    then have "z = 2 * (z div 2)" by presburger
    then have "(of_int z :: rat) = 2 * of_int (z div 2)" by (metis of_int_mult of_int_numeral)
    with True show ?thesis by (simp add: w_def dval_def)
  next
    case False
    then show ?thesis by (simp add: w_def dval_def)
  qed
  moreover have "(of_int z :: rat) / 200 = of_int c / (100 * of_int p)"
  proof -
    have "(of_int (2 * c) :: rat) = of_int (z * p)" by (simp only: assms(5))
    with assms(3) show ?thesis by (simp add: field_simps)
  qed
  ultimately show ?thesis by simp
qed


lemma floor_stable:
  fixes x y :: rat
  assumes "0 < p" "x = of_int c / of_int p" "\<bar>y - x\<bar> < 1 / (2 * of_int p)"
    "\<not> p dvd 2 * c \<or> y = x"
  shows "\<lfloor>y + 1 / 2\<rfloor> = \<lfloor>x + 1 / 2\<rfloor>"
proof (cases "y = x")
  case True
  then show ?thesis by simp
next
  case False
  define k where "k = \<lfloor>x + 1 / 2\<rfloor>"
  define u where "u = 2 * c + p - 2 * k * p"
  have k: "of_int k \<le> x + 1 / 2" "x + 1 / 2 < of_int k + 1"
    unfolding k_def by linarith+
  have ux: "(of_int u :: rat) = 2 * of_int p * (x + 1 / 2 - of_int k)"
    using assms(1) by (simp add: u_def assms(2) field_simps)
  have p0: "(0::rat) < of_int p" using assms(1) by simp
  have "(0::rat) \<le> of_int u" unfolding ux using k(1) p0 by (intro mult_nonneg_nonneg) simp_all
  moreover have "u \<noteq> 0"
  proof
    assume "u = 0"
    then have "(2 * k - 1) * p = 2 * c" by (simp add: u_def algebra_simps)
    then have "p dvd 2 * c" by (metis dvd_triv_right)
    with assms(4) False show False by simp
  qed
  ultimately have lo: "(1::rat) \<le> of_int u" by simp
  have "(of_int u :: rat) < 2 * of_int p * 1"
    unfolding ux using k(2) p0 by (intro mult_strict_left_mono) simp_all
  then have "u < 2 * p" by simp
  then have "u \<le> 2 * p - 1" by simp
  then have "(of_int u :: rat) \<le> of_int (2 * p - 1)" by (simp only: of_int_le_iff)
  then have hi: "2 * of_int p * (x + 1 / 2 - of_int k) \<le> 2 * of_int p - (1::rat)" by (simp add: ux)
  have lo': "1 \<le> 2 * of_int p * (x + 1 / 2 - of_int k)" using lo by (simp add: ux)
  have d: "2 * of_int p * \<bar>y - x\<bar> < 1" using assms(3) p0 by (simp add: field_simps)
  have "2 * of_int p * (x - y) < 1" and "2 * of_int p * (y - x) < 1"
  proof -
    have "2 * of_int p * (x - y) \<le> 2 * of_int p * \<bar>y - x\<bar>"
      and "2 * of_int p * (y - x) \<le> 2 * of_int p * \<bar>y - x\<bar>"
      using p0 by (auto intro!: mult_left_mono)
    with d show "2 * of_int p * (x - y) < 1" and "2 * of_int p * (y - x) < 1" by linarith+
  qed
  then have "0 < 2 * of_int p * (y + 1 / 2 - of_int k)"
    and "2 * of_int p * (y + 1 / 2 - of_int k) < 2 * of_int p * 1"
    using lo' hi by (simp_all add: algebra_simps)
  then have "0 < y + 1 / 2 - of_int k" and "y + 1 / 2 - of_int k < 1"
    using p0 by (simp_all add: zero_less_mult_iff mult_less_cancel_left_pos)
  then have "\<lfloor>y + 1 / 2\<rfloor> = k" by (intro floor_unique) simp_all
  then show ?thesis by (simp add: k_def)
qed

theorem quantize_div_cents:
  assumes "0 \<le> c" "c < 10 ^ 20" "0 < p" "p \<le> 10 ^ 4"
  shows "bind_res (dec_div (Dec c (-2)) (Dec p 0)) quantize_cents
    = Inr (Dec (round_cents (of_int c / (100 * of_int p))) (-2))"
proof -
  have dv: "dval (Dec c (-2)) / dval (Dec p 0) = of_int c / of_int p / 100"
    by (simp add: dval_def)
  define x where "x = (of_int c / of_int p :: rat)"
  have p1: "(1::rat) \<le> of_int p" using assms(3) by simp
  have "(of_int c :: rat) < of_int (10 ^ 20)" using assms(2) by (simp only: of_int_less_iff)
  then have c20: "(of_int c :: rat) < 10 ^ 20" by simp
  have x: "0 \<le> x" "x < 10 ^ 20"
  proof -
    show "0 \<le> x" using assms by (simp add: x_def)
    have "x \<le> of_int c / 1" unfolding x_def using assms(1) p1 by (intro divide_left_mono) simp_all
    with c20 show "x < 10 ^ 20" by simp
  qed
  obtain r where r: "dec_div (Dec c (-2)) (Dec p 0) = Inr r" "0 \<le> coef r"
    "\<bar>dval r - x / 100\<bar> \<le> x / 100 / 10 ^ 26" "\<not> p dvd 2 * c \<or> dval r = x / 100"
  proof -
    have "\<exists>r. dec_div (Dec c (-2)) (Dec p 0) = Inr r \<and> 0 \<le> coef r
        \<and> \<bar>dval r - x / 100\<bar> \<le> x / 100 / 10 ^ 26"
      using dec_div_close [of "Dec c (-2)" "Dec p 0"] assms dv by (simp add: returns_def x_def)
    then obtain r where r: "dec_div (Dec c (-2)) (Dec p 0) = Inr r" "0 \<le> coef r"
      "\<bar>dval r - x / 100\<bar> \<le> x / 100 / 10 ^ 26" by blast
    have "dval r = x / 100" if "p dvd 2 * c"
    proof (cases "c = 0")
      case True
      with r(3) show ?thesis by (simp add: x_def)
    next
      case False
      from that obtain z where "2 * c = z * p" by (metis dvdE mult.commute)
      with dec_div_tie [of c p z] assms False r(1) show ?thesis by (auto simp: x_def)
    qed
    with r that show thesis by blast
  qed
  define y where "y = 100 * dval r"
  have p4: "(of_int p :: rat) \<le> 10 ^ 4"
  proof -
    have "(of_int p :: rat) \<le> of_int (10 ^ 4)" using assms(4) by (simp only: of_int_le_iff)
    then show ?thesis by simp
  qed
  have "y - x = 100 * (dval r - x / 100)" by (simp add: y_def algebra_simps)
  then have "\<bar>y - x\<bar> = 100 * \<bar>dval r - x / 100\<bar>" by (simp only: abs_mult abs_numeral)
  with r(3) have "\<bar>y - x\<bar> \<le> x / 10 ^ 26" by simp
  also have "\<dots> < 1 / 10 ^ 6" using x by simp
  also have "\<dots> \<le> 1 / (2 * of_int p)" using p1 p4 by (intro divide_left_mono) simp_all
  finally have yx: "\<bar>y - x\<bar> < 1 / (2 * of_int p)" .
  have fl: "\<lfloor>y + 1 / 2\<rfloor> = \<lfloor>x + 1 / 2\<rfloor>"
    using floor_stable [OF assms(3) x_def yx] r(4) by (auto simp: y_def)
  have y0: "0 \<le> dval r" using r(2) by (simp add: dval_nonneg_iff)
  have "(1::rat) / (2 * of_int p) \<le> 1 / 2" using p1 by (intro divide_left_mono) simp_all
  with yx x(2) have "y < 10 ^ 20 + 1" by linarith
  then have "dval r < 10 ^ 25" by (simp add: y_def)
  with y0 obtain s where s: "quantize_cents r = Inr s" using quantize_cents_total [of r] by auto
  have "round_cents (dval r) = round_cents (x / 100)"
    using fl y0 x(1) by (simp add: round_cents_def y_def)
  with quantize_cents_value [OF s] r(1) s show ?thesis by (simp add: x_def mult.commute)
qed


subsection \<open>Value-level rules for amounts of realistic size\<close>

text \<open>
  On amounts below \<open>10 ^ 20\<close> with at most seven decimals the context never rounds a sum, a
  difference or a product, so a computation can be read off its values.
\<close>

lemma at_exp_abs: "e \<le> dexp d \<Longrightarrow> - int k \<le> e \<Longrightarrow> of_int \<bar>at_exp d e\<bar> \<le> \<bar>dval d\<bar> * (10::rat) ^ k"
proof -
  assume le: "e \<le> dexp d" "- int k \<le> e"
  have "\<bar>dval d\<bar> = of_int \<bar>at_exp d e\<bar> * 10 powi e"
    using dval_at_exp [OF le(1)] pow10_pos [of e] by (simp add: abs_mult)
  moreover have "(1::rat) \<le> 10 powi e * 10 ^ k"
  proof -
    have "10 powi e * (10::rat) ^ k = 10 powi (e + int k)"
      by (subst power_int_add) simp_all
    also have "(1::rat) \<le> 10 powi (e + int k)"
      using le(2) power_int_increasing [of 0 "e + int k" "10::rat"] by simp
    finally show ?thesis .
  qed
  then have "of_int \<bar>at_exp d e\<bar> * 1 \<le> of_int \<bar>at_exp d e\<bar> * (10 powi e * (10::rat) ^ k)"
    by (intro mult_left_mono) simp_all
  ultimately show ?thesis by (simp add: mult.assoc)
qed

lemma dval_add_exact:
  assumes "- 7 \<le> dexp a" "- 7 \<le> dexp b" "mag_le (10 ^ 20) a" "mag_le (10 ^ 20) b"
  shows "dval (dec_add a b) = dval a + dval b" and "dval (dec_sub a b) = dval a - dval b"
proof -
  let ?e = "min (dexp a) (dexp b)"
  have "of_int \<bar>at_exp a ?e\<bar> \<le> (10::rat) ^ 27" "of_int \<bar>at_exp b ?e\<bar> \<le> (10::rat) ^ 27"
    using at_exp_abs [of ?e a 7] at_exp_abs [of ?e b 7] assms by (auto simp: mag_le_def)
  then have "of_int \<bar>at_exp a ?e\<bar> \<le> (of_int (10 ^ 27) :: rat)"
    and "of_int \<bar>at_exp b ?e\<bar> \<le> (of_int (10 ^ 27) :: rat)" by simp_all
  then have "\<bar>at_exp a ?e\<bar> \<le> 10 ^ 27" "\<bar>at_exp b ?e\<bar> \<le> 10 ^ 27"
    by (simp_all only: of_int_le_iff)
  then have "\<bar>at_exp a ?e + at_exp b ?e\<bar> < 10 ^ 28" "\<bar>at_exp a ?e - at_exp b ?e\<bar> < 10 ^ 28"
    by simp_all
  then show "dval (dec_add a b) = dval a + dval b" and "dval (dec_sub a b) = dval a - dval b"
    by (simp_all only: dec_add_def dec_sub_def Let_def dec_fix_exact decimal.sel dval_sum_exact)
qed

lemma dval_mul_exact_small:
  assumes "- 7 \<le> dexp a + dexp b" "\<bar>dval a * dval b\<bar> \<le> 10 ^ 20"
  shows "dval (dec_mul a b) = dval a * dval b"
proof -
  let ?d = "Dec (coef a * coef b) (dexp a + dexp b)"
  have "of_int \<bar>at_exp ?d (dexp a + dexp b)\<bar> \<le> (10::rat) ^ 27"
    using at_exp_abs [of "dexp a + dexp b" ?d 7] assms by (simp add: dval_mul_exact)
  then have "of_int \<bar>coef ?d\<bar> \<le> (of_int (10 ^ 27) :: rat)" by (simp add: at_exp_def)
  then have "\<bar>coef ?d\<bar> \<le> 10 ^ 27" by (simp only: of_int_le_iff)
  then have "dec_fix ?d = ?d" by (intro dec_fix_exact) simp
  then show ?thesis by (simp add: dec_mul_def dval_mul_exact)
qed

lemma quantize_cents_Inr:
  "\<bar>dval d\<bar> < 10 ^ 25 \<Longrightarrow> quantize_cents d = Inr (Dec (round_cents (dval d)) (-2))"
  using quantize_cents_total [of d] quantize_cents_value [of d] by auto

lemma round_cents_int [simp]: "round_cents (of_int c / 100) = c"
proof -
  have fl: "\<lfloor>of_int k + 1 / 2 :: rat\<rfloor> = k" for k by (rule floor_unique) simp_all
  show ?thesis using fl [of c] fl [of "- c"] by (simp add: round_cents_def)
qed


text \<open>The context only ever shortens a result, so exponents never fall.\<close>

lemma dexp_dec_fix: "dexp d \<le> dexp (dec_fix d)"
proof (cases "ndig \<bar>coef d\<bar> \<le> ctx_prec")
  case True
  then show ?thesis by (simp add: dec_fix_def)
next
  case False
  then show ?thesis by (auto simp: dec_fix_def Let_def)
qed

lemma dexp_dec_mul: "dexp a + dexp b \<le> dexp (dec_mul a b)"
  using dexp_dec_fix [of "Dec (coef a * coef b) (dexp a + dexp b)"] by (simp add: dec_mul_def)

lemma dexp_dec_add: "min (dexp a) (dexp b) \<le> dexp (dec_add a b)"
  and dexp_dec_sub: "min (dexp a) (dexp b) \<le> dexp (dec_sub a b)"
  unfolding dec_add_def dec_sub_def Let_def by (rule order_trans [OF _ dexp_dec_fix]; simp)+

end
