(* ===== verification/Uuids.thy ===== *)
theory Uuids
  imports Prelude
begin

section \<open>UUIDs and their string form\<close>

text \<open>
  Run, employee and email identities are 128-bit UUIDs; the JSON columns carry them as
  strings. \<open>uuid_str\<close> is \<open>str(u)\<close>, \<open>uuid_parse\<close> is \<open>uuid.UUID(s)\<close> (which also takes the
  urn, braced and undashed spellings, and everything \<open>int(s, 16)\<close> takes), \<open>None\<close> being the
  \<open>ValueError\<close>. The round trip shows that comparing identities through their strings, as
  the alias and override code does, is comparing identities.
\<close>

type_synonym uuid = "128 word"

definition hexdigit :: "int \<Rightarrow> char" where
  "hexdigit n = (if n < 10 then char_of (nat (48 + n)) else char_of (nat (87 + n)))"

fun hex_digits :: "nat \<Rightarrow> int \<Rightarrow> int list" where
  "hex_digits 0 n = []"
| "hex_digits (Suc k) n = hex_digits k (n div 16) @ [n mod 16]"

definition uuid_hex :: "uuid \<Rightarrow> string" where
  "uuid_hex u = map hexdigit (hex_digits 32 (uint u))"

definition uuid_str :: "uuid \<Rightarrow> string" where
  "uuid_str u =
     (let h = uuid_hex u
      in take 8 h @ ''-'' @ take 4 (drop 8 h) @ ''-'' @ take 4 (drop 12 h) @ ''-''
         @ take 4 (drop 16 h) @ ''-'' @ drop 20 h)"

text \<open>\<open>s.replace(sub, '')\<close> for a non-empty \<open>sub\<close>: occurrences from the left, not overlapping.\<close>

function py_remove :: "string \<Rightarrow> string \<Rightarrow> string" where
  "py_remove sub s =
     (if sub = [] \<or> s = [] then s
      else if take (length sub) s = sub then py_remove sub (drop (length sub) s)
      else hd s # py_remove sub (tl s))"
  by pat_completeness auto
termination
  by (relation "measure (\<lambda>(sub, s). length s)") auto

declare py_remove.simps [simp del]

definition strip_chars :: "(char \<Rightarrow> bool) \<Rightarrow> string \<Rightarrow> string" where
  "strip_chars p s = rev (dropWhile p (rev (dropWhile p s)))"

definition hex_val :: "char \<Rightarrow> int option" where
  "hex_val c =
     (let n = of_char c :: nat
      in if 48 \<le> n \<and> n \<le> 57 then Some (int n - 48)
         else if 97 \<le> n \<and> n \<le> 102 then Some (int n - 87)
         else if 65 \<le> n \<and> n \<le> 70 then Some (int n - 55)
         else None)"

text \<open>The digits of \<open>int(s, 16)\<close>, one underscore allowed between two of them.\<close>

fun hex_number :: "int \<Rightarrow> string \<Rightarrow> int option" where
  "hex_number acc [] = Some acc"
| "hex_number acc (c # cs) =
     (if c = CHR ''_''
      then (case cs of [] \<Rightarrow> None
            | d # ds \<Rightarrow> (case hex_val d of None \<Rightarrow> None | Some v \<Rightarrow> hex_number (acc * 16 + v) ds))
      else (case hex_val c of None \<Rightarrow> None | Some v \<Rightarrow> hex_number (acc * 16 + v) cs))"

definition hex_unsigned :: "string \<Rightarrow> int option" where
  "hex_unsigned s =
     (let body = (if take 2 s = ''0x'' \<or> take 2 s = ''0X''
                  then (if take 1 (drop 2 s) = ''_'' then drop 3 s else drop 2 s) else s)
      in case body of [] \<Rightarrow> None
         | c # _ \<Rightarrow> if c = CHR ''_'' then None else hex_number 0 body)"

definition py_int16 :: "string \<Rightarrow> int option" where
  "py_int16 s =
     (case strip_chars py_space s of
        [] \<Rightarrow> None
      | c # cs \<Rightarrow> if c = CHR ''-'' then map_option uminus (hex_unsigned cs)
                  else if c = CHR ''+'' then hex_unsigned cs
                  else hex_unsigned (c # cs))"

definition uuid_parse :: "string \<Rightarrow> uuid option" where
  "uuid_parse s =
     (let h = py_remove ''-'' (strip_chars (\<lambda>c. c = CHR ''{'' \<or> c = CHR ''}'')
                (py_remove ''uuid:'' (py_remove ''urn:'' s)))
      in if length h \<noteq> 32 then None
         else case py_int16 h of
                None \<Rightarrow> None
              | Some n \<Rightarrow> if 0 \<le> n \<and> n < 2 ^ 128 then Some (word_of_int n) else None)"

subsection \<open>The round trip\<close>

lemma length_hex_digits [simp]: "length (hex_digits k n) = k"
  by (induction k arbitrary: n) auto

lemma hex_digits_range: "d \<in> set (hex_digits k n) \<Longrightarrow> 0 \<le> d \<and> d < 16"
  by (induction k arbitrary: n) auto

lemma hex_digits_value: "foldl (\<lambda>a d. a * 16 + d) 0 (hex_digits k n) = n mod 16 ^ k"
proof (induction k arbitrary: n)
  case 0
  show ?case by simp
next
  case (Suc k)
  have "n div 16 mod 16 ^ k * 16 + n mod 16 = n mod (16 * 16 ^ k)"
    by (simp add: zmod_zmult2_eq)
  then show ?case by (simp add: Suc.IH)
qed

lemma hexdigit_cases:
  assumes "0 \<le> d" "d < 16"
  shows "hexdigit d \<in> set ''0123456789abcdef''" and "hex_val (hexdigit d) = Some d"
proof -
  have "d \<in> {0, 1, 2, 3, 4, 5, 6, 7, 8, 9, 10, 11, 12, 13, 14, 15}"
    using assms by (simp add: insert_iff) presburger
  then show "hexdigit d \<in> set ''0123456789abcdef''" and "hex_val (hexdigit d) = Some d"
    by (elim insertE emptyE; hypsubst; code_simp)+
qed


definition hex_char :: "char \<Rightarrow> bool" where
  "hex_char c \<longleftrightarrow> c \<in> set ''0123456789abcdef''"

lemma hex_char_simps [simp]:
  "hex_char c \<Longrightarrow> c \<noteq> CHR ''-''" "hex_char c \<Longrightarrow> c \<noteq> CHR ''_''" "hex_char c \<Longrightarrow> c \<noteq> CHR ''+''"
  "hex_char c \<Longrightarrow> c \<noteq> CHR ''x''" "hex_char c \<Longrightarrow> c \<noteq> CHR ''X''" "hex_char c \<Longrightarrow> c \<noteq> CHR '':''"
  "hex_char c \<Longrightarrow> c \<noteq> CHR ''{''" "hex_char c \<Longrightarrow> c \<noteq> CHR ''}''" "hex_char c \<Longrightarrow> \<not> py_space c"
  by (auto simp: hex_char_def py_space_def)

lemma uuid_hex_chars: "c \<in> set (uuid_hex u) \<Longrightarrow> hex_char c"
  using hexdigit_cases(1) by (auto simp: uuid_hex_def hex_char_def dest!: hex_digits_range)

lemma length_uuid_hex [simp]: "length (uuid_hex u) = 32"
  by (simp add: uuid_hex_def)

lemma hex_number_map:
  "\<forall>d \<in> set ds. 0 \<le> d \<and> d < 16 \<Longrightarrow>
   hex_number a (map hexdigit ds) = Some (foldl (\<lambda>a d. a * 16 + d) a ds)"
proof (induction ds arbitrary: a)
  case Nil
  then show ?case by simp
next
  case (Cons d ds)
  then have "hexdigit d \<noteq> CHR ''_''" and "hex_val (hexdigit d) = Some d"
    using hexdigit_cases [of d] hex_char_simps(2) [of "hexdigit d"] by (auto simp: hex_char_def)
  with Cons show ?case by simp
qed

lemma hex_number_uuid_hex: "hex_number 0 (uuid_hex u) = Some (uint u)"
proof -
  have "uint u < 16 ^ 32" and "0 \<le> uint u"
    using uint_lt2p [of u] by simp_all
  then have "uint u mod 16 ^ 32 = uint u"
    by (intro mod_pos_pos_trivial) simp_all
  then show ?thesis
    using hex_number_map [of "hex_digits 32 (uint u)" 0] hex_digits_range
    by (auto simp: uuid_hex_def hex_digits_value)
qed

lemma dropWhile_no: "\<forall>c \<in> set s. \<not> p c \<Longrightarrow> dropWhile p s = s"
  by (cases s) auto

lemma strip_chars_no: "\<forall>c \<in> set s. \<not> p c \<Longrightarrow> strip_chars p s = s"
  by (simp add: strip_chars_def dropWhile_no)

lemma py_remove_absent: "c \<in> set sub \<Longrightarrow> c \<notin> set s \<Longrightarrow> py_remove sub s = s"
proof (induction sub s rule: py_remove.induct)
  case (1 sub s)
  have "take (length sub) s \<noteq> sub"
    using "1.prems" in_set_takeD by metis
  with 1 show ?case
    by (subst py_remove.simps) (cases s, auto)
qed

lemma py_remove_append:
  "\<forall>c \<in> set s. c \<noteq> d \<Longrightarrow> py_remove [d] (s @ t) = s @ py_remove [d] t"
  by (induction s) (auto simp: py_remove.simps [of "[d]" "x # xs" for x xs] Suc_le_eq)

lemma py_remove_hit: "py_remove [d] (d # t) = py_remove [d] t"
  by (subst py_remove.simps) simp

lemma py_int16_uuid_hex: "py_int16 (uuid_hex u) = Some (uint u)"
proof -
  obtain c d cs where h: "uuid_hex u = c # d # cs"
  proof -
    have "length (uuid_hex u) = Suc (Suc 30)" by simp
    then show thesis using that by (auto simp only: length_Suc_conv)
  qed
  then have hc: "hex_char c" "hex_char d"
    using uuid_hex_chars [of _ u] by auto
  have "strip_chars py_space (uuid_hex u) = uuid_hex u"
    using uuid_hex_chars by (intro strip_chars_no) auto
  with h hc hex_number_uuid_hex [of u] show ?thesis
    by (auto simp: py_int16_def hex_unsigned_def)
qed


lemma uuid_str_chars: "c \<in> set (uuid_str u) \<Longrightarrow> hex_char c \<or> c = CHR ''-''"
  using uuid_hex_chars [of c u]
  by (auto simp: uuid_str_def Let_def dest: in_set_takeD in_set_dropD)

lemma uuid_hex_no_dash: "CHR ''-'' \<notin> set (uuid_hex u)"
  by (auto dest!: uuid_hex_chars simp: hex_char_def)

lemma uuid_str_no_brace: "CHR ''{'' \<notin> set (uuid_str u)" "CHR ''}'' \<notin> set (uuid_str u)"
  by (auto dest!: uuid_str_chars simp: hex_char_def)

lemma py_remove_dash_take:
  "py_remove ''-'' (take n (uuid_hex u) @ t) = take n (uuid_hex u) @ py_remove ''-'' t"
  "py_remove ''-'' (take n (drop k (uuid_hex u)) @ t) = take n (drop k (uuid_hex u)) @ py_remove ''-'' t"
  using uuid_hex_no_dash [of u]
  by (auto intro!: py_remove_append dest!: in_set_takeD in_set_dropD)

lemma py_remove_dash_drop: "py_remove ''-'' (drop k (uuid_hex u)) = drop k (uuid_hex u)"
  using uuid_hex_no_dash [of u]
  by (intro py_remove_absent [of "CHR ''-''"]) (auto dest!: in_set_dropD)

lemma py_remove_dashes: "py_remove ''-'' (uuid_str u) = uuid_hex u"
proof -
  define h where "h = uuid_hex u"
  have "h = take 8 h @ drop 8 h" by simp
  also have "drop 8 h = take 4 (drop 8 h) @ drop 12 h"
    using append_take_drop_id [of 4 "drop 8 h"] by simp
  also have "drop 12 h = take 4 (drop 12 h) @ drop 16 h"
    using append_take_drop_id [of 4 "drop 12 h"] by simp
  also have "drop 16 h = take 4 (drop 16 h) @ drop 20 h"
    using append_take_drop_id [of 4 "drop 16 h"] by simp
  finally show ?thesis
    by (simp add: uuid_str_def Let_def h_def py_remove_dash_take py_remove_dash_drop py_remove_hit)
qed

lemma uuid_parse_str [simp]: "uuid_parse (uuid_str u) = Some u"
proof -
  have colon: "CHR '':'' \<notin> set (uuid_str u)"
    using uuid_str_chars [of "CHR '':''" u] hex_char_simps(6) [of "CHR '':''"] by auto
  have "strip_chars (\<lambda>c. c = CHR ''{'' \<or> c = CHR ''}'') (uuid_str u) = uuid_str u"
    using uuid_str_no_brace [of u] by (intro strip_chars_no) auto
  with colon have h: "py_remove ''-'' (strip_chars (\<lambda>c. c = CHR ''{'' \<or> c = CHR ''}'')
      (py_remove ''uuid:'' (py_remove ''urn:'' (uuid_str u)))) = uuid_hex u"
    by (simp add: py_remove_absent [of "CHR '':''"] py_remove_dashes)
  have "uint u < 2 ^ 128"
    using uint_lt2p [of u] by simp
  then show ?thesis
    by (simp add: uuid_parse_def h py_int16_uuid_hex)
qed

lemma uuid_str_eq_iff [simp]: "uuid_str u = uuid_str v \<longleftrightarrow> u = v"
  by (metis uuid_parse_str option.inject)

lemma inj_uuid_str: "inj_on uuid_str A"
  by (simp add: inj_on_def)

end
