(* ===== verification/Models.thy ===== *)
theory Models
  imports PyDecimal Uuids
begin

section \<open>The data model: roster, extraction, decision, paystub\<close>

text \<open>
  The Pydantic models of \<open>app/models\<close>. A model class is a record, a \<open>Literal\<close> a datatype,
  and the field constraints together with the \<open>model_validator\<close> of a class are a Boolean
  predicate; constructing an object the validator rejects raises \<open>ValidationError\<close>, which
  is what \<open>guard_res\<close> says at the construction sites. Dates are day numbers.
\<close>

named_theorems model_defs \<open>the validity predicates of the model classes\<close>

subsection \<open>Run status\<close>

datatype run_status =
    RECEIVED | EXTRACTING | AWAITING_REPLY | COMPUTED | AWAITING_APPROVAL | APPROVED
  | SENT | RECONCILED | REJECTED | ERROR | NEEDS_OPERATOR

fun status_value :: "run_status \<Rightarrow> string" where
  "status_value RECEIVED = ''received''"
| "status_value EXTRACTING = ''extracting''"
| "status_value AWAITING_REPLY = ''awaiting_reply''"
| "status_value COMPUTED = ''computed''"
| "status_value AWAITING_APPROVAL = ''awaiting_approval''"
| "status_value APPROVED = ''approved''"
| "status_value SENT = ''sent''"
| "status_value RECONCILED = ''reconciled''"
| "status_value REJECTED = ''rejected''"
| "status_value ERROR = ''error''"
| "status_value NEEDS_OPERATOR = ''needs_operator''"

lemma status_value_inj: "status_value a = status_value b \<Longrightarrow> a = b"
  by (cases a; cases b) simp_all

subsection \<open>Roster\<close>

datatype pay_type = Hourly | Salary

datatype filing_status = Single | MarriedJointly | MarriedSeparately | HeadOfHousehold

record employee =
  emp_id :: uuid
  emp_business :: uuid
  full_name :: string
  known_aliases :: "string list"
  emp_pay_type :: pay_type
  hourly_rate :: "decimal option"
  annual_salary :: "decimal option"
  retirement_contribution_pct :: decimal
  emp_filing_status :: filing_status
  step_2_checkbox :: bool
  step_3_dependents :: decimal
  step_4a_other_income :: decimal
  step_4b_deductions :: decimal
  ytd_ss_wages :: decimal
  pay_periods_per_year :: nat

definition dec_zero :: decimal where
  "dec_zero = Dec 0 0"

definition dec_one :: decimal where
  "dec_one = Dec 1 0"

definition opt_ge0 :: "decimal option \<Rightarrow> bool" where
  "opt_ge0 v = (case v of None \<Rightarrow> True | Some d \<Rightarrow> dec_le dec_zero d)"

definition employee_valid :: "employee \<Rightarrow> bool" where
  "employee_valid e \<longleftrightarrow>
     opt_ge0 (hourly_rate e) \<and> opt_ge0 (annual_salary e)
   \<and> dec_le dec_zero (retirement_contribution_pct e) \<and> dec_le (retirement_contribution_pct e) dec_one
   \<and> emp_filing_status e \<in> {Single, MarriedJointly, MarriedSeparately}
   \<and> dec_le dec_zero (step_3_dependents e)
   \<and> dec_le dec_zero (step_4a_other_income e)
   \<and> dec_le dec_zero (step_4b_deductions e)
   \<and> dec_le dec_zero (ytd_ss_wages e)
   \<and> pay_periods_per_year e \<in> {12, 24, 26, 52}
   \<and> (emp_pay_type e = Hourly \<longrightarrow> hourly_rate e \<noteq> None \<and> annual_salary e = None)
   \<and> (emp_pay_type e = Salary \<longrightarrow> annual_salary e \<noteq> None \<and> hourly_rate e = None)"

record roster =
  roster_business :: uuid
  roster_employees :: "employee list"

definition roster_valid :: "roster \<Rightarrow> bool" where
  "roster_valid r \<longleftrightarrow>
     (\<forall>e \<in> set (roster_employees r). employee_valid e) \<and> distinct (map emp_id (roster_employees r))"

subsection \<open>Name resolution records and validation issues\<close>

datatype match_source = SrcExact | SrcAlias | SrcNone | SrcOperator

record name_match =
  match_name :: string
  matched_employee_id :: "uuid option"
  match_source_of :: match_source
  resolved :: bool
  match_reason :: string

definition name_match_valid :: "name_match \<Rightarrow> bool" where
  "name_match_valid m \<longleftrightarrow>
     (if match_source_of m = SrcNone then \<not> resolved m \<and> matched_employee_id m = None
      else resolved m \<and> matched_employee_id m \<noteq> None)"

datatype issue_type = Missing | OutOfBounds | NonNumeric | FieldRegression

subsection \<open>Extraction\<close>

datatype hours_field = HoursRegular | HoursOvertime | HoursVacation | HoursSick | HoursHoliday

definition HOURS_FIELDS :: "hours_field list" where
  "HOURS_FIELDS = [HoursRegular, HoursOvertime, HoursVacation, HoursSick, HoursHoliday]"

fun field_name :: "hours_field \<Rightarrow> string" where
  "field_name HoursRegular = ''hours_regular''"
| "field_name HoursOvertime = ''hours_overtime''"
| "field_name HoursVacation = ''hours_vacation''"
| "field_name HoursSick = ''hours_sick''"
| "field_name HoursHoliday = ''hours_holiday''"

record extracted_employee =
  submitted_name :: string
  hours_regular :: "decimal option"
  hours_overtime :: "decimal option"
  hours_vacation :: "decimal option"
  hours_sick :: "decimal option"
  hours_holiday :: "decimal option"
  contribution_401k_override :: "decimal option"

text \<open>\<open>getattr(emp, field)\<close> and \<open>emp_dict[field] = value\<close>.\<close>

fun get_hours :: "extracted_employee \<Rightarrow> hours_field \<Rightarrow> decimal option" where
  "get_hours e HoursRegular = hours_regular e"
| "get_hours e HoursOvertime = hours_overtime e"
| "get_hours e HoursVacation = hours_vacation e"
| "get_hours e HoursSick = hours_sick e"
| "get_hours e HoursHoliday = hours_holiday e"

fun set_hours :: "hours_field \<Rightarrow> decimal option \<Rightarrow> extracted_employee \<Rightarrow> extracted_employee" where
  "set_hours HoursRegular v e = e\<lparr>hours_regular := v\<rparr>"
| "set_hours HoursOvertime v e = e\<lparr>hours_overtime := v\<rparr>"
| "set_hours HoursVacation v e = e\<lparr>hours_vacation := v\<rparr>"
| "set_hours HoursSick v e = e\<lparr>hours_sick := v\<rparr>"
| "set_hours HoursHoliday v e = e\<lparr>hours_holiday := v\<rparr>"

definition extracted_employee_valid :: "extracted_employee \<Rightarrow> bool" where
  "extracted_employee_valid e \<longleftrightarrow>
     (\<forall>f \<in> set HOURS_FIELDS. opt_ge0 (get_hours e f)) \<and> opt_ge0 (contribution_401k_override e)
   \<and> (case contribution_401k_override e of None \<Rightarrow> True | Some d \<Rightarrow> dec_le d dec_one)"

record extracted =
  extracted_run_id :: uuid
  employees :: "extracted_employee list"
  pay_period_start :: "int option"
  pay_period_end :: "int option"

definition extracted_valid :: "extracted \<Rightarrow> bool" where
  "extracted_valid x \<longleftrightarrow> (\<forall>e \<in> set (employees x). extracted_employee_valid e)"

lemma HOURS_FIELDS_all [simp]: "set HOURS_FIELDS = UNIV"
proof -
  have "f \<in> set HOURS_FIELDS" for f by (cases f) (simp_all add: HOURS_FIELDS_def)
  then show ?thesis by blast
qed

lemma distinct_HOURS_FIELDS [simp]: "distinct HOURS_FIELDS"
  by (simp add: HOURS_FIELDS_def)

lemma field_name_inj [simp]: "field_name f = field_name g \<longleftrightarrow> f = g"
  by (cases f; cases g) simp_all

lemma get_set_hours [simp]: "get_hours (set_hours f v e) g = (if f = g then v else get_hours e g)"
  by (cases f; cases g) simp_all

lemma set_hours_frame [simp]:
  "submitted_name (set_hours f v e) = submitted_name e"
  "contribution_401k_override (set_hours f v e) = contribution_401k_override e"
  by (cases f; simp)+

lemma extracted_employee_eqI:
  assumes "submitted_name a = submitted_name b" "\<And>f. get_hours a f = get_hours b f"
    "contribution_401k_override a = contribution_401k_override b"
  shows "a = (b :: extracted_employee)"
  using assms(1,3) assms(2) [of HoursRegular] assms(2) [of HoursOvertime]
    assms(2) [of HoursVacation] assms(2) [of HoursSick] assms(2) [of HoursHoliday]
  by simp

subsection \<open>Cross-round records\<close>

record raw_field_drop =
  drop_name :: string
  drop_field :: hours_field
  drop_original :: decimal
  drop_resumed :: "decimal option"

record hours_change =
  change_name :: string
  change_field :: hours_field
  change_original :: decimal
  change_resumed :: decimal

datatype clarified_outcome = Asked | CarriedForward | ConfirmedDropped | ClientSupplied

subsection \<open>Validation issues and the decision\<close>

text \<open>
  The message of an issue is its template with the values it interpolates; \<open>field\<close> is the
  string the gate copies into its reasons.
\<close>

datatype issue_message =
    MsgRegression hours_field decimal "decimal option"
  | MsgNoHours string
  | MsgWeeklyOvertime string decimal
  | MsgBiweeklyOvertime string decimal

record validation_issue =
  issue_field :: string
  issue_kind :: issue_type
  issue_text :: issue_message

datatype final_action = Process | RequestClarification

record decision =
  final_action_of :: final_action
  gate_reasons :: "string list"
  unresolved_names :: "string list"
  missing_fields :: "string list"
  resolutions :: "name_match list"

subsection \<open>Paystub\<close>

record paystub =
  stub_id :: uuid
  stub_run_id :: uuid
  stub_employee_id :: "uuid option"
  stub_name :: string
  stub_hours_regular :: decimal
  stub_hours_overtime :: decimal
  stub_hours_vacation :: decimal
  stub_hours_sick :: decimal
  stub_hours_holiday :: decimal
  gross_pay :: decimal
  pretax_401k :: decimal
  fica_ss :: decimal
  fica_medicare :: decimal
  federal_withholding :: decimal
  state_withholding :: "decimal option"
  net_pay :: decimal
  created_at :: int
  additional_medicare_not_modeled :: bool

lemmas [model_defs] = employee_valid_def roster_valid_def name_match_valid_def
  extracted_employee_valid_def extracted_valid_def opt_ge0_def

lemma dval_dec_zero [simp]: "dval dec_zero = 0"
  by (simp add: dec_zero_def)

lemma dval_dec_one [simp]: "dval dec_one = 1"
  by (simp add: dec_one_def dval_def)

lemma roster_valid_unique:
  "roster_valid r \<Longrightarrow> e \<in> set (roster_employees r) \<Longrightarrow> e' \<in> set (roster_employees r) \<Longrightarrow>
   emp_id e = emp_id e' \<Longrightarrow> e = e'"
  by (auto simp: roster_valid_def distinct_map dest: inj_onD)

text \<open>A biweekly single employee and a two-person roster, the concrete inputs of the witnesses.\<close>

definition sample_employee :: employee where
  "sample_employee =
     \<lparr>emp_id = 1, emp_business = 7, full_name = ''Maria Chen'', known_aliases = [''M. Chen''],
      emp_pay_type = Hourly, hourly_rate = Some (Dec 2150 (-2)), annual_salary = None,
      retirement_contribution_pct = Dec 5 (-2), emp_filing_status = Single, step_2_checkbox = False,
      step_3_dependents = Dec 0 0, step_4a_other_income = Dec 0 0, step_4b_deductions = Dec 0 0,
      ytd_ss_wages = Dec 2500000 (-2), pay_periods_per_year = 26\<rparr>"

definition sample_roster :: roster where
  "sample_roster =
     \<lparr>roster_business = 7, roster_employees =
        [sample_employee,
         sample_employee\<lparr>emp_id := 2, full_name := ''David Reyes'', known_aliases := [''Dave''],
           pay_periods_per_year := 52\<rparr>]\<rparr>"

lemma sample_roster_valid: "roster_valid sample_roster"
  by (simp add: roster_valid_def sample_roster_def employee_valid_def sample_employee_def opt_ge0_def
      dec_le_def dec_zero_def dec_one_def at_exp_def)

end
