(* ===== verification/TaxTables.thy ===== *)
theory TaxTables
  imports Models
begin

section \<open>IRS Pub 15-T 2026 constants\<close>

text \<open>
  The tables of \<open>app/pipeline/tax_tables_2026.py\<close>, transcribed row by row: the percentage
  method brackets for the standard and the Step 2 schedules, the Worksheet 1A line 1g
  amounts and the FICA constants. A dictionary keyed by filing status is a function of it.
\<close>

record bracket_row =
  lower :: decimal
  upper :: "decimal option"
  base :: decimal
  rate :: decimal

definition row :: "int \<Rightarrow> int option \<Rightarrow> int \<Rightarrow> int \<Rightarrow> bracket_row" where
  "row lo up ba ra =
     \<lparr>lower = Dec lo 0, upper = map_option (\<lambda>u. Dec u 0) up, base = Dec ba (-2), rate = Dec ra (-2)\<rparr>"

definition MFJ_STANDARD :: "bracket_row list" where
  "MFJ_STANDARD =
     [row 0 (Some 19300) 0 0,
      row 19300 (Some 44100) 0 10,
      row 44100 (Some 120100) 248000 12,
      row 120100 (Some 230700) 1160000 22,
      row 230700 (Some 422850) 3593200 24,
      row 422850 (Some 531750) 8204800 32,
      row 531750 (Some 788000) 11689600 35,
      row 788000 None 20658350 37]"

definition SINGLE_STANDARD :: "bracket_row list" where
  "SINGLE_STANDARD =
     [row 0 (Some 7500) 0 0,
      row 7500 (Some 19900) 0 10,
      row 19900 (Some 57900) 124000 12,
      row 57900 (Some 113200) 580000 22,
      row 113200 (Some 209275) 1796600 24,
      row 209275 (Some 263725) 4102400 32,
      row 263725 (Some 648100) 5844800 35,
      row 648100 None 19297925 37]"

definition HOH_STANDARD :: "bracket_row list" where
  "HOH_STANDARD =
     [row 0 (Some 15550) 0 0,
      row 15550 (Some 33250) 0 10,
      row 33250 (Some 83000) 177000 12,
      row 83000 (Some 121250) 774000 22,
      row 121250 (Some 217300) 1615500 24,
      row 217300 (Some 271750) 3920700 32,
      row 271750 (Some 656150) 5663100 35,
      row 656150 None 19117100 37]"

fun STANDARD_BRACKETS :: "filing_status \<Rightarrow> bracket_row list" where
  "STANDARD_BRACKETS MarriedJointly = MFJ_STANDARD"
| "STANDARD_BRACKETS Single = SINGLE_STANDARD"
| "STANDARD_BRACKETS MarriedSeparately = SINGLE_STANDARD"
| "STANDARD_BRACKETS HeadOfHousehold = HOH_STANDARD"

definition MFJ_STEP2 :: "bracket_row list" where
  "MFJ_STEP2 =
     [row 0 (Some 16100) 0 0,
      row 16100 (Some 28500) 0 10,
      row 28500 (Some 66500) 124000 12,
      row 66500 (Some 121800) 580000 22,
      row 121800 (Some 217875) 1796600 24,
      row 217875 (Some 272325) 4102400 32,
      row 272325 (Some 400450) 5844800 35,
      row 400450 None 10329175 37]"

definition SINGLE_STEP2 :: "bracket_row list" where
  "SINGLE_STEP2 =
     [row 0 (Some 8050) 0 0,
      row 8050 (Some 14250) 0 10,
      row 14250 (Some 33250) 62000 12,
      row 33250 (Some 60900) 290000 22,
      row 60900 (Some 108938) 898300 24,
      row 108938 (Some 136163) 2051200 32,
      row 136163 (Some 328350) 2922400 35,
      row 328350 None 9648963 37]"

definition HOH_STEP2 :: "bracket_row list" where
  "HOH_STEP2 =
     [row 0 (Some 12075) 0 0,
      row 12075 (Some 20925) 0 10,
      row 20925 (Some 45800) 88500 12,
      row 45800 (Some 64925) 387000 22,
      row 64925 (Some 112950) 807750 24,
      row 112950 (Some 140175) 1960350 32,
      row 140175 (Some 332375) 2831550 35,
      row 332375 None 9558550 37]"

fun STEP2_BRACKETS :: "filing_status \<Rightarrow> bracket_row list" where
  "STEP2_BRACKETS MarriedJointly = MFJ_STEP2"
| "STEP2_BRACKETS Single = SINGLE_STEP2"
| "STEP2_BRACKETS MarriedSeparately = SINGLE_STEP2"
| "STEP2_BRACKETS HeadOfHousehold = HOH_STEP2"

fun STEP1_STANDARD :: "filing_status \<Rightarrow> decimal" where
  "STEP1_STANDARD MarriedJointly = Dec 12900 0"
| "STEP1_STANDARD Single = Dec 8600 0"
| "STEP1_STANDARD MarriedSeparately = Dec 8600 0"
| "STEP1_STANDARD HeadOfHousehold = Dec 8600 0"

definition SS_RATE :: decimal where
  "SS_RATE = Dec 62 (-3)"

definition SS_WAGE_BASE :: decimal where
  "SS_WAGE_BASE = Dec 184500 0"

definition MEDICARE_RATE :: decimal where
  "MEDICARE_RATE = Dec 145 (-4)"

lemmas table_defs = MFJ_STANDARD_def SINGLE_STANDARD_def HOH_STANDARD_def MFJ_STEP2_def
  SINGLE_STEP2_def HOH_STEP2_def row_def

end
