(* ===== verification/Withholding.thy ===== *)
theory Withholding
  imports TaxTables
begin

section \<open>Federal withholding (Pub 15-T Worksheet 1A)\<close>

text \<open>
  \<open>app/pipeline/federal_withholding.py\<close>: the bracket scan and the worksheet, line by line,
  each intermediate amount rounded to cents where the source rounds it.
\<close>

text \<open>\<open>_money\<close>, the local copy of this module and the one of \<open>calculate.py\<close>.\<close>

definition money :: "decimal \<Rightarrow> decimal res" where
  "money v = quantize_cents v"

definition find_bracket :: "decimal \<Rightarrow> bracket_row list \<Rightarrow> bracket_row" where
  "find_bracket annual_wage brackets =
     (case first_match (\<lambda>r. dec_le (lower r) annual_wage) (rev brackets) of
        Some r \<Rightarrow> r
      | None \<Rightarrow> hd brackets)"

definition SUPPORTED_FILING_STATUSES :: "filing_status list" where
  "SUPPORTED_FILING_STATUSES = [Single, MarriedJointly, MarriedSeparately]"

definition federal_withholding_2026 :: "decimal \<Rightarrow> employee \<Rightarrow> decimal res" where
  "federal_withholding_2026 wages emp =
     (if emp_filing_status emp \<notin> set SUPPORTED_FILING_STATUSES then Inl ValueError
      else
        let p = dec_of_int (int (pay_periods_per_year emp));
            status = emp_filing_status emp;
            checkbox = step_2_checkbox emp;
            line_1a = wages;
            line_1d = step_4a_other_income emp;
            line_1f = step_4b_deductions emp;
            line_1g = (if checkbox then dec_zero else STEP1_STANDARD status);
            brackets = (if checkbox then STEP2_BRACKETS status else STANDARD_BRACKETS status)
        in bind_res (money (dec_mul line_1a p)) (\<lambda>line_1c.
           bind_res (money (dec_add line_1c line_1d)) (\<lambda>line_1e.
           bind_res (money (dec_add line_1f line_1g)) (\<lambda>line_1h.
           bind_res (money (dec_sub line_1e line_1h)) (\<lambda>line_1e_h.
           let line_1i = dec_max dec_zero line_1e_h;
               r = find_bracket line_1i brackets
           in bind_res (money (dec_sub line_1i (lower r))) (\<lambda>line_2e.
              bind_res (money (dec_mul line_2e (rate r))) (\<lambda>line_2f.
              bind_res (money (dec_add (base r) line_2f)) (\<lambda>line_2g.
              bind_res (dec_div line_2g p) (\<lambda>q.
              bind_res (money q) (\<lambda>line_2h.
              bind_res (dec_div (step_3_dependents emp) p) (\<lambda>c.
              bind_res (money c) (\<lambda>line_3b.
              bind_res (money (dec_sub line_2h line_3b)) (\<lambda>line_3.
              let line_3c = dec_max dec_zero line_3
              in Inr line_3c)))))))))))))"

subsection \<open>The bracket scan\<close>

text \<open>What a percentage-method table has to satisfy for the scan to be right.\<close>

fun chained :: "bracket_row list \<Rightarrow> bool" where
  "chained [] = True"
| "chained [r] = (upper r = None)"
| "chained (r # s # rs) =
     (upper r = Some (lower s) \<and> dec_lt (lower r) (lower s) \<and> dec_le (rate r) (rate s)
      \<and> dec_le (base r) (base s) \<and> chained (s # rs))"

definition table_ok :: "bracket_row list \<Rightarrow> bool" where
  "table_ok rs \<longleftrightarrow> rs \<noteq> [] \<and> dec_eq (lower (hd rs)) dec_zero \<and> chained rs"

definition row_covers :: "bracket_row \<Rightarrow> decimal \<Rightarrow> bool" where
  "row_covers r w \<longleftrightarrow>
     dec_le (lower r) w \<and> (case upper r of None \<Rightarrow> True | Some u \<Rightarrow> dec_lt w u)"

lemma find_append: "List.find p (xs @ ys) = (case List.find p xs of Some x \<Rightarrow> Some x | None \<Rightarrow> List.find p ys)"
  by (induction xs) auto

lemma chained_lower_mono: "chained (r # rs) \<Longrightarrow> s \<in> set rs \<Longrightarrow> dval (lower r) < dval (lower s)"
proof (induction rs arbitrary: r)
  case Nil
  then show ?case by simp
next
  case (Cons t rs)
  then have "dval (lower r) < dval (lower t)" and "chained (t # rs)"
    by (simp_all add: dec_order)
  with Cons show ?case by (cases "s = t") force+
qed

lemma scan_covers:
  assumes "chained rs" "first_match (\<lambda>r. dec_le (lower r) w) (rev rs) = Some r"
  shows "r \<in> set rs \<and> row_covers r w"
  using assms
proof (induction rs arbitrary: r rule: chained.induct)
  case 1
  then show ?case by simp
next
  case (2 s)
  then show ?case by (auto simp: row_covers_def split: if_splits)
next
  case (3 s t rs)
  show ?case
  proof (cases "first_match (\<lambda>r. dec_le (lower r) w) (rev (t # rs))")
    case None
    then have "\<not> dec_le (lower t) w" by (simp add: first_match_None)
    moreover from None "3.prems"(2) have "r = s" and "dec_le (lower s) w"
      unfolding rev.simps(2) [of s] by (simp_all add: find_append split: if_splits option.splits)
    moreover from "3.prems"(1) have "upper s = Some (lower t)" by simp
    ultimately show ?thesis by (simp add: row_covers_def dec_lt_def)
  next
    case (Some u)
    with "3.IH" "3.prems"(1) have "u \<in> set (t # rs) \<and> row_covers u w" by simp
    moreover have "r = u"
      using Some "3.prems"(2) unfolding rev.simps(2) [of s]
      by (simp add: find_append split: option.splits if_splits)
    ultimately show ?thesis by simp
  qed
qed

lemma chained_covers_unique:
  "chained rs \<Longrightarrow> r \<in> set rs \<Longrightarrow> s \<in> set rs \<Longrightarrow> row_covers r w \<Longrightarrow> row_covers s w \<Longrightarrow> r = s"
proof (induction rs rule: chained.induct)
  case (3 a b rs)
  have sep: "x = a" if "x \<in> set (a # b # rs)" "row_covers a w" "row_covers x w" for x
  proof (rule ccontr)
    assume "x \<noteq> a"
    with that have x: "x \<in> set (b # rs)" by simp
    have "dval (lower b) \<le> dval (lower x)"
      using x chained_lower_mono [of b rs x] "3.prems"(1) by (cases "x = b") auto
    with that "3.prems"(1) show False by (simp add: row_covers_def dec_order)
  qed
  from sep [of r] sep [of s] 3 show ?case by (metis chained.simps(3) set_ConsD)
qed auto

lemma find_bracket_covers:
  assumes "table_ok rs" "0 \<le> coef w"
  shows "find_bracket w rs \<in> set rs \<and> row_covers (find_bracket w rs) w"
proof -
  obtain r rs' where rs: "rs = r # rs'" using assms(1) by (cases rs) (auto simp: table_ok_def)
  have "dec_le (lower r) w"
    using assms by (simp add: table_ok_def rs dec_order dval_nonneg_iff)
  then have "first_match (\<lambda>r. dec_le (lower r) w) (rev rs) \<noteq> None"
    by (simp add: first_match_None rs)
  then obtain s where s: "first_match (\<lambda>r. dec_le (lower r) w) (rev rs) = Some s" by blast
  with scan_covers [OF _ s] assms(1) show ?thesis by (simp add: find_bracket_def table_ok_def)
qed


subsection \<open>The shipped tables\<close>

lemma tables_chained:
  "chained MFJ_STANDARD" "chained SINGLE_STANDARD" "chained HOH_STANDARD"
  "chained MFJ_STEP2" "chained SINGLE_STEP2" "chained HOH_STEP2"
  by (simp_all add: table_defs dec_eval)

lemma tables_ok: "table_ok (STANDARD_BRACKETS s)" "table_ok (STEP2_BRACKETS s)"
  by (cases s; simp add: table_ok_def tables_chained; simp add: table_defs dec_eval dec_zero_def)+

definition row_small :: "bracket_row \<Rightarrow> bool" where
  "row_small r \<longleftrightarrow> 0 \<le> coef (lower r) \<and> mag_le (10 ^ 6) (lower r) \<and> 0 \<le> coef (base r)
     \<and> mag_le (10 ^ 6) (base r) \<and> 0 \<le> coef (rate r) \<and> mag_le 1 (rate r)"

lemma tables_small:
  "r \<in> set (STANDARD_BRACKETS s) \<union> set (STEP2_BRACKETS s) \<Longrightarrow> row_small r"
  by (cases s) (auto simp: table_defs row_small_def mag_le_def dval_def)

text \<open>
  The tax at the top of a bracket, computed with the bracket's own rate, against the base
  of the next row, in ten-thousandths of a dollar.
\<close>

fun row_gaps :: "bracket_row list \<Rightarrow> rat list" where
  "row_gaps (r # s # rs) =
     (dval (base s) - (dval (base r) + dval (rate r) * (dval (lower s) - dval (lower r)))) # row_gaps (s # rs)"
| "row_gaps _ = []"

lemma gaps_exact:
  "row_gaps MFJ_STANDARD = replicate 7 0" "row_gaps SINGLE_STANDARD = replicate 7 0"
  "row_gaps HOH_STANDARD = replicate 7 0" "row_gaps MFJ_STEP2 = replicate 7 0"
  "row_gaps HOH_STEP2 = replicate 7 0"
  by (simp_all add: table_defs dval_def numeral_eq_Suc)

lemma gaps_single_step2:
  "row_gaps SINGLE_STEP2 = [0, 0, 0, 0, - 12 / 100, 0, 18 / 100]"
  by (simp add: table_defs dval_def)


subsection \<open>The worksheet over exact numbers\<close>

text \<open>
  The specification: Worksheet 1A over rational numbers, rounding half-up to cents at the
  marginal tax, at the per-period tax and at the per-period credit, and nowhere else.
\<close>

definition rcents :: "rat \<Rightarrow> rat" where
  "rcents x = of_int (round_cents x) / 100"

definition tax_on :: "bracket_row \<Rightarrow> rat \<Rightarrow> rat" where
  "tax_on r a = dval (base r) + rcents (dval (rate r) * (a - dval (lower r)))"

fun annual_tax :: "bracket_row list \<Rightarrow> rat \<Rightarrow> rat" where
  "annual_tax [] a = 0"
| "annual_tax [r] a = tax_on r a"
| "annual_tax (r # s # rs) a = (if a < dval (lower s) then tax_on r a else annual_tax (s # rs) a)"

definition worksheet_1A ::
  "bracket_row list \<Rightarrow> rat \<Rightarrow> rat \<Rightarrow> rat \<Rightarrow> rat \<Rightarrow> rat \<Rightarrow> rat \<Rightarrow> rat" where
  "worksheet_1A rs p std w other ded credit =
     (let a = max 0 (w * p + other - (ded + std))
      in max 0 (rcents (annual_tax rs a / p) - rcents (credit / p)))"

definition schedule :: "employee \<Rightarrow> bracket_row list" where
  "schedule e = (if step_2_checkbox e then STEP2_BRACKETS (emp_filing_status e)
                 else STANDARD_BRACKETS (emp_filing_status e))"

definition std_amount :: "employee \<Rightarrow> decimal" where
  "std_amount e = (if step_2_checkbox e then dec_zero else STEP1_STANDARD (emp_filing_status e))"

lemma schedule_ok: "table_ok (schedule e)"
  by (simp add: schedule_def tables_ok)

lemma schedule_small: "r \<in> set (schedule e) \<Longrightarrow> row_small r"
  by (rule tables_small [of r "emp_filing_status e"]) (auto simp: schedule_def split: if_splits)

lemma annual_tax_covers:
  "chained rs \<Longrightarrow> r \<in> set rs \<Longrightarrow> row_covers r w \<Longrightarrow> annual_tax rs (dval w) = tax_on r (dval w)"
proof (induction rs rule: chained.induct)
  case 1
  then show ?case by simp
next
  case (2 s)
  then show ?case by simp
next
  case (3 s t rs)
  show ?case
  proof (cases "r = s")
    case True
    with "3.prems" show ?thesis by (simp add: row_covers_def dec_order)
  next
    case False
    with "3.prems" have r: "r \<in> set (t # rs)" by simp
    have "dval (lower t) \<le> dval (lower r)"
      using r chained_lower_mono [of t rs r] "3.prems"(1) by (cases "r = t") auto
    moreover have "dval (lower r) \<le> dval w" using "3.prems"(3) by (simp add: row_covers_def dec_order)
    ultimately have "\<not> dval w < dval (lower t)" by simp
    moreover have "annual_tax (t # rs) (dval w) = tax_on r (dval w)"
      using "3.prems" r by (intro "3.IH") simp_all
    ultimately show ?thesis by simp
  qed
qed

lemma rcents_mono: "x \<le> y \<Longrightarrow> rcents x \<le> rcents y"
  by (simp add: rcents_def round_cents_mono divide_right_mono)

lemma rcents_id [simp]: "rcents (of_int c / 100) = of_int c / 100"
  by (simp add: rcents_def)

lemma rcents_nonneg: "0 \<le> x \<Longrightarrow> 0 \<le> rcents x"
  using rcents_mono [of 0 x] rcents_id [of 0] by simp

lemma rcents_close: "\<bar>rcents x - x\<bar> \<le> 1 / 200"
  unfolding rcents_def by (rule round_cents_close)


subsection \<open>The code computes the worksheet\<close>

text \<open>
  Amounts of at most two decimals below a bound are multiples of a cent; on them \<open>_money\<close> is
  the identity up to the representation.
\<close>

definition amount :: "rat \<Rightarrow> decimal \<Rightarrow> bool" where
  "amount B d \<longleftrightarrow> - 2 \<le> dexp d \<and> 0 \<le> coef d \<and> mag_le B d"

lemma cents_of: "- 2 \<le> dexp d \<Longrightarrow> dval d = of_int (at_exp d (-2)) / 100"
  using dval_at_exp [of "-2" d] by simp

lemma money_cents: "dval d = of_int c / 100 \<Longrightarrow> \<bar>c\<bar> < 10 ^ 26 \<Longrightarrow> money d = Inr (Dec c (-2))"
proof -
  assume v: "dval d = of_int c / 100" and c: "\<bar>c\<bar> < 10 ^ 26"
  have "\<bar>of_int c\<bar> < (of_int (10 ^ 26) :: rat)" using c by (simp only: of_int_less_iff of_int_abs [symmetric])
  then have "\<bar>dval d\<bar> < 10 ^ 25" by (simp add: v)
  then show ?thesis by (simp add: money_def quantize_cents_Inr v)
qed

lemma dexp_dec_of_int [simp]: "dexp (dec_of_int n) = 0" and dval_dec_of_int [simp]: "dval (dec_of_int n) = of_int n"
  by (simp_all add: dec_of_int_def dval_def)

lemma div_money_cents:
  assumes "0 \<le> coef d" "dexp d = - 2 \<or> coef d = 0" "mag_le (10 ^ 12) d" "0 < p" "p \<le> 10 ^ 4"
  shows "bind_res (dec_div d (dec_of_int p)) money = Inr (Dec (round_cents (dval d / of_int p)) (-2))"
proof (cases "coef d = 0")
  case True
  then have "dval d = 0" by (cases d) simp
  with True assms(4) show ?thesis
    using round_cents_int [of 0] by (simp add: dec_div_def dec_of_int_def money_def quantize_cents_def)
next
  case False
  then obtain c where d: "d = Dec c (-2)" using assms(2) by (cases d) auto
  from assms(3) have "(of_int c :: rat) < of_int (10 ^ 20)" by (simp add: d mag_le_def dval_cents)
  then have "c < 10 ^ 20" by (simp only: of_int_less_iff)
  with assms quantize_div_cents [of c p] show ?thesis
    by (simp add: d dec_of_int_def dval_cents money_def [abs_def])
qed

lemma rcents_div_cents: "rcents x = of_int (round_cents x) / 100"
  by (simp add: rcents_def)


lemma int_rat_le: "\<bar>x\<bar> \<le> 10 ^ k \<Longrightarrow> \<bar>of_int x :: rat\<bar> \<le> 10 ^ k"
proof -
  assume "\<bar>x\<bar> \<le> 10 ^ k"
  then have "(of_int \<bar>x\<bar> :: rat) \<le> of_int (10 ^ k)" by (simp only: of_int_le_iff)
  then show ?thesis by simp
qed

lemma mag_cents: "dval a = of_int x / 100 \<Longrightarrow> \<bar>x\<bar> \<le> 10 ^ 22 \<Longrightarrow> mag_le (10 ^ 20) a"
  using int_rat_le [of x 22] by (simp add: mag_le_def)

lemma money_add_cents:
  assumes "dval a = of_int x / 100" "dval b = of_int y / 100" "- 2 \<le> dexp a" "- 2 \<le> dexp b"
    "\<bar>x\<bar> \<le> 10 ^ 22" "\<bar>y\<bar> \<le> 10 ^ 22"
  shows "money (dec_add a b) = Inr (Dec (x + y) (-2))" "money (dec_sub a b) = Inr (Dec (x - y) (-2))"
proof -
  have m: "mag_le (10 ^ 20) a" "mag_le (10 ^ 20) b" using mag_cents assms by blast+
  note v = dval_add_exact [OF _ _ m]
  show "money (dec_add a b) = Inr (Dec (x + y) (-2))"
    using v(1) assms by (intro money_cents) (simp_all add: add_divide_distrib)
  show "money (dec_sub a b) = Inr (Dec (x - y) (-2))"
    using v(2) assms by (intro money_cents) (simp_all add: diff_divide_distrib)
qed

lemma money_mul_round:
  assumes "- 7 \<le> dexp a + dexp b" "\<bar>dval a * dval b\<bar> \<le> 10 ^ 20"
  shows "money (dec_mul a b) = Inr (Dec (round_cents (dval a * dval b)) (-2))"
proof -
  have "\<bar>dval (dec_mul a b)\<bar> < 10 ^ 25" using dval_mul_exact_small [OF assms] assms(2) by simp
  then show ?thesis
    unfolding money_def by (simp add: quantize_cents_Inr dval_mul_exact_small [OF assms])
qed

lemma money_mul_int:
  assumes "dval a = of_int x / 100" "- 2 \<le> dexp a" "\<bar>x * n\<bar> \<le> 10 ^ 22"
  shows "money (dec_mul a (dec_of_int n)) = Inr (Dec (x * n) (-2))"
proof -
  have v: "dval a * dval (dec_of_int n) = of_int (x * n) / 100" using assms(1) by simp
  have "\<bar>dval a * dval (dec_of_int n)\<bar> \<le> 10 ^ 20" using int_rat_le [OF assms(3)] unfolding v by simp
  with assms(2) have "money (dec_mul a (dec_of_int n)) = Inr (Dec (round_cents (dval a * dval (dec_of_int n))) (-2))"
    by (intro money_mul_round) simp_all
  then show ?thesis unfolding v round_cents_int .
qed

lemma amount_cents:
  assumes "amount (10 ^ k) d"
  shows "dval d = of_int (at_exp d (-2)) / 100" "0 \<le> at_exp d (-2)" "at_exp d (-2) \<le> 10 ^ (k + 2)"
proof -
  show v: "dval d = of_int (at_exp d (-2)) / 100" using assms by (simp add: amount_def cents_of)
  show "0 \<le> at_exp d (-2)" using assms by (simp add: amount_def at_exp_def)
  have "\<bar>dval d\<bar> \<le> 10 ^ k" using assms by (simp add: amount_def mag_le_def)
  then have "of_int (at_exp d (-2)) \<le> (10::rat) ^ (k + 2)" by (simp add: v)
  then have "of_int (at_exp d (-2)) \<le> (of_int (10 ^ (k + 2)) :: rat)" by simp
  then show "at_exp d (-2) \<le> 10 ^ (k + 2)" by (simp only: of_int_le_iff)
qed

lemma std_amount_cents:
  "dval (std_amount e) = of_int (at_exp (std_amount e) (-2)) / 100" "dexp (std_amount e) = 0"
  "0 \<le> at_exp (std_amount e) (-2)" "at_exp (std_amount e) (-2) \<le> 10 ^ 7"
  by (cases "emp_filing_status e"; simp add: std_amount_def dec_zero_def dval_def at_exp_def)+

definition row_dollars :: "bracket_row \<Rightarrow> bool" where
  "row_dollars r \<longleftrightarrow> dexp (lower r) = 0 \<and> dexp (base r) = -2 \<and> dexp (rate r) = -2
     \<and> 0 \<le> coef (lower r) \<and> coef (lower r) \<le> 10 ^ 6 \<and> 0 \<le> coef (base r) \<and> coef (base r) \<le> 10 ^ 8
     \<and> 0 \<le> coef (rate r) \<and> coef (rate r) \<le> 100"

lemma schedule_dollars: "r \<in> set (schedule e) \<Longrightarrow> row_dollars r"
  by (cases "emp_filing_status e") (auto simp: schedule_def table_defs row_dollars_def split: if_splits)

text \<open>Lines 2e to 2g: the annual tentative amount.\<close>

lemma tentative_tax:
  assumes "r \<in> set (schedule e)" "row_covers r a" "dval a = of_int x / 100" "- 2 \<le> dexp a"
    "0 \<le> x" "x \<le> 10 ^ 19"
  shows "\<exists>g. bind_res (money (dec_sub a (lower r))) (\<lambda>e. bind_res (money (dec_mul e (rate r)))
      (\<lambda>f. money (dec_add (base r) f))) = Inr (Dec g (-2))
    \<and> of_int g / 100 = annual_tax (schedule e) (dval a) \<and> 0 \<le> g \<and> g < 10 ^ 20"
proof -
  have d: "row_dollars r" using assms(1) by (rule schedule_dollars)
  let ?lo = "coef (lower r) * 100"
  have lo: "dval (lower r) = of_int ?lo / 100" using d by (simp add: row_dollars_def dval_def)
  have ge: "?lo \<le> x"
  proof -
    have "(of_int ?lo :: rat) \<le> of_int x"
      using assms(2) unfolding row_covers_def dec_order lo assms(3) by simp
    then show ?thesis by (simp only: of_int_le_iff)
  qed
  have e: "money (dec_sub a (lower r)) = Inr (Dec (x - ?lo) (-2))"
    using assms d by (intro money_add_cents lo) (auto simp: row_dollars_def)
  let ?m = "dval (Dec (x - ?lo) (-2)) * dval (rate r)"
  have rt: "0 \<le> dval (rate r)" "dval (rate r) \<le> 1"
    using d by (simp_all add: row_dollars_def dval_def)
  have ex: "0 \<le> dval (Dec (x - ?lo) (-2))" "dval (Dec (x - ?lo) (-2)) \<le> 10 ^ 17"
  proof -
    show "0 \<le> dval (Dec (x - ?lo) (-2))" using ge by (simp add: dval_nonneg_iff)
    have "x - ?lo \<le> 10 ^ 19" using assms(6) d unfolding row_dollars_def by arith
    then have "(of_int (x - ?lo) :: rat) \<le> of_int (10 ^ 19)" by (simp only: of_int_le_iff)
    then show "dval (Dec (x - ?lo) (-2)) \<le> 10 ^ 17" by (simp add: dval_cents)
  qed
  have m: "0 \<le> ?m" "?m \<le> 10 ^ 17" 
    using ex rt mult_mono [of "dval (Dec (x - ?lo) (-2))" "10 ^ 17" "dval (rate r)" 1] by simp_all
  have f: "money (dec_mul (Dec (x - ?lo) (-2)) (rate r)) = Inr (Dec (round_cents ?m) (-2))"
    using d m by (intro money_mul_round) (auto simp: row_dollars_def)
  have rc: "0 \<le> round_cents ?m" "round_cents ?m \<le> 10 ^ 19"
    using round_cents_mono [OF m(1)] round_cents_mono [OF m(2)] round_cents_int [of 0]
      round_cents_int [of "10 ^ 19"] by simp_all
  have b: "dval (base r) = of_int (coef (base r)) / 100" using d by (cases "base r") (simp add: row_dollars_def dval_cents)
  have g: "money (dec_add (base r) (Dec (round_cents ?m) (-2))) = Inr (Dec (coef (base r) + round_cents ?m) (-2))"
    using d rc by (intro money_add_cents b) (auto simp: row_dollars_def dval_cents)
  have "annual_tax (schedule e) (dval a) = tax_on r (dval a)"
    using schedule_ok [of e] assms(1,2) by (intro annual_tax_covers) (auto simp: table_ok_def)
  moreover have "tax_on r (dval a) = of_int (coef (base r) + round_cents ?m) / 100"
  proof -
    have x: "dval (Dec (x - ?lo) (-2)) = dval a - dval (lower r)"
      by (simp add: dval_cents lo assms(3) diff_divide_distrib)
    show ?thesis unfolding x by (simp add: tax_on_def b rcents_def add_divide_distrib mult.commute)
  qed
  moreover have "0 \<le> coef (base r) + round_cents ?m" "coef (base r) + round_cents ?m < 10 ^ 20"
    using d rc by (auto simp: row_dollars_def)
  ultimately show ?thesis by (auto simp: e f g)
qed


text \<open>
  The range the refinement covers: amounts in dollars and cents below a trillion dollars,
  at most ten thousand pay periods. The real values are below ten million and in
  \<open>{12, 24, 26, 52}\<close>.
\<close>

definition withholding_inputs :: "decimal \<Rightarrow> employee \<Rightarrow> bool" where
  "withholding_inputs w e \<longleftrightarrow>
     amount (10 ^ 12) w \<and> amount (10 ^ 12) (step_4a_other_income e) \<and> amount (10 ^ 12) (step_4b_deductions e)
   \<and> amount (10 ^ 12) (step_3_dependents e)
   \<and> (dexp (step_3_dependents e) = -2 \<or> coef (step_3_dependents e) = 0)
   \<and> 0 < pay_periods_per_year e \<and> pay_periods_per_year e \<le> 10000"

text \<open>Lines 1a to 1i: the adjusted annual wage amount.\<close>

lemma adjusted_wage:
  assumes "withholding_inputs w e"
  shows "\<exists>x. bind_res (money (dec_mul w (dec_of_int (int (pay_periods_per_year e))))) (\<lambda>c.
      bind_res (money (dec_add c (step_4a_other_income e))) (\<lambda>t.
      bind_res (money (dec_add (step_4b_deductions e) (std_amount e))) (\<lambda>h.
      money (dec_sub t h)))) = Inr (Dec x (-2)) \<and> \<bar>x\<bar> \<le> 10 ^ 19
    \<and> of_int x / 100 = dval w * of_nat (pay_periods_per_year e) + dval (step_4a_other_income e)
        - (dval (step_4b_deductions e) + dval (std_amount e))"
proof -
  let ?p = "int (pay_periods_per_year e)"
  define cw co cd cs where "cw = at_exp w (-2)" and "co = at_exp (step_4a_other_income e) (-2)"
    and "cd = at_exp (step_4b_deductions e) (-2)" and "cs = at_exp (std_amount e) (-2)"
  from assms have am: "amount (10 ^ 12) w" "amount (10 ^ 12) (step_4a_other_income e)"
      "amount (10 ^ 12) (step_4b_deductions e)" and p: "0 < ?p" "?p \<le> 10 ^ 4"
    by (simp_all add: withholding_inputs_def)
  note w = amount_cents [OF am(1), folded cw_def] and o = amount_cents [OF am(2), folded co_def]
    and d = amount_cents [OF am(3), folded cd_def] and s = std_amount_cents [of e, folded cs_def]
  have ex: "- 2 \<le> dexp w" "- 2 \<le> dexp (step_4a_other_income e)" "- 2 \<le> dexp (step_4b_deductions e)"
    using am by (simp_all add: amount_def)
  have "cw * ?p \<le> 10 ^ (12 + 2) * 10 ^ 4" using w p by (intro mult_mono) simp_all
  then have wp: "0 \<le> cw * ?p" "cw * ?p \<le> 10 ^ 18" using w(2) p(1) by simp_all
  have 1: "money (dec_mul w (dec_of_int ?p)) = Inr (Dec (cw * ?p) (-2))"
    using wp ex by (intro money_mul_int w(1)) simp_all
  have 2: "money (dec_add (Dec (cw * ?p) (-2)) (step_4a_other_income e)) = Inr (Dec (cw * ?p + co) (-2))"
    using wp ex o by (intro money_add_cents o(1)) (simp_all add: dval_cents)
  have 3: "money (dec_add (step_4b_deductions e) (std_amount e)) = Inr (Dec (cd + cs) (-2))"
    using ex d s by (intro money_add_cents d(1) s(1)) simp_all
  have 4: "money (dec_sub (Dec (cw * ?p + co) (-2)) (Dec (cd + cs) (-2))) = Inr (Dec (cw * ?p + co - (cd + cs)) (-2))"
    using wp o d s by (intro money_add_cents) (simp_all add: dval_cents)
  have "\<bar>cw * ?p + co - (cd + cs)\<bar> \<le> 10 ^ 19" using wp o d s by simp
  then show ?thesis
    using w(1) o(1) d(1) s(1)
    by (auto simp: 1 2 3 4 add_divide_distrib diff_divide_distrib)
qed


lemma div_round_bound:
  assumes "0 \<le> v" "v \<le> 10 ^ k" "(1::rat) \<le> p"
  shows "0 \<le> round_cents (v / p)" "round_cents (v / p) \<le> 10 ^ (k + 2)"
proof -
  have v: "0 \<le> v / p" "v / p \<le> v" using assms mult_right_mono [of 1 p v] by (simp_all add: field_simps)
  show "0 \<le> round_cents (v / p)" using round_cents_mono [OF v(1)] round_cents_int [of 0] by simp
  have "v / p \<le> of_int (10 ^ (k + 2)) / 100" using v(2) assms(2) by simp
  from round_cents_mono [OF this] show "round_cents (v / p) \<le> 10 ^ (k + 2)" unfolding round_cents_int .
qed

text \<open>A non-negative amount of \<open>x\<close> cents, in whatever representation.\<close>

definition cents_rep :: "int \<Rightarrow> decimal \<Rightarrow> bool" where
  "cents_rep x d \<longleftrightarrow> dval d = of_int x / 100 \<and> - 2 \<le> dexp d"

lemma cents_rep_Dec [simp]: "cents_rep x (Dec x (-2))"
  by (simp add: cents_rep_def dval_cents)

lemma cents_rep_max0: "cents_rep (max 0 x) (dec_max dec_zero (Dec x (-2)))"
  by (simp add: cents_rep_def dec_max_def dec_zero_def dec_order dval_cents)

lemma federal_withholding_worksheet:
  assumes "withholding_inputs w e" "emp_filing_status e \<noteq> HeadOfHousehold"
  shows "returns (federal_withholding_2026 w e) (\<lambda>r. dval r =
     worksheet_1A (schedule e) (of_nat (pay_periods_per_year e)) (dval (std_amount e)) (dval w)
       (dval (step_4a_other_income e)) (dval (step_4b_deductions e)) (dval (step_3_dependents e))
     \<and> (\<exists>c. cents_rep c r \<and> 0 \<le> c \<and> c \<le> 10 ^ 20))"
proof -
  let ?p = "int (pay_periods_per_year e)" and ?P = "of_nat (pay_periods_per_year e) :: rat"
  have p: "0 < ?p" "?p \<le> 10 ^ 4" using assms(1) by (simp_all add: withholding_inputs_def)
  obtain l1c l1e l1h x where
    steps: "money (dec_mul w (dec_of_int ?p)) = Inr l1c"
      "money (dec_add l1c (step_4a_other_income e)) = Inr l1e"
      "money (dec_add (step_4b_deductions e) (std_amount e)) = Inr l1h"
      "money (dec_sub l1e l1h) = Inr (Dec x (-2))" and xb: "\<bar>x\<bar> \<le> 10 ^ 19" and
    x: "of_int x / 100 = dval w * ?P + dval (step_4a_other_income e)
        - (dval (step_4b_deductions e) + dval (std_amount e))"
    using adjusted_wage [OF assms(1)] by (auto simp: bind_res_Inr_iff)
  define a where "a = dec_max dec_zero (Dec x (-2))"
  define r where "r = find_bracket a (schedule e)"
  have av: "dval a = of_int (max 0 x) / 100" by (simp add: a_def dval_max dval_cents max_def)
  have ae: "- 2 \<le> dexp a" by (simp add: a_def dec_max_def dec_zero_def)
  have "0 \<le> coef a" unfolding dval_nonneg_iff [symmetric] av by simp
  then have r: "r \<in> set (schedule e)" "row_covers r a"
    using find_bracket_covers [OF schedule_ok, of a e] by (simp_all add: r_def)
  obtain l2e l2f g where
    tax: "money (dec_sub a (lower r)) = Inr l2e" "money (dec_mul l2e (rate r)) = Inr l2f"
      "money (dec_add (base r) l2f) = Inr (Dec g (-2))" and
    g: "of_int g / 100 = annual_tax (schedule e) (dval a)" "0 \<le> g" "g < 10 ^ 20"
    using tentative_tax [OF r av ae] xb unfolding bind_res_Inr_iff by force
  have "bind_res (dec_div (Dec g (-2)) (Dec ?p 0)) quantize_cents
      = Inr (Dec (round_cents (of_int g / (100 * of_int ?p))) (-2))"
    using g p by (intro quantize_div_cents)
  then obtain q where q: "dec_div (Dec g (-2)) (dec_of_int ?p) = Inr q"
      "money q = Inr (Dec (round_cents (of_int g / 100 / ?P)) (-2))"
    by (auto simp: bind_res_Inr_iff dec_of_int_def money_def)
  have "bind_res (dec_div (step_3_dependents e) (dec_of_int ?p)) money
      = Inr (Dec (round_cents (dval (step_3_dependents e) / of_int ?p)) (-2))"
    using assms(1) p by (intro div_money_cents) (auto simp: withholding_inputs_def amount_def)
  then obtain c where c: "dec_div (step_3_dependents e) (dec_of_int ?p) = Inr c"
      "money c = Inr (Dec (round_cents (dval (step_3_dependents e) / ?P)) (-2))"
    by (auto simp: bind_res_Inr_iff)
  have "0 \<le> dval (step_3_dependents e)" "dval (step_3_dependents e) \<le> 10 ^ 18"
    using assms(1) by (auto simp: withholding_inputs_def amount_def mag_le_def dval_nonneg_iff)
  note b3 = div_round_bound [OF this, of ?P]
  have "0 \<le> (of_int g / 100 :: rat)" "(of_int g :: rat) \<le> of_int (10 ^ 20)"
    using g(2,3) by (simp, simp only: of_int_le_iff)
  then have "(of_int g / 100 :: rat) \<le> 10 ^ 18" by simp
  note b2 = div_round_bound [OF \<open>0 \<le> (of_int g / 100 :: rat)\<close> this, of ?P]
  define x2 x3 where "x2 = round_cents (of_int g / 100 / ?P)" and
    "x3 = round_cents (dval (step_3_dependents e) / ?P)"
  have b: "0 \<le> x2" "x2 \<le> 10 ^ 20" "0 \<le> x3" "x3 \<le> 10 ^ 20" using b2 b3 p by (simp_all add: x2_def x3_def)
  have m: "money (dec_sub (Dec (round_cents (of_int g / 100 / ?P)) (-2))
        (Dec (round_cents (dval (step_3_dependents e) / ?P)) (-2)))
      = Inr (Dec (round_cents (of_int g / 100 / ?P) - round_cents (dval (step_3_dependents e) / ?P)) (-2))"
    using b by (intro money_add_cents) (simp_all add: dval_cents x2_def x3_def)
  have "federal_withholding_2026 w e = Inr (dec_max dec_zero
      (Dec (round_cents (of_int g / 100 / ?P) - round_cents (dval (step_3_dependents e) / ?P)) (-2)))"
    using assms(2) steps tax q c m
    by (cases "emp_filing_status e"; cases "step_2_checkbox e")
      (simp_all add: federal_withholding_2026_def SUPPORTED_FILING_STATUSES_def Let_def a_def r_def
        schedule_def std_amount_def)
  then have eq: "federal_withholding_2026 w e = Inr (dec_max dec_zero (Dec (x2 - x3) (-2)))"
    by (simp add: x2_def x3_def)
  have v: "dval (dec_max dec_zero (Dec (x2 - x3) (-2))) =
     worksheet_1A (schedule e) ?P (dval (std_amount e)) (dval w)
       (dval (step_4a_other_income e)) (dval (step_4b_deductions e)) (dval (step_3_dependents e))"
    by (simp add: worksheet_1A_def Let_def dval_max dval_cents g(1) av x [symmetric] rcents_def
        diff_divide_distrib max_def x2_def x3_def)
  show ?thesis
    using eq by (rule returns_InrI) (use v b cents_rep_max0 [of "x2 - x3"] in \<open>auto intro!: exI [of _ "max 0 (x2 - x3)"]\<close>)
qed

subsection \<open>Monotonicity\<close>

text \<open>
  Where each base equals the tax accumulated up to its bracket, earning more never lowers
  the annual tax.
\<close>

definition cents_row :: "bracket_row \<Rightarrow> bool" where
  "cents_row r \<longleftrightarrow> dexp (base r) = -2 \<and> 0 \<le> coef (rate r)"

lemma tax_on_mono:
  assumes "cents_row r" "a \<le> b" shows "tax_on r a \<le> tax_on r b"
  using assms by (auto simp: tax_on_def cents_row_def dval_nonneg_iff intro!: rcents_mono mult_left_mono)

lemma tax_on_base: "cents_row r \<Longrightarrow> dval (lower r) \<le> a \<Longrightarrow> dval (base r) \<le> tax_on r a"
  by (simp add: tax_on_def cents_row_def dval_nonneg_iff rcents_nonneg)

lemma annual_tax_base:
  "chained (r # rs) \<Longrightarrow> \<forall>q \<in> set (r # rs). cents_row q \<Longrightarrow> dval (lower r) \<le> a \<Longrightarrow>
   dval (base r) \<le> annual_tax (r # rs) a"
proof (induction rs arbitrary: r)
  case Nil
  then show ?case by (simp add: tax_on_base)
next
  case (Cons s rs)
  show ?case
  proof (cases "a < dval (lower s)")
    case True
    with Cons.prems show ?thesis by (simp add: tax_on_base)
  next
    case False
    then have "dval (base s) \<le> annual_tax (s # rs) a" using Cons.prems by (intro Cons.IH) simp_all
    with False Cons.prems(1) show ?thesis by (simp add: dec_order)
  qed
qed

lemma tax_on_top:
  assumes "cents_row r" "cents_row s"
    "dval (base s) = dval (base r) + dval (rate r) * (dval (lower s) - dval (lower r))"
  shows "tax_on r (dval (lower s)) = dval (base s)"
proof -
  have "dval (base s) - dval (base r) = of_int (coef (base s) - coef (base r)) / 100"
    using assms(1,2) by (cases "base r"; cases "base s") (simp add: cents_row_def dval_cents diff_divide_distrib)
  then have "dval (rate r) * (dval (lower s) - dval (lower r)) = of_int (coef (base s) - coef (base r)) / 100"
    using assms(3) by simp
  then have "rcents (dval (rate r) * (dval (lower s) - dval (lower r)))
      = dval (rate r) * (dval (lower s) - dval (lower r))" by (simp only: rcents_id)
  with assms(3) show ?thesis by (simp only: tax_on_def)
qed

lemma annual_tax_mono:
  "chained rs \<Longrightarrow> \<forall>q \<in> set rs. cents_row q \<Longrightarrow> (\<forall>g \<in> set (row_gaps rs). g = 0) \<Longrightarrow>
   a \<le> b \<Longrightarrow> annual_tax rs a \<le> annual_tax rs b"
proof (induction rs rule: chained.induct)
  case 1
  then show ?case by simp
next
  case (2 r)
  then show ?case by (simp add: tax_on_mono)
next
  case (3 r s rs)
  have IH: "annual_tax (s # rs) a \<le> annual_tax (s # rs) b" using "3.prems" by (intro "3.IH") simp_all
  have r: "cents_row r" "cents_row s" using "3.prems" by simp_all
  have top: "tax_on r (dval (lower s)) = dval (base s)"
    using "3.prems"(3) by (intro tax_on_top r) simp
  consider "b < dval (lower s)" | "a < dval (lower s)" "dval (lower s) \<le> b" | "dval (lower s) \<le> a" by linarith
  then show ?case
  proof cases
    case 1
    with "3.prems" r show ?thesis by (simp add: tax_on_mono)
  next
    case 2
    have "tax_on r a \<le> dval (base s)" using tax_on_mono [OF r(1), of a "dval (lower s)"] 2 top by simp
    also have "\<dots> \<le> annual_tax (s # rs) b" using "3.prems" 2 by (intro annual_tax_base) simp_all
    finally show ?thesis using 2 by simp
  next
    case 3
    with "3.prems"(4) IH show ?thesis by simp
  qed
qed

lemma schedule_cents: "q \<in> set (schedule e) \<Longrightarrow> cents_row q"
  using schedule_dollars [of q e] by (simp add: row_dollars_def cents_row_def)

lemma schedule_gaps:
  assumes "step_2_checkbox e \<longrightarrow> emp_filing_status e = MarriedJointly"
  shows "\<forall>g \<in> set (row_gaps (schedule e)). g = 0"
  using assms by (cases "emp_filing_status e") (auto simp: schedule_def gaps_exact)

lemma worksheet_1A_mono:
  assumes "\<And>a b. a \<le> b \<Longrightarrow> annual_tax rs a \<le> annual_tax rs b" "v \<le> w" "0 < p"
  shows "worksheet_1A rs p std v other ded credit \<le> worksheet_1A rs p std w other ded credit"
proof -
  have "v * p \<le> w * p" using assms(2,3) by (simp add: mult_right_mono)
  then have "max 0 (v * p + other - (ded + std)) \<le> max 0 (w * p + other - (ded + std))" by simp
  then have "annual_tax rs (max 0 (v * p + other - (ded + std))) / p
      \<le> annual_tax rs (max 0 (w * p + other - (ded + std))) / p"
    using assms(1,3) by (simp add: divide_right_mono)
  from rcents_mono [OF this] show ?thesis
    unfolding worksheet_1A_def Let_def by (intro max.mono order_refl diff_right_mono)
qed


subsection \<open>Properties\<close>

text \<open>The sample employee satisfies the hypotheses.\<close>

lemma sample_employee_inputs:
  "withholding_inputs (Dec 163400 (-2)) sample_employee" "withholding_inputs (Dec 163500 (-2)) sample_employee"
  by (simp_all add: withholding_inputs_def sample_employee_def amount_def mag_le_def dval_def)

text \<open>C2. On dollar-and-cent inputs the code returns, and returns exactly Worksheet 1A: the
  annualised wage plus 4(a) less 4(b) and line 1g, floored at zero, taxed on the schedule of
  the filing status with the marginal tax rounded half-up to cents, divided by the pay
  periods and rounded once, less the rounded per-period credit, floored at zero. The
  finite-precision Decimal arithmetic loses nothing.\<close>

theorem withholding_is_worksheet_1A:
  assumes "withholding_inputs w e" "emp_filing_status e \<noteq> HeadOfHousehold"
  shows "\<exists>r. federal_withholding_2026 w e = Inr r \<and> dval r =
     worksheet_1A (schedule e) (of_nat (pay_periods_per_year e)) (dval (std_amount e)) (dval w)
       (dval (step_4a_other_income e)) (dval (step_4b_deductions e)) (dval (step_3_dependents e))"
  using federal_withholding_worksheet [OF assms] by (auto simp: returns_def)

theorem withholding_is_worksheet_1A_witness:
  "\<exists>r. federal_withholding_2026 (Dec 163400 (-2)) sample_employee = Inr r \<and> dval r =
     worksheet_1A SINGLE_STANDARD 26 8600 1634 0 0 0"
  using withholding_is_worksheet_1A [of "Dec 163400 (-2)" sample_employee] sample_employee_inputs(1)
  by (simp add: sample_employee_def schedule_def std_amount_def dval_def)

text \<open>The reverse scan picks the one bracket whose half-open range holds the wage, for
  every shipped table and every non-negative wage: the fallback row is never used by
  accident and no wage falls between two rows.\<close>

theorem bracket_scan_exact:
  assumes "0 \<le> coef w" "rs \<in> {STANDARD_BRACKETS s, STEP2_BRACKETS s}"
  shows "find_bracket w rs \<in> set rs \<and> (\<forall>r \<in> set rs. row_covers r w \<longleftrightarrow> r = find_bracket w rs)"
proof -
  have ok: "table_ok rs" using assms(2) tables_ok by auto
  note f = find_bracket_covers [OF ok assms(1)]
  moreover have "chained rs" using ok by (simp add: table_ok_def)
  ultimately show ?thesis using chained_covers_unique [of rs] by blast
qed

theorem bracket_scan_exact_witness:
  "find_bracket (Dec 3300000 (-2)) MFJ_STANDARD \<in> set MFJ_STANDARD
   \<and> row_covers (find_bracket (Dec 3300000 (-2)) MFJ_STANDARD) (Dec 3300000 (-2))"
  using bracket_scan_exact [of "Dec 3300000 (-2)" MFJ_STANDARD MarriedJointly] by simp

text \<open>C31. Earning more never lowers the withholding, for every employee on a schedule whose
  bases are the accumulated taxes (every standard schedule and the joint Step 2 one).\<close>

theorem withholding_monotone:
  assumes "withholding_inputs v e" "withholding_inputs w e" "dec_le v w"
    "emp_filing_status e \<noteq> HeadOfHousehold" "step_2_checkbox e \<longrightarrow> emp_filing_status e = MarriedJointly"
  shows "\<exists>q r. federal_withholding_2026 v e = Inr q \<and> federal_withholding_2026 w e = Inr r \<and> dec_le q r"
proof -
  have "annual_tax (schedule e) a \<le> annual_tax (schedule e) b" if "a \<le> b" for a b
    using schedule_ok [of e] schedule_cents schedule_gaps [OF assms(5)] that
    by (intro annual_tax_mono) (auto simp: table_ok_def)
  from worksheet_1A_mono [of "schedule e" "dval v" "dval w", OF this]
    federal_withholding_worksheet [OF assms(1,4)] federal_withholding_worksheet [OF assms(2,4)] assms(1,3)
  show ?thesis unfolding returns_def dec_order by (force simp: withholding_inputs_def dec_order)
qed

theorem withholding_monotone_witness:
  "\<exists>q r. federal_withholding_2026 (Dec 163400 (-2)) sample_employee = Inr q
     \<and> federal_withholding_2026 (Dec 163500 (-2)) sample_employee = Inr r \<and> dec_le q r"
  using withholding_monotone [OF sample_employee_inputs]
  by (simp add: sample_employee_def dec_eval)

text \<open>
  The bases the IRS prints for the single Step 2 schedule are themselves rounded
  (\<open>gaps_single_step2\<close>): at $108,938 the base is 12 cents below the accumulated tax. A monthly
  employee just below and just above that line shows the effect, one cent.
\<close>

lemma withholding_single_step2_dip:
  "federal_withholding_2026 (Dec 907816 (-2))
     (sample_employee\<lparr>step_2_checkbox := True, pay_periods_per_year := 12\<rparr>) = Inr (Dec 170934 (-2))"
  "federal_withholding_2026 (Dec 907817 (-2))
     (sample_employee\<lparr>step_2_checkbox := True, pay_periods_per_year := 12\<rparr>) = Inr (Dec 170933 (-2))"
  by code_simp+

end
