(* ===== verification/Calculate.thy ===== *)
theory Calculate
  imports Withholding
begin

section \<open>Payroll calculation\<close>

text \<open>
  \<open>app/pipeline/calculate.py\<close>: coercion of the hours dictionary, gross pay of the hourly and
  the salaried branch, 401k, FICA, federal withholding, net pay and the reconciliation
  backstop. The two random identifiers and the clock of the returned paystub are arguments.
\<close>

subsection \<open>Coercing hours\<close>

datatype hours_value =
    HNone
  | HBool bool
  | HFloat
  | HInt int
  | HStr string
  | HDec decimal

definition is_digit :: "char \<Rightarrow> bool" where
  "is_digit c \<longleftrightarrow> (48::nat) \<le> of_char c \<and> of_char c \<le> (57::nat)"

definition digits_value :: "string \<Rightarrow> int" where
  "digits_value ds = foldl (\<lambda>n c. 10 * n + (of_char c - 48)) 0 ds"

definition take_sign :: "string \<Rightarrow> int \<times> string" where
  "take_sign s =
     (case s of
        c # r \<Rightarrow> if c = CHR ''-'' then (-1, r) else if c = CHR ''+'' then (1, r) else (1, s)
      | [] \<Rightarrow> (1, s))"

text \<open>
  \<open>Decimal(s)\<close> on the numeric spellings; \<open>None\<close> is \<open>InvalidOperation\<close>. The spellings of
  infinity and NaN, which the constructor also knows, are outside the model: the callers
  pass numbers read from the extraction model, which rejects both.
\<close>

definition decimal_parse :: "string \<Rightarrow> decimal option" where
  "decimal_parse s =
     (let t = filter (\<lambda>c. c \<noteq> CHR ''_'') (rev (dropWhile py_space (rev (dropWhile py_space s))));
          (sg, u) = take_sign t;
          ip = takeWhile is_digit u;
          r = dropWhile is_digit u;
          (fp, r') = (case r of c # q \<Rightarrow> if c = CHR ''.'' then (takeWhile is_digit q, dropWhile is_digit q)
                                else ([], r) | [] \<Rightarrow> ([], r));
          n = sg * digits_value (ip @ fp); e = - int (length fp)
      in if ip = [] \<and> fp = [] then None
         else (case r' of
                 [] \<Rightarrow> Some (Dec n e)
               | c # q \<Rightarrow>
                   if c \<notin> {CHR ''e'', CHR ''E''} then None
                   else let (sx, ds) = take_sign q
                        in if ds \<noteq> [] \<and> list_all is_digit ds then Some (Dec n (e + sx * digits_value ds))
                           else None))"

definition to_decimal :: "hours_value \<Rightarrow> decimal res" where
  "to_decimal v =
     (let check = (\<lambda>d. if dec_lt d dec_zero then Inl ValueError else Inr d)
      in case v of
           HNone \<Rightarrow> Inr dec_zero
         | HBool b \<Rightarrow> Inl TypeError
         | HFloat \<Rightarrow> Inl TypeError
         | HStr s \<Rightarrow>
             if s = [] then Inr dec_zero
             else (case decimal_parse s of None \<Rightarrow> Inl ValueError | Some d \<Rightarrow> check d)
         | HInt n \<Rightarrow> check (dec_of_int n)
         | HDec d \<Rightarrow> check d)"

definition resolved_hours :: "(string, hours_value) dict \<Rightarrow> (hours_field, decimal) dict res" where
  "resolved_hours raw =
     (if list_all (\<lambda>kv. fst kv \<in> field_name ` set HOURS_FIELDS) raw
      then map_res (\<lambda>f. bind_res (to_decimal (case map_of raw (field_name f) of None \<Rightarrow> HNone | Some v \<Rightarrow> v))
                      (\<lambda>d. Inr (f, d))) HOURS_FIELDS
      else Inl ValueError)"

definition hours_at :: "(hours_field, decimal) dict \<Rightarrow> hours_field \<Rightarrow> decimal" where
  "hours_at h f = (case map_of h f of Some d \<Rightarrow> d | None \<Rightarrow> dec_zero)"

subsection \<open>Gross, deductions, net\<close>

fun ADDITIONAL_MEDICARE_THRESHOLDS :: "filing_status \<Rightarrow> decimal res" where
  "ADDITIONAL_MEDICARE_THRESHOLDS Single = Inr (Dec 200000 0)"
| "ADDITIONAL_MEDICARE_THRESHOLDS MarriedJointly = Inr (Dec 250000 0)"
| "ADDITIONAL_MEDICARE_THRESHOLDS MarriedSeparately = Inr (Dec 125000 0)"
| "ADDITIONAL_MEDICARE_THRESHOLDS HeadOfHousehold = Inl KeyError"

definition raise_if_reconciliation_drift ::
  "decimal \<Rightarrow> decimal \<Rightarrow> decimal \<Rightarrow> decimal \<Rightarrow> decimal \<Rightarrow> decimal \<Rightarrow> unit res" where
  "raise_if_reconciliation_drift gross pretax ss medicare federal net =
     (let state_wh = dec_zero
      in bind_res (money (dec_add (dec_add (dec_add (dec_add (dec_add net pretax) ss) medicare) federal) state_wh))
           (\<lambda>reconstructed. if dec_eq reconstructed gross then Inr () else Inl PayrollCalculationError))"

text \<open>\<open>x or Decimal("0")\<close>: a missing or zero amount becomes \<open>Decimal("0")\<close>.\<close>

definition or_zero :: "decimal option \<Rightarrow> decimal" where
  "or_zero v = (case v of None \<Rightarrow> dec_zero | Some d \<Rightarrow> if coef d = 0 then dec_zero else d)"

definition hourly_gross :: "(hours_field, decimal) dict \<Rightarrow> employee \<Rightarrow> decimal res" where
  "hourly_gross hours emp =
     (let rt = or_zero (hourly_rate emp);
          straight = dec_add (dec_add (dec_add (hours_at hours HoursRegular) (hours_at hours HoursVacation))
                       (hours_at hours HoursSick)) (hours_at hours HoursHoliday)
      in money (dec_add (dec_mul rt straight)
                  (dec_mul (dec_mul rt (Dec 15 (-1))) (hours_at hours HoursOvertime))))"

definition salary_gross :: "(hours_field, decimal) dict \<Rightarrow> employee \<Rightarrow> decimal res" where
  "salary_gross hours emp =
     (let annual = or_zero (annual_salary emp); p = dec_of_int (int (pay_periods_per_year emp))
      in bind_res (dec_div annual p) (\<lambda>q.
         bind_res (money q) (\<lambda>period_salary.
         let leave_hours = dec_add (dec_add (hours_at hours HoursVacation) (hours_at hours HoursSick))
                             (hours_at hours HoursHoliday)
         in bind_res (dec_div annual (Dec 2080 0)) (\<lambda>implied_hourly.
            bind_res (money (dec_mul implied_hourly leave_hours)) (\<lambda>leave_pay.
            money (dec_add period_salary leave_pay))))))"

definition calculate ::
  "uuid \<Rightarrow> uuid \<Rightarrow> int \<Rightarrow> (string, hours_value) dict \<Rightarrow> employee \<Rightarrow> decimal option \<Rightarrow> paystub res" where
  "calculate new_id new_run now raw emp override =
     bind_res (resolved_hours raw) (\<lambda>hours.
     bind_res (case emp_pay_type emp of Hourly \<Rightarrow> hourly_gross hours emp | Salary \<Rightarrow> salary_gross hours emp) (\<lambda>gross.
     let rate_401k = (case override of Some r \<Rightarrow> r | None \<Rightarrow> retirement_contribution_pct emp)
     in bind_res (money (dec_mul gross rate_401k)) (\<lambda>pretax.
        let cap = dec_sub SS_WAGE_BASE (ytd_ss_wages emp);
            remaining_cap = (if dec_lt cap dec_zero then dec_zero else cap);
            ss_taxable = dec_min gross remaining_cap
        in bind_res (money (dec_mul ss_taxable SS_RATE)) (\<lambda>ss.
           bind_res (money (dec_mul gross MEDICARE_RATE)) (\<lambda>medicare.
           bind_res (money (dec_sub gross pretax)) (\<lambda>federal_taxable.
           bind_res (federal_withholding_2026 federal_taxable emp) (\<lambda>federal.
           bind_res (money (dec_sub (dec_sub (dec_sub (dec_sub gross pretax) ss) medicare) federal)) (\<lambda>net.
           bind_res (ADDITIONAL_MEDICARE_THRESHOLDS (emp_filing_status emp)) (\<lambda>threshold.
           let flag = dec_lt threshold (dec_add (ytd_ss_wages emp) gross)
           in bind_res (raise_if_reconciliation_drift gross pretax ss medicare federal net) (\<lambda>u.
              Inr \<lparr>stub_id = new_id, stub_run_id = new_run, stub_employee_id = Some (emp_id emp),
                   stub_name = full_name emp,
                   stub_hours_regular = hours_at hours HoursRegular,
                   stub_hours_overtime = hours_at hours HoursOvertime,
                   stub_hours_vacation = hours_at hours HoursVacation,
                   stub_hours_sick = hours_at hours HoursSick,
                   stub_hours_holiday = hours_at hours HoursHoliday,
                   gross_pay = gross, pretax_401k = pretax, fica_ss = ss, fica_medicare = medicare,
                   federal_withholding = federal, state_withholding = None, net_pay = net,
                   created_at = now, additional_medicare_not_modeled = flag\<rparr>))))))))))"

subsection \<open>From gross to net, exactly\<close>

lemma cents_rep_ops:
  assumes "cents_rep x a" "cents_rep y b" "\<bar>x\<bar> \<le> 10 ^ 22" "\<bar>y\<bar> \<le> 10 ^ 22"
  shows "cents_rep (x + y) (dec_add a b)" "cents_rep (x - y) (dec_sub a b)"
proof -
  have m: "mag_le (10 ^ 20) a" "mag_le (10 ^ 20) b" using assms mag_cents by (auto simp: cents_rep_def)
  note v = dval_add_exact [OF _ _ m]
  show "cents_rep (x + y) (dec_add a b)" "cents_rep (x - y) (dec_sub a b)"
    using v assms(1,2) dexp_dec_add [of a b] dexp_dec_sub [of a b]
    by (auto simp: cents_rep_def add_divide_distrib diff_divide_distrib)
qed

lemma cents_rep_money: "cents_rep x a \<Longrightarrow> \<bar>x\<bar> \<le> 10 ^ 23 \<Longrightarrow> money a = Inr (Dec x (-2))"
  by (rule money_cents) (simp_all add: cents_rep_def)

lemma cents_rep_zero: "cents_rep 0 dec_zero"
  by (simp add: cents_rep_def dec_zero_def)

lemma cents_rep_le: "cents_rep x a \<Longrightarrow> cents_rep y b \<Longrightarrow> dec_le a b \<longleftrightarrow> x \<le> y"
proof -
  assume "cents_rep x a" "cents_rep y b"
  then have v: "dval a = of_int x / 100" "dval b = of_int y / 100" by (simp_all add: cents_rep_def)
  show ?thesis unfolding dec_order v by simp
qed

lemma cents_rep_min: "cents_rep x a \<Longrightarrow> cents_rep y b \<Longrightarrow> cents_rep (min x y) (dec_min a b)"
  by (auto simp: dec_min_def dec_lt_def cents_rep_le min_def)

lemma cents_rep_floor0: "cents_rep x a \<Longrightarrow> cents_rep (max 0 x) (if dec_lt a dec_zero then dec_zero else a)"
  using cents_rep_zero by (auto simp: dec_lt_def cents_rep_le max_def)

lemma cents_rep_amount: "amount (10 ^ k) d \<Longrightarrow> cents_rep (at_exp d (-2)) d"
  using amount_cents by (simp add: cents_rep_def amount_def)

text \<open>A cents amount times a rate between zero and one.\<close>

lemma money_rate:
  assumes "cents_rep x a" "0 \<le> x" "x \<le> 10 ^ 20" "- 5 \<le> dexp r" "0 \<le> dval r" "dval r \<le> 1"
  shows "\<exists>c. money (dec_mul a r) = Inr (Dec c (-2)) \<and> of_int c / 100 = rcents (of_int x / 100 * dval r)
    \<and> 0 \<le> c \<and> c \<le> x"
proof -
  have a: "dval a = of_int x / 100" "- 2 \<le> dexp a" using assms(1) by (simp_all add: cents_rep_def)
  have x: "(0::rat) \<le> of_int x / 100" using assms(2) by simp
  have le: "of_int x / 100 * dval r \<le> of_int x / 100" "0 \<le> of_int x / 100 * dval r"
    using mult_left_mono [OF assms(6) x] x assms(5) by simp_all
  have "(of_int x :: rat) \<le> of_int (10 ^ 20)" using assms(3) by (simp only: of_int_le_iff)
  then have "\<bar>dval a * dval r\<bar> \<le> 10 ^ 20" using le unfolding a by simp
  then have "money (dec_mul a r) = Inr (Dec (round_cents (of_int x / 100 * dval r)) (-2))"
    using money_mul_round [of a r] assms(4) a by simp
  moreover have "0 \<le> round_cents (of_int x / 100 * dval r)" "round_cents (of_int x / 100 * dval r) \<le> x"
    using round_cents_mono [OF le(2)] round_cents_mono [OF le(1)] round_cents_int [of 0] by simp_all
  ultimately show ?thesis by (auto simp: rcents_def)
qed

definition rate_used :: "employee \<Rightarrow> decimal option \<Rightarrow> decimal" where
  "rate_used emp override = (case override of Some r \<Rightarrow> r | None \<Rightarrow> retirement_contribution_pct emp)"

text \<open>The range of the W-4 amounts, the 401k rate and the year-to-date wages of an employee.\<close>

definition calc_inputs :: "employee \<Rightarrow> decimal option \<Rightarrow> bool" where
  "calc_inputs e override \<longleftrightarrow>
     withholding_inputs dec_zero e \<and> emp_filing_status e \<noteq> HeadOfHousehold
   \<and> amount (10 ^ 12) (ytd_ss_wages e)
   \<and> - 5 \<le> dexp (rate_used e override) \<and> 0 \<le> dval (rate_used e override) \<and> dval (rate_used e override) \<le> 1"

definition ss_room :: "employee \<Rightarrow> rat" where
  "ss_room e = max 0 (184500 - dval (ytd_ss_wages e))"

text \<open>What a paystub has to say, given the gross pay.\<close>

definition stub_amounts :: "employee \<Rightarrow> decimal option \<Rightarrow> rat \<Rightarrow> paystub \<Rightarrow> bool" where
  "stub_amounts e override g s \<longleftrightarrow>
     dval (gross_pay s) = g
   \<and> dval (pretax_401k s) = rcents (g * dval (rate_used e override))
   \<and> dval (fica_ss s) = rcents (min g (ss_room e) * (62 / 1000))
   \<and> dval (fica_medicare s) = rcents (g * (145 / 10000))
   \<and> dval (federal_withholding s) =
       worksheet_1A (schedule e) (of_nat (pay_periods_per_year e)) (dval (std_amount e)) (g - dval (pretax_401k s))
         (dval (step_4a_other_income e)) (dval (step_4b_deductions e)) (dval (step_3_dependents e))
   \<and> dval (net_pay s) = g - dval (pretax_401k s) - dval (fica_ss s) - dval (fica_medicare s)
       - dval (federal_withholding s)"

lemma withholding_inputs_wages:
  assumes "withholding_inputs dec_zero e" "0 \<le> x" "x \<le> 10 ^ 14"
  shows "withholding_inputs (Dec x (-2)) e"
proof -
  have "\<bar>x\<bar> \<le> 10 ^ 14" using assms by simp
  from int_rat_le [OF this] have "\<bar>dval (Dec x (-2))\<bar> \<le> 10 ^ 12" by (simp add: dval_cents)
  with assms show ?thesis by (simp add: withholding_inputs_def amount_def mag_le_def)
qed

lemma drift_never:
  assumes "cents_rep g a" "cents_rep k b" "cents_rep s c" "cents_rep m d" "cents_rep f e"
    "net = Dec (g - k - s - m - f) (-2)"
    "0 \<le> g" "g \<le> 10 ^ 20" "0 \<le> k" "k \<le> 10 ^ 20" "0 \<le> s" "s \<le> 10 ^ 20" "0 \<le> m" "m \<le> 10 ^ 20"
    "0 \<le> f" "f \<le> 10 ^ 20"
  shows "raise_if_reconciliation_drift a b c d e net = Inr ()"
proof -
  have n: "cents_rep (g - k - s - m - f) net" by (simp add: assms(6))
  have 1: "cents_rep (g - s - m - f) (dec_add net b)"
    using cents_rep_ops(1) [OF n assms(2)] assms(7-) by (simp add: algebra_simps)
  have 2: "cents_rep (g - m - f) (dec_add (dec_add net b) c)"
    using cents_rep_ops(1) [OF 1 assms(3)] assms(7-) by (simp add: algebra_simps)
  have 3: "cents_rep (g - f) (dec_add (dec_add (dec_add net b) c) d)"
    using cents_rep_ops(1) [OF 2 assms(4)] assms(7-) by (simp add: algebra_simps)
  have 4: "cents_rep g (dec_add (dec_add (dec_add (dec_add net b) c) d) e)"
    using cents_rep_ops(1) [OF 3 assms(5)] assms(7-) by (simp add: algebra_simps)
  have 5: "cents_rep g (dec_add (dec_add (dec_add (dec_add (dec_add net b) c) d) e) dec_zero)"
    using cents_rep_ops(1) [OF 4 cents_rep_zero] assms(7-) by simp
  have "money (dec_add (dec_add (dec_add (dec_add (dec_add net b) c) d) e) dec_zero) = Inr (Dec g (-2))"
    using 5 assms(7,8) by (intro cents_rep_money) simp_all
  moreover have "dec_eq (Dec g (-2)) a"
    using cents_rep_le [OF cents_rep_Dec assms(1), of g] cents_rep_le [OF assms(1) cents_rep_Dec, of g]
    by (simp add: dec_eq_def)
  ultimately show ?thesis by (simp add: raise_if_reconciliation_drift_def)
qed

lemma fica_rates: "dval SS_RATE = 62 / 1000" "dexp SS_RATE = - 3" "dval MEDICARE_RATE = 145 / 10000" "dexp MEDICARE_RATE = - 4"
  by (simp_all add: SS_RATE_def MEDICARE_RATE_def dval_def power_int_minus)

text \<open>Lines gross to net: the code returns, the amounts are as specified, the backstop is silent.\<close>

lemma calculate_from_gross:
  assumes "resolved_hours raw = Inr hours"
    "(case emp_pay_type emp of Hourly \<Rightarrow> hourly_gross hours emp | Salary \<Rightarrow> salary_gross hours emp)
      = Inr (Dec g (-2))"
    "0 \<le> g" "g \<le> 10 ^ 14" "calc_inputs emp override"
  shows "returns (calculate new_id new_run now raw emp override) (\<lambda>s.
    stub_amounts emp override (of_int g / 100) s \<and> stub_employee_id s = Some (emp_id emp)
    \<and> stub_run_id s = new_run \<and> stub_name s = full_name emp
    \<and> (\<forall>f. hours_at hours f = (case f of HoursRegular \<Rightarrow> stub_hours_regular s | HoursOvertime \<Rightarrow> stub_hours_overtime s
         | HoursVacation \<Rightarrow> stub_hours_vacation s | HoursSick \<Rightarrow> stub_hours_sick s | HoursHoliday \<Rightarrow> stub_hours_holiday s)))"
proof -
  let ?g = "Dec g (-2)" and ?r = "rate_used emp override"
  have ci: "withholding_inputs dec_zero emp" "emp_filing_status emp \<noteq> HeadOfHousehold"
    "amount (10 ^ 12) (ytd_ss_wages emp)" "- 5 \<le> dexp ?r" "0 \<le> dval ?r" "dval ?r \<le> 1"
    using assms(5) by (simp_all add: calc_inputs_def)
  have g20: "g \<le> 10 ^ 20" using assms(4) by simp
  obtain k where k: "money (dec_mul ?g ?r) = Inr (Dec k (-2))"
      "of_int k / 100 = rcents (of_int g / 100 * dval ?r)" "0 \<le> k" "k \<le> g"
    using money_rate [OF cents_rep_Dec assms(3) g20 ci(4-6)] by blast
  define y where "y = at_exp (ytd_ss_wages emp) (-2)"
  have y: "cents_rep y (ytd_ss_wages emp)" "0 \<le> y" "y \<le> 10 ^ 14"
    using cents_rep_amount [OF ci(3)] amount_cents(2,3) [OF ci(3)] by (simp_all add: y_def)
  define cap where "cap = (let c = dec_sub SS_WAGE_BASE (ytd_ss_wages emp) in if dec_lt c dec_zero then dec_zero else c)"
  have base: "cents_rep 18450000 SS_WAGE_BASE" by (simp add: cents_rep_def SS_WAGE_BASE_def dval_def)
  have cap: "cents_rep (max 0 (18450000 - y)) cap"
    unfolding cap_def Let_def using y by (intro cents_rep_floor0 cents_rep_ops(2) base) simp_all
  define t where "t = min g (max 0 (18450000 - y))"
  have t: "cents_rep t (dec_min ?g cap)" "0 \<le> t" "t \<le> 10 ^ 20"
    using cents_rep_min [OF cents_rep_Dec cap, of g] assms(3) g20 by (simp_all add: t_def)
  obtain s where s: "money (dec_mul (dec_min ?g cap) SS_RATE) = Inr (Dec s (-2))"
      "of_int s / 100 = rcents (of_int t / 100 * (62 / 1000))" "0 \<le> s" "s \<le> t"
    using money_rate [OF t, of SS_RATE] by (auto simp: fica_rates)
  obtain m where m: "money (dec_mul ?g MEDICARE_RATE) = Inr (Dec m (-2))"
      "of_int m / 100 = rcents (of_int g / 100 * (145 / 10000))" "0 \<le> m" "m \<le> g"
    using money_rate [OF cents_rep_Dec assms(3) g20, of MEDICARE_RATE] by (auto simp: fica_rates)
  have tg: "t \<le> g" by (simp add: t_def)
  have fw: "money (dec_sub ?g (Dec k (-2))) = Inr (Dec (g - k) (-2))"
    using k(3,4) assms(3,4) by (intro money_add_cents) (simp_all add: dval_cents)
  have wi: "withholding_inputs (Dec (g - k) (-2)) emp"
    using k(3,4) assms(3,4) by (intro withholding_inputs_wages ci(1)) simp_all
  obtain fed f where fed: "federal_withholding_2026 (Dec (g - k) (-2)) emp = Inr fed"
      "dval fed = worksheet_1A (schedule emp) (of_nat (pay_periods_per_year emp)) (dval (std_amount emp))
         (dval (Dec (g - k) (-2))) (dval (step_4a_other_income emp)) (dval (step_4b_deductions emp))
         (dval (step_3_dependents emp))"
      and f: "cents_rep f fed" "0 \<le> f" "f \<le> 10 ^ 20"
    using federal_withholding_worksheet [OF wi ci(2)] unfolding returns_def by blast
  have n: "money (dec_sub (dec_sub (dec_sub (dec_sub ?g (Dec k (-2))) (Dec s (-2))) (Dec m (-2))) fed)
      = Inr (Dec (g - k - s - m - f) (-2))"
    using k s m f tg assms(3,4)
    by (intro cents_rep_money cents_rep_ops(2) cents_rep_Dec) simp_all
  have drift: "raise_if_reconciliation_drift ?g (Dec k (-2)) (Dec s (-2)) (Dec m (-2)) fed
      (Dec (g - k - s - m - f) (-2)) = Inr ()"
    using k s m f tg assms(3,4) g20 by (intro drift_never [of g _ k _ s _ m _ f]) simp_all
  obtain th where th: "ADDITIONAL_MEDICARE_THRESHOLDS (emp_filing_status emp) = Inr th"
    using ci(2) by (cases "emp_filing_status emp") simp_all
  have room: "min (of_int g / 100) (ss_room emp) = of_int t / 100"
    using y(1) by (simp add: ss_room_def t_def cents_rep_def min_def max_def)
  show ?thesis
    unfolding calculate_def assms(1,2) bind_res.simps Let_def rate_used_def [symmetric] k(1)
      cap_def [unfolded Let_def, symmetric] s(1) m(1) fw fed(1) n th drift
    using k(2) s(2) [folded room] m(2) fed(2) f(1)
    by (auto simp: stub_amounts_def dval_cents cents_rep_def diff_divide_distrib split: hours_field.splits)
qed

subsection \<open>Gross pay of the two branches\<close>

definition hours_ok :: "(hours_field, decimal) dict \<Rightarrow> bool" where
  "hours_ok h \<longleftrightarrow> (\<forall>f. amount (10 ^ 5) (hours_at h f))"

lemma hours_cents:
  "hours_ok h \<Longrightarrow> cents_rep (at_exp (hours_at h f) (-2)) (hours_at h f) \<and> 0 \<le> at_exp (hours_at h f) (-2)
     \<and> at_exp (hours_at h f) (-2) \<le> 10 ^ 7"
  using cents_rep_amount [of 5 "hours_at h f"] amount_cents(2,3) [of 5 "hours_at h f"]
  by (simp add: hours_ok_def)

lemma amount_or_zero: "amount B d \<Longrightarrow> amount B (or_zero (Some d)) \<and> dval (or_zero (Some d)) = dval d"
  by (cases d) (auto simp: or_zero_def amount_def dec_zero_def mag_le_def)

definition hourly_pay :: "rat \<Rightarrow> (hours_field \<Rightarrow> rat) \<Rightarrow> rat" where
  "hourly_pay r h = r * (h HoursRegular + h HoursVacation + h HoursSick + h HoursHoliday)
     + r * (3 / 2) * h HoursOvertime"

lemma hourly_gross_exact:
  assumes "hours_ok h" "hourly_rate e = Some r" "amount (10 ^ 5) r"
  shows "\<exists>g. hourly_gross h e = Inr (Dec g (-2)) \<and> 0 \<le> g \<and> g \<le> 10 ^ 14
    \<and> of_int g / 100 = rcents (hourly_pay (dval r) (\<lambda>f. dval (hours_at h f)))"
proof -
  define rt where "rt = or_zero (hourly_rate e)"
  define H where "H f = at_exp (hours_at h f) (-2)" for f
  have rt: "amount (10 ^ 5) rt" "dval rt = dval r" "- 2 \<le> dexp rt" "0 \<le> dval rt" "dval rt \<le> 10 ^ 5"
    using amount_or_zero [OF assms(3)] by (auto simp: rt_def assms(2) amount_def dval_nonneg_iff [symmetric] mag_le_def)
  have H: "cents_rep (H f) (hours_at h f)" "0 \<le> H f" "H f \<le> 10 ^ 7" for f
    using hours_cents [OF assms(1), of f] by (simp_all add: H_def)
  have hv: "dval (hours_at h f) = of_int (H f) / 100" for f using H(1) by (simp add: cents_rep_def)
  define S where "S = H HoursRegular + H HoursVacation + H HoursSick + H HoursHoliday"
  define straight where "straight = dec_add (dec_add (dec_add (hours_at h HoursRegular) (hours_at h HoursVacation))
                       (hours_at h HoursSick)) (hours_at h HoursHoliday)"
  have "cents_rep (H HoursRegular + H HoursVacation) (dec_add (hours_at h HoursRegular) (hours_at h HoursVacation))"
    using H(2,3) [of HoursRegular] H(2,3) [of HoursVacation] by (intro cents_rep_ops H(1)) simp_all
  then have "cents_rep (H HoursRegular + H HoursVacation + H HoursSick)
      (dec_add (dec_add (hours_at h HoursRegular) (hours_at h HoursVacation)) (hours_at h HoursSick))"
    using H(2,3) [of HoursRegular] H(2,3) [of HoursVacation] H(2,3) [of HoursSick]
    by (intro cents_rep_ops H(1)) simp_all
  then have "cents_rep S straight" unfolding S_def straight_def
    using H(2,3) [of HoursRegular] H(2,3) [of HoursVacation] H(2,3) [of HoursSick] H(2,3) [of HoursHoliday]
    by (intro cents_rep_ops H(1)) simp_all
  then have st: "dval straight = of_int S / 100" "- 2 \<le> dexp straight" by (simp_all add: cents_rep_def)
  have "0 \<le> S" "S \<le> 10 ^ 8" using H(2,3) [of HoursRegular] H(2,3) [of HoursVacation] H(2,3) [of HoursSick]
      H(2,3) [of HoursHoliday] by (simp_all add: S_def)
  then have sb: "0 \<le> dval straight" "dval straight \<le> 10 ^ 6"
    using int_rat_le [of S 8] unfolding st(1) by simp_all
  have ob: "0 \<le> dval (hours_at h f)" "dval (hours_at h f) \<le> 10 ^ 5" "- 2 \<le> dexp (hours_at h f)" for f
  proof -
    have "amount (10 ^ 5) (hours_at h f)" using assms(1) by (simp add: hours_ok_def)
    then show "0 \<le> dval (hours_at h f)" "dval (hours_at h f) \<le> 10 ^ 5" "- 2 \<le> dexp (hours_at h f)"
      by (auto simp: amount_def dval_nonneg_iff [symmetric] mag_le_def)
  qed
  have a: "dval (dec_mul rt straight) = dval rt * dval straight" "0 \<le> dval rt * dval straight"
      "dval rt * dval straight \<le> 10 ^ 11" "- 4 \<le> dexp (dec_mul rt straight)"
    using mult_mono [of "dval rt" "10 ^ 5" "dval straight" "10 ^ 6"] rt(3-5) sb st(2) dexp_dec_mul [of rt straight]
    by (simp_all add: dval_mul_exact_small)
  have b: "dval (dec_mul rt (Dec 15 (-1))) = dval rt * (3 / 2)" "- 3 \<le> dexp (dec_mul rt (Dec 15 (-1)))"
    using rt(3-5) dexp_dec_mul [of rt "Dec 15 (-1)"] dval_mul_exact_small [of rt "Dec 15 (-1)"]
    by (simp_all add: dval_def [of "Dec 15 (-1)"])
  let ?o = "dval rt * (3 / 2) * dval (hours_at h HoursOvertime)"
  have c: "0 \<le> ?o" "?o \<le> 10 ^ 11"
    using mult_mono [of "dval rt * (3 / 2)" "10 ^ 6" "dval (hours_at h HoursOvertime)" "10 ^ 5"]
      rt(4,5) ob [of HoursOvertime] by simp_all
  have d: "dval (dec_mul (dec_mul rt (Dec 15 (-1))) (hours_at h HoursOvertime)) = ?o"
      "- 5 \<le> dexp (dec_mul (dec_mul rt (Dec 15 (-1))) (hours_at h HoursOvertime))"
  proof -
    have "dval (dec_mul (dec_mul rt (Dec 15 (-1))) (hours_at h HoursOvertime))
        = dval (dec_mul rt (Dec 15 (-1))) * dval (hours_at h HoursOvertime)"
      using b(2) ob(3) [of HoursOvertime] c unfolding b(1) [symmetric] by (intro dval_mul_exact_small) simp_all
    then show "dval (dec_mul (dec_mul rt (Dec 15 (-1))) (hours_at h HoursOvertime)) = ?o" by (simp only: b(1))
    show "- 5 \<le> dexp (dec_mul (dec_mul rt (Dec 15 (-1))) (hours_at h HoursOvertime))"
      using b(2) ob(3) [of HoursOvertime] dexp_dec_mul [of "dec_mul rt (Dec 15 (-1))" "hours_at h HoursOvertime"]
      by simp
  qed
  let ?x = "dec_add (dec_mul rt straight) (dec_mul (dec_mul rt (Dec 15 (-1))) (hours_at h HoursOvertime))"
  let ?v = "dval rt * dval straight + ?o"
  have x: "dval ?x = ?v" using a c d by (simp add: dval_add_exact mag_le_def)
  have v: "?v = hourly_pay (dval r) (\<lambda>f. dval (hours_at h f))"
    by (simp add: hourly_pay_def rt(2) st(1) S_def hv add_divide_distrib)
  have vb: "0 \<le> ?v" "?v \<le> of_int (10 ^ 14) / 100"
    using a(2,3) c by simp_all
  have "hourly_gross h e = Inr (Dec (round_cents ?v) (-2))"
    using vb x by (simp add: hourly_gross_def Let_def rt_def [symmetric] straight_def [symmetric] money_def quantize_cents_Inr)
  moreover have "0 \<le> round_cents ?v" "round_cents ?v \<le> 10 ^ 14"
    using round_cents_mono [OF vb(1)] round_cents_mono [OF vb(2)] round_cents_int [of 0] round_cents_int [of "10 ^ 14"]
    by simp_all
  ultimately show ?thesis unfolding v by (auto simp: rcents_def)
qed


text \<open>
  The salaried branch: the period salary is one rounding of the exact quotient; the leave pay
  multiplies an already inexact quotient, so it is only known to the cent
  (\<open>leave_pay_half_cent\<close> below shows the cent being lost).
\<close>

definition leave_total :: "(hours_field, decimal) dict \<Rightarrow> rat" where
  "leave_total h = dval (hours_at h HoursVacation) + dval (hours_at h HoursSick) + dval (hours_at h HoursHoliday)"

lemma leave_pay_close:
  assumes "0 \<le> dval a" "0 \<le> coef a" "dval a \<le> 10 ^ 9" "0 \<le> coef l" "0 \<le> dval l" "dval l \<le> 10 ^ 6"
  shows "\<exists>q x. dec_div a (Dec 2080 0) = Inr q \<and> money (dec_mul q l) = Inr (Dec x (-2)) \<and> 0 \<le> x \<and> x \<le> 6 * 10 ^ 13
    \<and> \<bar>of_int x / 100 - dval a / 2080 * dval l\<bar> \<le> 1 / 100"
proof -
  obtain q where q: "dec_div a (Dec 2080 0) = Inr q" "0 \<le> coef q" 
      "\<bar>dval q - dval a / 2080\<bar> \<le> dval a / 2080 / 10 ^ 26"
    using dec_div_close [OF assms(2), of "Dec 2080 0"] by (auto simp: returns_def dval_def [of "Dec 2080 0"])
  let ?e = "dval a / 2080 * dval l"
  have e: "0 \<le> ?e" "?e \<le> 5 * 10 ^ 11"
    using mult_mono [of "dval a / 2080" "5 * 10 ^ 5" "dval l" "10 ^ 6"] assms by simp_all
  have "\<bar>dval q * dval l - ?e\<bar> = \<bar>dval q - dval a / 2080\<bar> * dval l"
  proof -
    have "dval q * dval l - ?e = (dval q - dval a / 2080) * dval l" by (simp only: left_diff_distrib)
    then show ?thesis using assms(5) by (simp only: abs_mult abs_of_nonneg)
  qed
  also have "\<dots> \<le> dval a / 2080 / 10 ^ 26 * dval l" using q(3) assms(5) by (rule mult_right_mono)
  also have "\<dots> = ?e / 10 ^ 26" by simp
  finally have m1: "\<bar>dval q * dval l - ?e\<bar> \<le> 1 / 10 ^ 10" using e by simp
  have ql: "0 \<le> dval q * dval l" using q(2) assms(5) by (simp add: dval_nonneg_iff [symmetric])
  define u v ev where "u = dval q * dval l" and "v = dval (dec_mul q l)" and "ev = ?e"
  note abb = u_def [symmetric] v_def [symmetric] ev_def [symmetric]
  let ?p = "dec_mul q l"
  have "\<bar>v - u\<bar> \<le> \<bar>u\<bar> / 10 ^ 27"
    unfolding u_def v_def dec_mul_def
    using dec_fix_close [of "Dec (coef q * coef l) (dexp q + dexp l)"] by (simp add: dval_mul_exact)
  moreover have u: "\<bar>u\<bar> \<le> 10 ^ 13" using abs_le_D1 [OF m1] e ql unfolding abb by simp
  ultimately have m2: "\<bar>v - u\<bar> \<le> 1 / 10 ^ 10" by simp
  have p: "\<bar>v - ev\<bar> \<le> 1 / 10 ^ 9" 
    using abs_le_D1 [OF m1] abs_le_D2 [OF m1] abs_le_D1 [OF m2] abs_le_D2 [OF m2] unfolding abb
    by (intro abs_leI) simp_all
  have pb: "\<bar>dval ?p\<bar> < 10 ^ 25" "dval ?p \<le> 5 * 10 ^ 11 + 1 / 10 ^ 9"
    using e abs_le_D1 [OF p] abs_le_D2 [OF p] unfolding abb by simp_all
  have pn: "0 \<le> dval ?p" using dec_mul_nonneg [OF q(2) assms(4)] by (simp add: dval_nonneg_iff)
  have "round_cents (dval ?p) \<le> 6 * 10 ^ 13"
  proof -
    have "100 * dval ?p + 1 / 2 < of_int (6 * 10 ^ 13 + 1)" using pb(2) by simp
    then have "\<lfloor>100 * dval ?p + 1 / 2\<rfloor> < 6 * 10 ^ 13 + 1" by (simp only: floor_less_iff)
    then show ?thesis using pn by (simp add: round_cents_def)
  qed
  moreover have "0 \<le> round_cents (dval ?p)" using round_cents_mono [OF pn] round_cents_int [of 0] by simp
  moreover have "\<bar>of_int (round_cents (dval ?p)) / 100 - ?e\<bar> \<le> 1 / 100"
    using abs_le_D1 [OF round_cents_close [of "dval ?p"]] abs_le_D2 [OF round_cents_close [of "dval ?p"]]
      abs_le_D1 [OF p] abs_le_D2 [OF p] unfolding abb
    by (intro abs_leI) simp_all
  ultimately show ?thesis using q(1) pb(1) by (auto simp: money_def quantize_cents_Inr)
qed

lemma salary_gross_close:
  assumes "hours_ok h" "annual_salary e = Some a" "amount (10 ^ 9) a" "dexp a = -2"
    "0 < pay_periods_per_year e" "pay_periods_per_year e \<le> 10000"
  shows "\<exists>g. salary_gross h e = Inr (Dec g (-2)) \<and> 0 \<le> g \<and> g \<le> 10 ^ 14
    \<and> \<bar>of_int g / 100 - (rcents (dval a / of_nat (pay_periods_per_year e)) + dval a / 2080 * leave_total h)\<bar> \<le> 1 / 100"
proof -
  let ?p = "int (pay_periods_per_year e)"
  define an where "an = or_zero (annual_salary e)"
  define H where "H f = at_exp (hours_at h f) (-2)" for f
  have an: "amount (10 ^ 9) an" "dval an = dval a" "0 \<le> dval an" "0 \<le> coef an" "dval an \<le> 10 ^ 9"
      "dexp an = -2 \<or> coef an = 0"
    using amount_or_zero [OF assms(3)] assms(4)
    by (auto simp: an_def assms(2) amount_def dval_nonneg_iff [symmetric] mag_le_def or_zero_def dec_zero_def)
  have p: "0 < ?p" "?p \<le> 10 ^ 4" "(1::rat) \<le> of_int ?p" using assms(5,6) by simp_all
  have "bind_res (dec_div an (dec_of_int ?p)) money = Inr (Dec (round_cents (dval an / of_int ?p)) (-2))"
    using an p by (intro div_money_cents) (auto simp: mag_le_def)
  then obtain q where q: "dec_div an (dec_of_int ?p) = Inr q" "money q = Inr (Dec (round_cents (dval an / of_int ?p)) (-2))"
    by (auto simp: bind_res_Inr_iff)
  note ps = div_round_bound [OF an(3,5) p(3)]
  have H: "cents_rep (H f) (hours_at h f)" "0 \<le> H f" "H f \<le> 10 ^ 7" for f
    using hours_cents [OF assms(1), of f] by (simp_all add: H_def)
  define S where "S = H HoursVacation + H HoursSick + H HoursHoliday"
  define lh where "lh = dec_add (dec_add (hours_at h HoursVacation) (hours_at h HoursSick)) (hours_at h HoursHoliday)"
  have "cents_rep (H HoursVacation + H HoursSick) (dec_add (hours_at h HoursVacation) (hours_at h HoursSick))"
    using H(2,3) [of HoursVacation] H(2,3) [of HoursSick] by (intro cents_rep_ops H(1)) simp_all
  then have S: "cents_rep S lh" unfolding S_def lh_def
    using H(2,3) [of HoursVacation] H(2,3) [of HoursSick] H(2,3) [of HoursHoliday]
    by (intro cents_rep_ops H(1)) simp_all
  have hv: "dval (hours_at h f) = of_int (H f) / 100" for f using H(1) by (simp add: cents_rep_def)
  have lv: "dval lh = leave_total h"
    using S by (simp add: cents_rep_def leave_total_def S_def hv add_divide_distrib)
  have "0 \<le> S" "S \<le> 10 ^ 8" using H(2,3) [of HoursVacation] H(2,3) [of HoursSick]
      H(2,3) [of HoursHoliday] by (simp_all add: S_def)
  then have lb: "0 \<le> dval lh" "dval lh \<le> 10 ^ 6"
    using S int_rat_le [of S 8] by (simp_all add: cents_rep_def)
  obtain ih x where l: "dec_div an (Dec 2080 0) = Inr ih" "money (dec_mul ih lh) = Inr (Dec x (-2))"
      "0 \<le> x" "x \<le> 6 * 10 ^ 13" "\<bar>of_int x / 100 - dval an / 2080 * dval lh\<bar> \<le> 1 / 100"
    using leave_pay_close [OF an(3,4,5), of lh] lb by (auto simp: dval_nonneg_iff)
  define y where "y = round_cents (dval an / of_int ?p)"
  have y: "0 \<le> y" "y \<le> 10 ^ 11" "of_int y / 100 = rcents (dval an / of_int ?p)"
    using ps by (simp_all add: y_def rcents_def)
  have "money (dec_add (Dec y (-2)) (Dec x (-2))) = Inr (Dec (y + x) (-2))"
    using y l by (intro money_add_cents) (simp_all add: dval_cents)
  then have "salary_gross h e = Inr (Dec (y + x) (-2))"
    using q l by (simp add: salary_gross_def Let_def an_def [symmetric] lh_def [symmetric] y_def)
  moreover have "\<bar>of_int (y + x) / 100 - (rcents (dval a / of_nat (pay_periods_per_year e)) + dval a / 2080 * leave_total h)\<bar> \<le> 1 / 100"
    using l(5) y(3) by (simp add: add_divide_distrib an(2) lv)
  ultimately show ?thesis using y l(3,4) by auto
qed


subsection \<open>The hours seam\<close>

definition raw_value :: "(string, hours_value) dict \<Rightarrow> hours_field \<Rightarrow> hours_value" where
  "raw_value raw f = (case map_of raw (field_name f) of None \<Rightarrow> HNone | Some v \<Rightarrow> v)"

definition keys_known :: "(string, hours_value) dict \<Rightarrow> bool" where
  "keys_known raw \<longleftrightarrow> fst ` set raw \<subseteq> range field_name"

lemma to_decimal_nonneg: "to_decimal v = Inr d \<Longrightarrow> 0 \<le> coef d"
  by (cases v) (auto simp: to_decimal_def Let_def dec_zero_def dec_order dval_nonneg_iff [symmetric]
      split: if_splits option.splits)

lemma map_of_pairs: "map fst h = fs \<Longrightarrow> list_all2 (\<lambda>f kv. P f (snd kv)) fs h \<Longrightarrow> f \<in> set fs \<Longrightarrow> distinct fs \<Longrightarrow>
   \<exists>d. map_of h f = Some d \<and> P f d"
proof (induction fs arbitrary: h)
  case Nil
  then show ?case by simp
next
  case (Cons a fs)
  then show ?case by (cases h) auto
qed

lemma map_res_pair:
  "map_res (\<lambda>f. bind_res (m f) (\<lambda>d. Inr (f, d))) fs = Inr h \<longleftrightarrow>
     map fst h = fs \<and> list_all2 (\<lambda>f kv. m f = Inr (snd kv)) fs h"
proof (induction fs arbitrary: h)
  case Nil
  then show ?case by auto
next
  case (Cons f fs)
  show ?case
    by (cases h) (auto simp: Cons.IH bind_res_Inr_iff)
qed

lemma resolved_hours_Inr:
  "resolved_hours raw = Inr h \<longleftrightarrow> keys_known raw \<and> map fst h = HOURS_FIELDS
     \<and> (\<forall>f. to_decimal (raw_value raw f) = Inr (hours_at h f))"
proof -
  have "resolved_hours raw = Inr h \<longleftrightarrow> keys_known raw \<and> map fst h = HOURS_FIELDS
      \<and> list_all2 (\<lambda>f kv. to_decimal (raw_value raw f) = Inr (snd kv)) HOURS_FIELDS h"
    by (auto simp: resolved_hours_def map_res_pair raw_value_def keys_known_def list_all_iff)
  moreover have "list_all2 (\<lambda>f kv. to_decimal (raw_value raw f) = Inr (snd kv)) HOURS_FIELDS h
      \<longleftrightarrow> (\<forall>f. to_decimal (raw_value raw f) = Inr (hours_at h f))" if m: "map fst h = HOURS_FIELDS"
  proof
    assume l: "list_all2 (\<lambda>f kv. to_decimal (raw_value raw f) = Inr (snd kv)) HOURS_FIELDS h"
    show "\<forall>f. to_decimal (raw_value raw f) = Inr (hours_at h f)"
    proof
      fix f
      from map_of_pairs [of h HOURS_FIELDS "\<lambda>f d. to_decimal (raw_value raw f) = Inr d" f, OF m l]
      show "to_decimal (raw_value raw f) = Inr (hours_at h f)" by (auto simp: hours_at_def)
    qed
  next
    assume a: "\<forall>f. to_decimal (raw_value raw f) = Inr (hours_at h f)"
    have "distinct (map fst h)" by (simp add: m)
    then have "hours_at h (fst kv) = snd kv" if "kv \<in> set h" for kv
      using that by (cases kv) (simp add: hours_at_def)
    with a show "list_all2 (\<lambda>f kv. to_decimal (raw_value raw f) = Inr (snd kv)) HOURS_FIELDS h"
      unfolding m [symmetric] list_all2_map1 by (auto intro!: list.rel_refl_strong)
  qed
  ultimately show ?thesis by blast
qed

text \<open>The dictionaries the calculation accepts: known keys, values that coerce to amounts.\<close>

definition raw_ok :: "(string, hours_value) dict \<Rightarrow> bool" where
  "raw_ok raw \<longleftrightarrow> keys_known raw
     \<and> (\<forall>f. case to_decimal (raw_value raw f) of Inl e \<Rightarrow> False | Inr d \<Rightarrow> amount (10 ^ 5) d)"

definition raw_hours :: "(string, hours_value) dict \<Rightarrow> hours_field \<Rightarrow> rat" where
  "raw_hours raw f = (case to_decimal (raw_value raw f) of Inl e \<Rightarrow> 0 | Inr d \<Rightarrow> dval d)"

lemma raw_ok_resolved:
  assumes "raw_ok raw"
  shows "\<exists>h. resolved_hours raw = Inr h \<and> hours_ok h \<and> (\<forall>f. dval (hours_at h f) = raw_hours raw f)"
proof -
  define h where "h = map (\<lambda>f. (f, projr (to_decimal (raw_value raw f)))) HOURS_FIELDS"
  have hf: "hours_at h f = projr (to_decimal (raw_value raw f))" for f
    by (cases f) (simp_all add: h_def hours_at_def HOURS_FIELDS_def)
  have r: "to_decimal (raw_value raw f) = Inr (hours_at h f)" "amount (10 ^ 5) (hours_at h f)" for f
  proof -
    have "case to_decimal (raw_value raw f) of Inl e \<Rightarrow> False | Inr d \<Rightarrow> amount (10 ^ 5) d"
      using assms unfolding raw_ok_def by blast
    then show "to_decimal (raw_value raw f) = Inr (hours_at h f)" "amount (10 ^ 5) (hours_at h f)"
      unfolding hf by (cases "to_decimal (raw_value raw f)"; simp)+
  qed
  have "map fst h = HOURS_FIELDS" by (simp add: h_def comp_def)
  then have "resolved_hours raw = Inr h"
    using assms r(1) unfolding resolved_hours_Inr raw_ok_def by blast
  then show ?thesis using r by (auto simp: hours_ok_def raw_hours_def)
qed

subsection \<open>Properties\<close>

definition sample_hours :: "(string, hours_value) dict" where
  "sample_hours = [(''hours_regular'', HDec (Dec 7600 (-2))), (''hours_overtime'', HDec (Dec 4 0)), (''hours_sick'', HNone)]"

definition sample_salaried :: employee where
  "sample_salaried = sample_employee\<lparr>emp_pay_type := Salary, hourly_rate := None, annual_salary := Some (Dec 6200000 (-2))\<rparr>"

lemma sample_hours_ok: "raw_ok sample_hours"
proof -
  have "\<forall>f \<in> set HOURS_FIELDS. case to_decimal (raw_value sample_hours f) of Inl e \<Rightarrow> False | Inr d \<Rightarrow> amount (10 ^ 5) d"
    by (simp add: HOURS_FIELDS_def raw_value_def sample_hours_def to_decimal_def dec_eval dec_zero_def amount_def mag_le_def dval_def)
  moreover have "keys_known sample_hours"
    by (auto simp: keys_known_def sample_hours_def intro: range_eqI [of _ _ HoursRegular]
        range_eqI [of _ _ HoursOvertime] range_eqI [of _ _ HoursSick])
  ultimately show ?thesis by (simp add: raw_ok_def)
qed

lemma sample_calc_inputs: "calc_inputs sample_employee None" "calc_inputs sample_salaried None"
  by (simp_all add: calc_inputs_def sample_salaried_def sample_employee_def withholding_inputs_def
      amount_def mag_le_def dval_def dec_zero_def rate_used_def power_int_minus)

lemma calculate_hourly:
  assumes "raw_ok raw" "calc_inputs emp override" "emp_pay_type emp = Hourly"
    "hourly_rate emp = Some r" "amount (10 ^ 5) r"
  shows "\<exists>s. calculate new_id new_run now raw emp override = Inr s
     \<and> stub_amounts emp override (rcents (hourly_pay (dval r) (raw_hours raw))) s"
proof -
  obtain h where h: "resolved_hours raw = Inr h" "hours_ok h" "\<And>f. dval (hours_at h f) = raw_hours raw f"
    using raw_ok_resolved [OF assms(1)] by blast
  obtain g where g: "hourly_gross h emp = Inr (Dec g (-2))" "0 \<le> g" "g \<le> 10 ^ 14"
      "of_int g / 100 = rcents (hourly_pay (dval r) (raw_hours raw))"
    using hourly_gross_exact [OF h(2) assms(4,5)] unfolding h(3) by blast
  from calculate_from_gross [OF h(1) _ g(2,3) assms(2), of new_id new_run now] g(1,4) assms(3)
  show ?thesis unfolding returns_def by auto
qed

text \<open>C3. An hourly paystub is exactly what the model of pay says: for every hourly employee and
  every hours dictionary in range, \<open>calculate\<close> returns (the reconciliation backstop never
  fires), gross is one half-up rounding of straight time plus time-and-a-half overtime, 401k,
  Social Security up to the wage-base room, Medicare and Worksheet 1A withholding are those
  of the gross, and net is gross less all of them, to the cent.\<close>

theorem calculate_hourly_exact:
  assumes "raw_ok raw" "calc_inputs emp override" "emp_pay_type emp = Hourly"
    "hourly_rate emp = Some r" "amount (10 ^ 5) r"
  shows "\<exists>s. calculate new_id new_run now raw emp override = Inr s
     \<and> stub_amounts emp override (rcents (hourly_pay (dval r) (raw_hours raw))) s"
  by (rule calculate_hourly [OF assms])

theorem calculate_hourly_exact_witness:
  "\<exists>s. calculate 1 2 0 sample_hours sample_employee None = Inr s
     \<and> stub_amounts sample_employee None (rcents (hourly_pay (dval (Dec 2150 (-2))) (raw_hours sample_hours))) s"
  by (rule calculate_hourly_exact [OF sample_hours_ok sample_calc_inputs(1)])
    (simp_all add: sample_employee_def amount_def mag_le_def dval_def)

lemma calculate_salary:
  assumes "raw_ok raw" "calc_inputs emp override" "emp_pay_type emp = Salary"
    "annual_salary emp = Some a" "amount (10 ^ 9) a" "dexp a = -2"
  shows "\<exists>s g. calculate new_id new_run now raw emp override = Inr s \<and> stub_amounts emp override g s
     \<and> \<bar>g - (rcents (dval a / of_nat (pay_periods_per_year emp))
            + dval a / 2080 * (raw_hours raw HoursVacation + raw_hours raw HoursSick + raw_hours raw HoursHoliday))\<bar> \<le> 1 / 100"
proof -
  obtain h where h: "resolved_hours raw = Inr h" "hours_ok h" "\<And>f. dval (hours_at h f) = raw_hours raw f"
    using raw_ok_resolved [OF assms(1)] by blast
  have p: "0 < pay_periods_per_year emp" "pay_periods_per_year emp \<le> 10000"
    using assms(2) by (simp_all add: calc_inputs_def withholding_inputs_def)
  obtain g where g: "salary_gross h emp = Inr (Dec g (-2))" "0 \<le> g" "g \<le> 10 ^ 14"
      "\<bar>of_int g / 100 - (rcents (dval a / of_nat (pay_periods_per_year emp)) + dval a / 2080 * leave_total h)\<bar> \<le> 1 / 100"
    using salary_gross_close [OF h(2) assms(4-6) p] by blast
  from calculate_from_gross [OF h(1) _ g(2,3) assms(2), of new_id new_run now] g(1) assms(3)
  obtain s where "calculate new_id new_run now raw emp override = Inr s" "stub_amounts emp override (of_int g / 100) s"
    unfolding returns_def by auto
  with g(4) show ?thesis unfolding leave_total_def h(3) by blast
qed

text \<open>C30. A salaried paystub: \<open>calculate\<close> returns, its gross is within a cent of the rounded
  period salary plus the leave hours at the implied hourly rate annual / 2080 whatever the
  pay frequency, and everything below gross is exact and ties out.\<close>

theorem calculate_salary_close:
  assumes "raw_ok raw" "calc_inputs emp override" "emp_pay_type emp = Salary"
    "annual_salary emp = Some a" "amount (10 ^ 9) a" "dexp a = -2"
  shows "\<exists>s g. calculate new_id new_run now raw emp override = Inr s \<and> stub_amounts emp override g s
     \<and> \<bar>g - (rcents (dval a / of_nat (pay_periods_per_year emp))
            + dval a / 2080 * (raw_hours raw HoursVacation + raw_hours raw HoursSick + raw_hours raw HoursHoliday))\<bar> \<le> 1 / 100"
  by (rule calculate_salary [OF assms])

theorem calculate_salary_close_witness:
  "\<exists>s g. calculate 1 2 0 sample_hours sample_salaried None = Inr s \<and> stub_amounts sample_salaried None g s
     \<and> \<bar>g - (rcents (dval (Dec 6200000 (-2)) / of_nat (pay_periods_per_year sample_salaried))
            + dval (Dec 6200000 (-2)) / 2080 * (raw_hours sample_hours HoursVacation + raw_hours sample_hours HoursSick
                + raw_hours sample_hours HoursHoliday))\<bar> \<le> 1 / 100"
  by (rule calculate_salary_close [OF sample_hours_ok sample_calc_inputs(2)])
    (simp_all add: sample_salaried_def sample_employee_def amount_def mag_le_def dval_def)

text \<open>C36. The seam that guards the engine: the hours dictionary is accepted exactly when every
  key is one of the five fields and every field coerces, a missing or null field reading as
  zero; what is accepted is never negative, and neither a Boolean nor a float gets through.\<close>

theorem hours_seam:
  "((\<exists>h. resolved_hours raw = Inr h) \<longleftrightarrow> keys_known raw \<and> (\<forall>f. \<exists>d. to_decimal (raw_value raw f) = Inr d))
   \<and> (\<forall>h f b. resolved_hours raw = Inr h \<longrightarrow> 0 \<le> coef (hours_at h f) \<and> raw_value raw f \<noteq> HFloat
        \<and> raw_value raw f \<noteq> HBool b \<and> (map_of raw (field_name f) = None \<longrightarrow> hours_at h f = dec_zero))"
proof -
  have "\<exists>h. resolved_hours raw = Inr h"
    if k: "keys_known raw" "\<forall>f. \<exists>d. to_decimal (raw_value raw f) = Inr d"
  proof -
    define h where "h = map (\<lambda>f. (f, projr (to_decimal (raw_value raw f)))) HOURS_FIELDS"
    have hf: "hours_at h f = projr (to_decimal (raw_value raw f))" for f
      by (cases f) (simp_all add: h_def hours_at_def HOURS_FIELDS_def)
    have "to_decimal (raw_value raw f) = Inr (hours_at h f)" for f
      using k(2) unfolding hf by (metis sum.sel(2))
    moreover have "map fst h = HOURS_FIELDS" by (simp add: h_def comp_def)
    ultimately have "resolved_hours raw = Inr h" using k(1) unfolding resolved_hours_Inr by blast
    then show ?thesis ..
  qed
  moreover have "0 \<le> coef d \<and> v \<noteq> HFloat \<and> v \<noteq> HBool b" if "to_decimal v = Inr d" for v d b
    using to_decimal_nonneg [OF that] that by (auto simp: to_decimal_def)
  moreover have "to_decimal (raw_value raw f) = Inr dec_zero" if "map_of raw (field_name f) = None" for f
    using that by (simp add: raw_value_def to_decimal_def)
  ultimately show ?thesis unfolding resolved_hours_Inr by (metis sum.inject(2))
qed

theorem hours_seam_witness:
  "\<exists>h. resolved_hours sample_hours = Inr h \<and> hours_at h HoursVacation = dec_zero \<and> 0 \<le> coef (hours_at h HoursOvertime)"
proof -
  obtain h where h: "resolved_hours sample_hours = Inr h" using raw_ok_resolved [OF sample_hours_ok] by blast
  have "map_of sample_hours (field_name HoursVacation) = None" by (simp add: sample_hours_def)
  then show ?thesis using hours_seam [of sample_hours] h by blast
qed

text \<open>
  A closed fact about the arithmetic as written: the leave pay divides before it multiplies.
  13 hours of a salary of 30013.60 are worth 187.585 exactly, which half-up is 187.59, and
  the code pays 187.58.
\<close>

lemma leave_pay_half_cent:
  "bind_res (dec_div (Dec 3001360 (-2)) (Dec 2080 0)) (\<lambda>q. money (dec_mul q (Dec 13 0))) = Inr (Dec 18758 (-2))"
  "dval (Dec 3001360 (-2)) / 2080 * 13 = 187585 / 1000" "round_cents (187585 / 1000) = 18759"
  by (code_simp, simp add: dval_def, simp add: round_cents_def floor_eq_iff)

text \<open>Nothing keeps net pay from going negative: FICA is taken on gross, so for every hourly
  employee a 401k rate of 1.00, which the extraction model accepts as an override, makes
  \<open>calculate\<close> return a paystub whose net pay is below zero and which passes the backstop.\<close>

theorem full_deferral_goes_negative:
  assumes "raw_ok raw" "calc_inputs emp override" "emp_pay_type emp = Hourly"
    "hourly_rate emp = Some r" "amount (10 ^ 5) r" "dval (rate_used emp override) = 1"
    "1 \<le> hourly_pay (dval r) (raw_hours raw)"
  shows "\<exists>s. calculate new_id new_run now raw emp override = Inr s \<and> dval (net_pay s) < 0"
proof -
  let ?g = "rcents (hourly_pay (dval r) (raw_hours raw))"
  obtain s where s: "calculate new_id new_run now raw emp override = Inr s" "stub_amounts emp override ?g s"
    using calculate_hourly [OF assms(1-5)] by blast
  have g: "1 \<le> ?g" using rcents_mono [OF assms(7)] rcents_id [of 100] by simp
  have k: "rcents (?g * 1) = ?g" unfolding rcents_def by simp
  have ss: "0 \<le> rcents (min ?g (ss_room emp) * (62 / 1000))"
    using g by (intro rcents_nonneg) (simp add: ss_room_def)
  have "145 / 10000 \<le> ?g * (145 / 10000)" using g by simp
  then have "of_int 1 / 100 \<le> ?g * (145 / 10000)" by linarith
  from rcents_mono [OF this] have m: "1 / 100 \<le> rcents (?g * (145 / 10000))"
    unfolding rcents_id by simp
  from s(2) k ss m have "dval (net_pay s) < 0"
    by (simp add: stub_amounts_def assms(6) worksheet_1A_def Let_def)
  with s(1) show ?thesis by blast
qed

theorem full_deferral_goes_negative_witness:
  "\<exists>s. calculate 1 2 0 sample_hours sample_employee (Some (Dec 100 (-2))) = Inr s \<and> dval (net_pay s) < 0"
proof (rule full_deferral_goes_negative [OF sample_hours_ok])
  show "calc_inputs sample_employee (Some (Dec 100 (-2)))"
    using sample_calc_inputs(1) by (simp add: calc_inputs_def rate_used_def dval_def)
  show "1 \<le> hourly_pay (dval (Dec 2150 (-2))) (raw_hours sample_hours)"
    by (simp add: hourly_pay_def raw_hours_def raw_value_def sample_hours_def to_decimal_def dec_zero_def
        dec_eval dval_def)
qed (simp_all add: sample_employee_def amount_def mag_le_def dval_def rate_used_def)

end
