(* ===== verification/Reconcile.thy ===== *)
theory Reconcile
  imports Models
begin

section \<open>Name reconciliation\<close>

text \<open>
  \<open>app/pipeline/reconcile_names.py\<close>: the deterministic resolver. Unicode case folding and NFC
  normalisation are not defined over code points here: they are the two fields of a record
  every definition takes; nothing is assumed of them.
\<close>

record unicode =
  casefold :: "string \<Rightarrow> string"
  nfc :: "string \<Rightarrow> string"

definition normalize_name :: "unicode \<Rightarrow> string \<Rightarrow> string" where
  "normalize_name u name = py_join '' '' (py_split (nfc u (casefold u name)))"

definition name_is :: "unicode \<Rightarrow> string \<Rightarrow> employee \<Rightarrow> bool" where
  "name_is u key e \<longleftrightarrow> normalize_name u (full_name e) = key"

definition alias_is :: "unicode \<Rightarrow> string \<Rightarrow> employee \<Rightarrow> bool" where
  "alias_is u key e \<longleftrightarrow> list_ex (\<lambda>a. normalize_name u a = key) (known_aliases e)"

definition deterministic_match :: "unicode \<Rightarrow> string \<Rightarrow> roster \<Rightarrow> name_match option" where
  "deterministic_match u name r =
     (let key = normalize_name u name;
          exact_ids = map emp_id (filter (name_is u key) (roster_employees r));
          alias_ids = map emp_id (filter (alias_is u key) (roster_employees r))
      in case remdups (exact_ids @ alias_ids) of
           [i] \<Rightarrow>
             if i \<in> set exact_ids
             then Some \<lparr>match_name = name, matched_employee_id = Some i, match_source_of = SrcExact,
                        resolved = True, match_reason = ''exact match''\<rparr>
             else Some \<lparr>match_name = name, matched_employee_id = Some i, match_source_of = SrcAlias,
                        resolved = True, match_reason = ''known alias''\<rparr>
         | _ \<Rightarrow> None)"

definition unresolved :: "string \<Rightarrow> name_match" where
  "unresolved name =
     \<lparr>match_name = name, matched_employee_id = None, match_source_of = SrcNone, resolved = False,
      match_reason = ''no deterministic or stored-alias match''\<rparr>"

definition override_id :: "roster \<Rightarrow> (string, string) dict \<Rightarrow> string \<Rightarrow> uuid option" where
  "override_id r overrides name =
     (case map_of overrides name of
        None \<Rightarrow> None
      | Some s \<Rightarrow>
          (case uuid_parse s of
             None \<Rightarrow> None
           | Some i \<Rightarrow> if i \<in> emp_id ` set (roster_employees r) then Some i else None))"

definition resolve_name :: "unicode \<Rightarrow> roster \<Rightarrow> (string, string) dict \<Rightarrow> string \<Rightarrow> name_match" where
  "resolve_name u r overrides name =
     (case override_id r overrides name of
        Some i \<Rightarrow> \<lparr>match_name = name, matched_employee_id = Some i, match_source_of = SrcOperator,
                   resolved = True, match_reason = ''operator-resolved''\<rparr>
      | None \<Rightarrow> (case deterministic_match u name r of Some m \<Rightarrow> m | None \<Rightarrow> unresolved name))"

definition reconcile_names :: "unicode \<Rightarrow> string list \<Rightarrow> roster \<Rightarrow> (string, string) dict \<Rightarrow> name_match list" where
  "reconcile_names u names r overrides = map (resolve_name u r overrides) names"

subsection \<open>Candidates\<close>

definition carries :: "unicode \<Rightarrow> string \<Rightarrow> employee \<Rightarrow> bool" where
  "carries u name e \<longleftrightarrow> name_is u (normalize_name u name) e \<or> alias_is u (normalize_name u name) e"

lemma remdups_singleton: "remdups xs = [x] \<longleftrightarrow> set xs = {x}"
proof
  assume "remdups xs = [x]"
  then have "set (remdups xs) = {x}" by simp
  then show "set xs = {x}" by simp
next
  assume s: "set xs = {x}"
  then have "length (remdups xs) = 1" by (simp add: length_remdups_card_conv)
  then obtain y where "remdups xs = [y]" by (auto simp: length_Suc_conv)
  moreover from this have "set xs = {y}" by (metis set_remdups list.set(1,2))
  ultimately show "remdups xs = [x]" using s by auto
qed

lemma deterministic_match_iff:
  "deterministic_match u name r = Some m \<longleftrightarrow>
     (\<exists>i. emp_id ` {e \<in> set (roster_employees r). carries u name e} = {i}
        \<and> m = \<lparr>match_name = name, matched_employee_id = Some i,
               match_source_of = (if \<exists>e \<in> set (roster_employees r). name_is u (normalize_name u name) e \<and> emp_id e = i
                                  then SrcExact else SrcAlias), resolved = True,
               match_reason = (if \<exists>e \<in> set (roster_employees r). name_is u (normalize_name u name) e \<and> emp_id e = i
                                  then ''exact match'' else ''known alias'')\<rparr>)"
proof -
  let ?n = "normalize_name u name"
  let ?ex = "map emp_id (filter (name_is u ?n) (roster_employees r))"
  let ?ids = "?ex @ map emp_id (filter (alias_is u ?n) (roster_employees r))"
  have s: "set ?ids = emp_id ` {e \<in> set (roster_employees r). carries u name e}"
    by (auto simp: carries_def)
  have ex: "i \<in> set ?ex \<longleftrightarrow> (\<exists>e \<in> set (roster_employees r). name_is u ?n e \<and> emp_id e = i)" for i by auto
  show ?thesis
  proof (cases "\<exists>i. set ?ids = {i}")
    case True
    then obtain i where i: "set ?ids = {i}" by blast
    then have "remdups ?ids = [i]" by (simp only: remdups_singleton)
    then show ?thesis
      using i unfolding deterministic_match_def Let_def s [symmetric] ex [symmetric] by auto
  next
    case False
    then have "remdups ?ids \<noteq> [i]" for i by (simp only: remdups_singleton) blast
    then have "deterministic_match u name r = None"
      unfolding deterministic_match_def Let_def by (auto split: list.split)
    with False show ?thesis unfolding s by auto
  qed
qed

lemma unique_carrier:
  assumes "roster_valid r"
  shows "emp_id ` {e \<in> set (roster_employees r). carries u name e} = {i} \<longleftrightarrow>
    (\<exists>e \<in> set (roster_employees r). emp_id e = i \<and> carries u name e
       \<and> (\<forall>e' \<in> set (roster_employees r). carries u name e' \<longrightarrow> e' = e))"
    (is "?l \<longleftrightarrow> ?r")
proof
  assume l: ?l
  then have "i \<in> emp_id ` {e \<in> set (roster_employees r). carries u name e}" by simp
  then obtain e where e: "e \<in> set (roster_employees r)" "carries u name e" "emp_id e = i" by blast
  have "e' = e" if "e' \<in> set (roster_employees r)" "carries u name e'" for e'
  proof -
    have "emp_id e' \<in> emp_id ` {e \<in> set (roster_employees r). carries u name e}" using that by blast
    then have "emp_id e' = i" unfolding l by simp
    then show ?thesis using roster_valid_unique [OF assms that(1) e(1)] e(3) by simp
  qed
  with e show ?r by blast
next
  assume ?r
  then show ?l by blast
qed

lemma deterministic_match_id:
  "(\<exists>m. deterministic_match u name r = Some m \<and> matched_employee_id m = Some i)
     \<longleftrightarrow> emp_id ` {e \<in> set (roster_employees r). carries u name e} = {i}"
proof
  assume "\<exists>m. deterministic_match u name r = Some m \<and> matched_employee_id m = Some i"
  then show "emp_id ` {e \<in> set (roster_employees r). carries u name e} = {i}"
    unfolding deterministic_match_iff by (elim exE conjE) simp
next
  assume "emp_id ` {e \<in> set (roster_employees r). carries u name e} = {i}"
  then show "\<exists>m. deterministic_match u name r = Some m \<and> matched_employee_id m = Some i"
    unfolding deterministic_match_iff by (intro exI conjI) (assumption, rule refl, simp)
qed

lemma deterministic_match_carrier:
  "deterministic_match u name r = Some m \<Longrightarrow>
   \<exists>e \<in> set (roster_employees r). matched_employee_id m = Some (emp_id e) \<and> carries u name e"
  unfolding deterministic_match_iff by (clarsimp, blast)

lemma deterministic_match_valid: "deterministic_match u name r = Some m \<Longrightarrow> name_match_valid m \<and> match_name m = name"
  unfolding deterministic_match_iff by (elim exE conjE) (simp add: name_match_valid_def)

lemma override_id_on_roster: "override_id r ov name = Some i \<Longrightarrow> i \<in> emp_id ` set (roster_employees r)"
  by (auto simp: override_id_def split: option.splits if_splits)

lemma resolve_name_name [simp]: "match_name (resolve_name u r ov name) = name"
  by (auto simp: resolve_name_def unresolved_def deterministic_match_valid split: option.split)

lemma resolve_name_valid: "name_match_valid (resolve_name u r ov name)"
proof (cases "override_id r ov name")
  case None
  then show ?thesis
    by (cases "deterministic_match u name r")
      (simp_all add: resolve_name_def deterministic_match_valid, simp add: unresolved_def name_match_valid_def)
qed (simp add: resolve_name_def name_match_valid_def)

lemma resolve_name_on_roster:
  "matched_employee_id (resolve_name u r ov name) = Some i \<Longrightarrow> i \<in> emp_id ` set (roster_employees r)"
  by (auto simp: resolve_name_def unresolved_def override_id_on_roster
      dest!: deterministic_match_carrier split: option.splits)

lemma resolve_name_operator:
  "match_source_of (resolve_name u r ov name) = SrcOperator \<longleftrightarrow> override_id r ov name \<noteq> None"
proof (cases "override_id r ov name")
  case None
  have "match_source_of m \<noteq> SrcOperator" if "deterministic_match u name r = Some m" for m
    using that unfolding deterministic_match_iff by (elim exE conjE) simp
  with None show ?thesis by (auto simp: resolve_name_def unresolved_def split: option.split)
qed (simp add: resolve_name_def)

lemma matched_iff_resolved:
  "name_match_valid m \<Longrightarrow> matched_employee_id m \<noteq> None \<longleftrightarrow> resolved m"
  by (auto simp: name_match_valid_def split: if_splits)

lemma reconcile_names_in: "m \<in> set (reconcile_names u ns r ov) \<Longrightarrow> \<exists>n \<in> set ns. m = resolve_name u r ov n"
  by (auto simp: reconcile_names_def)

lemma reconcile_names_same:
  "m \<in> set (reconcile_names u ns r ov) \<Longrightarrow> m' \<in> set (reconcile_names u ns r ov) \<Longrightarrow> match_name m = match_name m' \<Longrightarrow> m = m'"
  by (auto simp: reconcile_names_def)

lemma reconcile_names_matches:
  "map match_name (reconcile_names u ns r ov) = ns" "length (reconcile_names u ns r ov) = length ns"
  by (simp_all add: reconcile_names_def comp_def)


subsection \<open>Properties\<close>

text \<open>An instance of the Unicode operations that is exact on ASCII.\<close>

definition ascii_lower :: "char \<Rightarrow> char" where
  "ascii_lower c = (if (65::nat) \<le> of_char c \<and> of_char c \<le> (90::nat) then char_of (of_char c + 32 :: nat) else c)"

definition ascii :: unicode where
  "ascii = \<lparr>casefold = map ascii_lower, nfc = id\<rparr>"

text \<open>C6. The resolver never guesses and never misses: on a valid roster a name resolves to an
  employee exactly when that employee is the only one who carries it, as full name or as
  alias, across both tiers together.\<close>

theorem resolves_iff_unique_carrier:
  assumes "roster_valid r"
  shows "(\<exists>m. deterministic_match u name r = Some m \<and> matched_employee_id m = Some i) \<longleftrightarrow>
    (\<exists>e \<in> set (roster_employees r). emp_id e = i \<and> carries u name e
       \<and> (\<forall>e' \<in> set (roster_employees r). carries u name e' \<longrightarrow> e' = e))"
  unfolding deterministic_match_id unique_carrier [OF assms] ..

lemma sample_carries:
  "carries ascii ''  m.  CHEN '' (hd (roster_employees sample_roster))"
  "\<not> carries ascii ''  m.  CHEN '' (roster_employees sample_roster ! 1)"
  by code_simp+

theorem resolves_iff_unique_carrier_witness:
  "\<exists>m. deterministic_match ascii ''  m.  CHEN '' sample_roster = Some m \<and> matched_employee_id m = Some 1"
proof -
  have "\<forall>e \<in> set (roster_employees sample_roster). carries ascii ''  m.  CHEN '' e \<longrightarrow> e = sample_employee"
    "carries ascii ''  m.  CHEN '' sample_employee"
    using sample_carries by (simp_all add: sample_roster_def)
  moreover have "sample_employee \<in> set (roster_employees sample_roster)" "emp_id sample_employee = 1"
    by (simp_all add: sample_roster_def, simp add: sample_employee_def)
  ultimately show ?thesis
    using resolves_iff_unique_carrier [OF sample_roster_valid, of ascii "''  m.  CHEN ''" 1] by blast
qed

text \<open>Whom the operator's map gives a name, and who is the only employee to carry it.\<close>

definition operator_choice :: "roster \<Rightarrow> (string, string) dict \<Rightarrow> string \<Rightarrow> uuid \<Rightarrow> bool" where
  "operator_choice r ov n i \<longleftrightarrow> (\<exists>s. map_of ov n = Some s \<and> uuid_parse s = Some i \<and> i \<in> emp_id ` set (roster_employees r))"

definition only_carrier :: "unicode \<Rightarrow> roster \<Rightarrow> string \<Rightarrow> uuid \<Rightarrow> bool" where
  "only_carrier u r n i \<longleftrightarrow> (\<exists>e \<in> set (roster_employees r). emp_id e = i \<and> carries u n e
     \<and> (\<forall>e' \<in> set (roster_employees r). carries u n e' \<longrightarrow> e' = e))"

lemma operator_choice_iff: "operator_choice r ov n i \<longleftrightarrow> override_id r ov n = Some i"
  by (auto simp: operator_choice_def override_id_def split: option.splits)

lemma only_carrier_iff:
  "roster_valid r \<Longrightarrow> only_carrier u r n i \<longleftrightarrow> (\<exists>m. deterministic_match u n r = Some m \<and> matched_employee_id m = Some i)"
  unfolding only_carrier_def deterministic_match_id unique_carrier ..

lemma resolve_name_employee:
  assumes "roster_valid r"
  shows "matched_employee_id (resolve_name u r ov n) = Some i
    \<longleftrightarrow> operator_choice r ov n i \<or> (\<nexists>k. operator_choice r ov n k) \<and> only_carrier u r n i"
  by (auto simp: resolve_name_def operator_choice_iff only_carrier_iff [OF assms] unresolved_def split: option.split)

lemma resolve_name_exact:
  "match_source_of (resolve_name u r ov n) = SrcExact \<longleftrightarrow> (\<nexists>k. operator_choice r ov n k)
     \<and> (\<exists>e \<in> set (roster_employees r). matched_employee_id (resolve_name u r ov n) = Some (emp_id e)
          \<and> normalize_name u (full_name e) = normalize_name u n)"
proof (cases "override_id r ov n")
  case None
  have "match_source_of m = SrcExact \<longleftrightarrow> (\<exists>e \<in> set (roster_employees r). matched_employee_id m = Some (emp_id e)
          \<and> normalize_name u (full_name e) = normalize_name u n)" if "deterministic_match u n r = Some m" for m
    using that unfolding deterministic_match_iff by (elim exE conjE) (auto simp: name_is_def)
  with None show ?thesis by (auto simp: resolve_name_def operator_choice_iff unresolved_def split: option.split)
qed (auto simp: resolve_name_def operator_choice_iff)

text \<open>C28. Reconciliation answers every submitted name, in order, with a record the model accepts, and the employee
  of a record is determined: where the operator's map gives the name the id of a roster employee it is that
  employee; otherwise it is the only employee who carries the name, as full name or as alias, and a name without one
  has no employee. The source says which of these it was.\<close>

theorem reconcile_names_sound:
  assumes "roster_valid r"
  shows "map match_name (reconcile_names u ns r ov) = ns
   \<and> (\<forall>m \<in> set (reconcile_names u ns r ov). name_match_valid m
        \<and> (\<forall>i. matched_employee_id m = Some i \<longleftrightarrow> operator_choice r ov (match_name m) i
              \<or> (\<nexists>k. operator_choice r ov (match_name m) k) \<and> only_carrier u r (match_name m) i)
        \<and> (match_source_of m = SrcOperator \<longleftrightarrow> (\<exists>k. operator_choice r ov (match_name m) k))
        \<and> (match_source_of m = SrcExact \<longleftrightarrow> (\<nexists>k. operator_choice r ov (match_name m) k)
              \<and> (\<exists>e \<in> set (roster_employees r). matched_employee_id m = Some (emp_id e)
                    \<and> normalize_name u (full_name e) = normalize_name u (match_name m))))"
proof (intro conjI ballI allI)
  fix m assume "m \<in> set (reconcile_names u ns r ov)"
  then obtain n where m: "m = resolve_name u r ov n" using reconcile_names_in by blast
  show "name_match_valid m" unfolding m by (rule resolve_name_valid)
  show "matched_employee_id m = Some i \<longleftrightarrow> operator_choice r ov (match_name m) i
      \<or> (\<nexists>k. operator_choice r ov (match_name m) k) \<and> only_carrier u r (match_name m) i" for i
    unfolding m resolve_name_name by (rule resolve_name_employee [OF assms])
  show "match_source_of m = SrcOperator \<longleftrightarrow> (\<exists>k. operator_choice r ov (match_name m) k)"
    unfolding m resolve_name_name resolve_name_operator operator_choice_iff by simp
  show "match_source_of m = SrcExact \<longleftrightarrow> (\<nexists>k. operator_choice r ov (match_name m) k)
      \<and> (\<exists>e \<in> set (roster_employees r). matched_employee_id m = Some (emp_id e)
            \<and> normalize_name u (full_name e) = normalize_name u (match_name m))"
    unfolding m resolve_name_name by (rule resolve_name_exact)
qed (rule reconcile_names_matches(1))

theorem reconcile_names_sound_witness:
  "let ms = reconcile_names ascii [''Dave'', ''  m.  CHEN ''] sample_roster [(''Dave'', uuid_str 1)]
   in map matched_employee_id ms = [Some 1, Some 1] \<and> map match_source_of ms = [SrcOperator, SrcAlias]"
proof -
  let ?ms = "reconcile_names ascii [''Dave'', ''  m.  CHEN ''] sample_roster [(''Dave'', uuid_str 1)]"
  obtain a b where ms: "?ms = [a, b]" "match_name a = ''Dave''" "match_name b = ''  m.  CHEN ''" by (simp add: reconcile_names_def)
  note t = reconcile_names_sound [OF sample_roster_valid, of ascii "[''Dave'', ''  m.  CHEN '']" "[(''Dave'', uuid_str 1)]", unfolded ms(1)]
  have dave: "operator_choice sample_roster [(''Dave'', uuid_str 1)] ''Dave'' 1"
    by (simp add: operator_choice_def sample_roster_def sample_employee_def)
  have chen: "\<not> operator_choice sample_roster [(''Dave'', uuid_str 1)] ''  m.  CHEN '' k" for k
    by (simp add: operator_choice_def)
  have only: "only_carrier ascii sample_roster ''  m.  CHEN '' 1"
    using sample_carries by (auto simp: only_carrier_def sample_roster_def sample_employee_def)
  have id: "matched_employee_id a = Some 1" "matched_employee_id b = Some 1" using t ms dave chen only by simp_all
  have "match_source_of a = SrcOperator" using t ms dave by auto
  moreover have "match_source_of b \<noteq> SrcOperator" using t ms chen by simp
  moreover have "match_source_of b \<noteq> SrcExact"
  proof -
    have "\<not> (\<exists>e \<in> set (roster_employees sample_roster). Some 1 = Some (emp_id e)
        \<and> normalize_name ascii (full_name e) = normalize_name ascii ''  m.  CHEN '')" by code_simp
    then show ?thesis using t ms chen id by auto
  qed
  moreover have "match_source_of b \<noteq> SrcNone" using t id by (auto simp: name_match_valid_def)
  ultimately show ?thesis using ms id by (cases "match_source_of b") simp_all
qed

end
