(* ===== verification/Validate.thy ===== *)
theory Validate
  imports Reconcile
begin

section \<open>Field validation and cross-round detectors\<close>

text \<open>
  \<open>app/pipeline/validate.py\<close>: the issues that stop a run, and the two detectors that compare
  the hours of one person across a clarification round.
\<close>

definition is_paid :: "decimal option \<Rightarrow> bool" where
  "is_paid v = (case v of None \<Rightarrow> False | Some d \<Rightarrow> dec_lt dec_zero d)"

text \<open>The nested search loop both roster lookups share: the first match of that name whose id is
  on the roster.\<close>

fun lookup_matched :: "string \<Rightarrow> name_match list \<Rightarrow> roster \<Rightarrow> employee option" where
  "lookup_matched nm [] r = None"
| "lookup_matched nm (m # ms) r =
     (if match_name m = nm \<and> matched_employee_id m \<noteq> None
      then (case first_match (\<lambda>e. Some (emp_id e) = matched_employee_id m) (roster_employees r) of
              Some e \<Rightarrow> Some e
            | None \<Rightarrow> lookup_matched nm ms r)
      else lookup_matched nm ms r)"

definition employee_pay_type :: "string \<Rightarrow> name_match list \<Rightarrow> roster \<Rightarrow> pay_type option" where
  "employee_pay_type nm ms r = map_option emp_pay_type (lookup_matched nm ms r)"

definition employee_pay_periods_per_year :: "string \<Rightarrow> name_match list \<Rightarrow> roster \<Rightarrow> nat option" where
  "employee_pay_periods_per_year nm ms r = map_option pay_periods_per_year (lookup_matched nm ms r)"

text \<open>\<open>{m.submitted_name: m.matched_employee_id for m in matches if m.resolved and ...}\<close>\<close>

definition name_to_id :: "name_match list \<Rightarrow> (string, uuid) dict" where
  "name_to_id ms =
     dict_of (List.map_filter
       (\<lambda>m. if resolved m then map_option (\<lambda>i. (match_name m, i)) (matched_employee_id m) else None) ms)"

definition id_keyed :: "extracted \<Rightarrow> name_match list \<Rightarrow> (uuid, extracted_employee) dict" where
  "id_keyed x ms =
     dict_of (List.map_filter
       (\<lambda>e. map_option (\<lambda>i. (i, e)) (map_of (name_to_id ms) (submitted_name e))) (employees x))"

definition common_ids :: "(uuid, extracted_employee) dict \<Rightarrow> (uuid, extracted_employee) dict \<Rightarrow> uuid list" where
  "common_ids a b = sort_key uuid_str (filter (\<lambda>i. map_of b i \<noteq> None) (map fst a))"

definition pair_by_employee_id ::
  "extracted \<Rightarrow> extracted \<Rightarrow> name_match list \<Rightarrow> name_match list \<Rightarrow> (extracted_employee \<times> extracted_employee) list" where
  "pair_by_employee_id original resumed prior_matches current_matches =
     (let id_to_orig = id_keyed original prior_matches; id_to_resumed = id_keyed resumed current_matches
      in map (\<lambda>i. (the (map_of id_to_orig i), the (map_of id_to_resumed i))) (common_ids id_to_orig id_to_resumed))"

definition field_drop :: "extracted_employee \<Rightarrow> extracted_employee \<Rightarrow> hours_field \<Rightarrow> raw_field_drop option" where
  "field_drop orig new f =
     (case get_hours orig f of
        None \<Rightarrow> None
      | Some v \<Rightarrow>
          if is_paid (Some v) \<and> \<not> is_paid (get_hours new f)
          then Some \<lparr>drop_name = submitted_name new, drop_field = f, drop_original = v, drop_resumed = get_hours new f\<rparr>
          else None)"

definition detect_field_regression ::
  "extracted \<Rightarrow> extracted \<Rightarrow> name_match list option \<Rightarrow> name_match list \<Rightarrow> raw_field_drop list" where
  "detect_field_regression original resumed prior_matches current_matches =
     (case prior_matches of
        None \<Rightarrow> []
      | Some pm \<Rightarrow>
          concat (map (\<lambda>(orig, new). List.map_filter (field_drop orig new) HOURS_FIELDS)
            (pair_by_employee_id original resumed pm current_matches)))"

definition field_change :: "extracted_employee \<Rightarrow> extracted_employee \<Rightarrow> hours_field \<Rightarrow> hours_change option" where
  "field_change orig new f =
     (case (get_hours orig f, get_hours new f) of
        (Some v, Some w) \<Rightarrow>
          if is_paid (Some v) \<and> is_paid (Some w) \<and> \<not> dec_eq v w
          then Some \<lparr>change_name = submitted_name new, change_field = f, change_original = v, change_resumed = w\<rparr>
          else None
      | _ \<Rightarrow> None)"

definition detect_hours_changes ::
  "extracted \<Rightarrow> extracted \<Rightarrow> name_match list option \<Rightarrow> name_match list \<Rightarrow> hours_change list" where
  "detect_hours_changes original resumed prior_matches current_matches =
     (case prior_matches of
        None \<Rightarrow> []
      | Some pm \<Rightarrow>
          concat (map (\<lambda>(orig, new). List.map_filter (field_change orig new) HOURS_FIELDS)
            (pair_by_employee_id original resumed pm current_matches)))"

subsection \<open>The issues\<close>

definition regression_issue ::
  "(string, uuid) dict \<Rightarrow> (string \<times> string) list \<Rightarrow> raw_field_drop \<Rightarrow> validation_issue option" where
  "regression_issue ids resolved_drops d =
     (case map_of ids (drop_name d) of
        None \<Rightarrow> None
      | Some i \<Rightarrow>
          if (uuid_str i, field_name (drop_field d)) \<in> set resolved_drops then None
          else Some \<lparr>issue_field = drop_name d @ ''.'' @ field_name (drop_field d), issue_kind = FieldRegression,
                     issue_text = MsgRegression (drop_field d) (drop_original d) (drop_resumed d)\<rparr>)"

definition any_hours :: "extracted_employee \<Rightarrow> bool" where
  "any_hours e = list_ex (\<lambda>f. is_paid (get_hours e f)) HOURS_FIELDS"

definition missing_issue :: "name_match list \<Rightarrow> roster \<Rightarrow> extracted_employee \<Rightarrow> validation_issue option" where
  "missing_issue ms r e =
     (if any_hours e then None
      else if employee_pay_type (submitted_name e) ms r = Some Hourly
      then Some \<lparr>issue_field = submitted_name e @ ''.hours_regular'', issue_kind = Missing,
                 issue_text = MsgNoHours (submitted_name e)\<rparr>
      else None)"

definition overtime_issue :: "name_match list \<Rightarrow> roster \<Rightarrow> extracted_employee \<Rightarrow> validation_issue option" where
  "overtime_issue ms r e =
     (case employee_pay_periods_per_year (submitted_name e) ms r of
        None \<Rightarrow> None
      | Some ppy \<Rightarrow>
          (let ot_missing = (\<not> is_paid (hours_overtime e))
           in case hours_regular e of
                None \<Rightarrow> None
              | Some h \<Rightarrow>
                  if ppy = 52 \<and> dec_lt (Dec 40 0) h \<and> ot_missing
                  then Some \<lparr>issue_field = submitted_name e @ ''.hours_overtime'', issue_kind = Missing,
                             issue_text = MsgWeeklyOvertime (submitted_name e) h\<rparr>
                  else if ppy = 26 \<and> dec_lt (Dec 80 0) h \<and> ot_missing
                  then Some \<lparr>issue_field = submitted_name e @ ''.hours_overtime'', issue_kind = Missing,
                             issue_text = MsgBiweeklyOvertime (submitted_name e) h\<rparr>
                  else None))"

definition validate ::
  "extracted \<Rightarrow> roster \<Rightarrow> name_match list \<Rightarrow> (string \<times> string) list \<Rightarrow> raw_field_drop list \<Rightarrow> validation_issue list" where
  "validate x r ms resolved_drops raw_field_drops =
     List.map_filter (regression_issue (name_to_id ms) resolved_drops) raw_field_drops
     @ List.map_filter (missing_issue ms r) (employees x)
     @ List.map_filter (overtime_issue ms r) (employees x)"

subsection \<open>Dictionaries keyed by name and by id\<close>

lemma in_map_filter: "y \<in> set (List.map_filter f xs) \<longleftrightarrow> (\<exists>x \<in> set xs. f x = Some y)"
  by (auto simp: List.map_filter_def image_iff)

lemma map_filter_Nil_iff: "List.map_filter f xs = [] \<longleftrightarrow> (\<forall>x \<in> set xs. f x = None)"
  by (auto simp: List.map_filter_def filter_empty_conv)

lemma distinct_dict_of: "distinct (map fst (dict_of kvs))"
proof -
  have "distinct (map fst d) \<Longrightarrow> distinct (map fst (fold (\<lambda>(k, v) d. AList.update k v d) kvs d))" for d
    by (induction kvs arbitrary: d) (auto simp: distinct_update)
  then show ?thesis by (simp add: dict_of_def)
qed

lemma dict_of_SomeD: "map_of (dict_of kvs) k = Some v \<Longrightarrow> (k, v) \<in> set kvs"
  by (simp add: map_of_rev_SomeD)

lemma dict_of_keys: "map_of (dict_of kvs) k \<noteq> None \<longleftrightarrow> k \<in> fst ` set kvs"
  by (simp add: map_of_eq_None_iff image_set [symmetric])

lemma name_to_id_SomeD:
  "map_of (name_to_id ms) n = Some i \<Longrightarrow> \<exists>m \<in> set ms. resolved m \<and> match_name m = n \<and> matched_employee_id m = Some i"
  unfolding name_to_id_def by (drule dict_of_SomeD) (auto simp: in_map_filter split: if_splits)

lemma id_keyed_SomeD:
  "map_of (id_keyed x ms) i = Some e \<Longrightarrow> e \<in> set (employees x) \<and> map_of (name_to_id ms) (submitted_name e) = Some i"
  unfolding id_keyed_def by (drule dict_of_SomeD) (auto simp: in_map_filter)

lemma id_keyed_dom:
  "map_of (id_keyed x ms) i \<noteq> None \<longleftrightarrow> (\<exists>e \<in> set (employees x). map_of (name_to_id ms) (submitted_name e) = Some i)"
  unfolding id_keyed_def dict_of_keys by (force simp: in_map_filter image_iff)

lemma common_ids_set: "set (common_ids a b) = {i. map_of a i \<noteq> None \<and> map_of b i \<noteq> None}"
  by (auto simp: common_ids_def map_of_eq_None_iff)

lemma pairs_ids:
  "(orig, new) \<in> set (pair_by_employee_id original resumed pm cm) \<longleftrightarrow>
     (\<exists>i. map_of (id_keyed original pm) i = Some orig \<and> map_of (id_keyed resumed cm) i = Some new)"
  by (auto simp: pair_by_employee_id_def Let_def common_ids_set image_iff)

lemma pairs_distinct_names: "distinct (map (submitted_name \<circ> snd) (pair_by_employee_id original resumed pm cm))"
proof -
  let ?a = "id_keyed original pm" and ?b = "id_keyed resumed cm"
  have "distinct (common_ids ?a ?b)"
    by (simp add: common_ids_def id_keyed_def distinct_dict_of)
  moreover have "inj_on (\<lambda>i. submitted_name (the (map_of ?b i))) (set (common_ids ?a ?b))"
  proof (rule inj_onI)
    fix i j assume ij: "i \<in> set (common_ids ?a ?b)" "j \<in> set (common_ids ?a ?b)"
      "submitted_name (the (map_of ?b i)) = submitted_name (the (map_of ?b j))"
    then obtain e e' where "map_of ?b i = Some e" "map_of ?b j = Some e'" by (auto simp: common_ids_set)
    with ij(3) id_keyed_SomeD [of resumed cm i e] id_keyed_SomeD [of resumed cm j e'] show "i = j" by simp
  qed
  ultimately show ?thesis
    by (simp add: pair_by_employee_id_def Let_def distinct_map comp_def)
qed

lemma pairs_same_name:
  assumes "(o1, n1) \<in> set (pair_by_employee_id x y pm cm)" "(o2, n2) \<in> set (pair_by_employee_id x y pm cm)"
    "submitted_name n1 = submitted_name n2"
  shows "o1 = o2 \<and> n1 = n2"
proof -
  have "inj_on (submitted_name \<circ> snd) (set (pair_by_employee_id x y pm cm))"
    using pairs_distinct_names by (simp add: distinct_map)
  from inj_onD [OF this _ assms(1,2)] assms(3) show ?thesis by simp
qed


subsection \<open>What the detectors report\<close>

lemma drop_in:
  "d \<in> set (detect_field_regression x y (Some pm) cm) \<longleftrightarrow>
     (\<exists>orig new f. (orig, new) \<in> set (pair_by_employee_id x y pm cm) \<and> field_drop orig new f = Some d)"
  by (auto simp: detect_field_regression_def in_map_filter)

lemma change_in:
  "c \<in> set (detect_hours_changes x y (Some pm) cm) \<longleftrightarrow>
     (\<exists>orig new f. (orig, new) \<in> set (pair_by_employee_id x y pm cm) \<and> field_change orig new f = Some c)"
  by (auto simp: detect_hours_changes_def in_map_filter)

lemma field_drop_Some:
  "field_drop orig new f = Some d \<longleftrightarrow> (\<exists>v. get_hours orig f = Some v \<and> is_paid (Some v) \<and> \<not> is_paid (get_hours new f)
     \<and> d = \<lparr>drop_name = submitted_name new, drop_field = f, drop_original = v, drop_resumed = get_hours new f\<rparr>)"
  by (auto simp: field_drop_def split: option.splits if_splits)

lemma field_change_Some:
  "field_change orig new f = Some c \<longleftrightarrow> (\<exists>v w. get_hours orig f = Some v \<and> get_hours new f = Some w
     \<and> is_paid (Some v) \<and> is_paid (Some w) \<and> \<not> dec_eq v w
     \<and> c = \<lparr>change_name = submitted_name new, change_field = f, change_original = v, change_resumed = w\<rparr>)"
  by (auto simp: field_change_def split: option.splits if_splits)

lemma is_paid_iff: "is_paid v \<longleftrightarrow> (\<exists>d. v = Some d \<and> 0 < dval d)"
  by (auto simp: is_paid_def dec_order split: option.split)

lemma drop_reported:
  assumes "(orig, new) \<in> set (pair_by_employee_id x y pm cm)" "get_hours orig f = Some v" "is_paid (Some v)"
  shows "(\<exists>d \<in> set (detect_field_regression x y (Some pm) cm). drop_name d = submitted_name new \<and> drop_field d = f)
    \<longleftrightarrow> \<not> is_paid (get_hours new f)"
proof
  assume "\<exists>d \<in> set (detect_field_regression x y (Some pm) cm). drop_name d = submitted_name new \<and> drop_field d = f"
  then show "\<not> is_paid (get_hours new f)"
    using pairs_same_name [OF _ assms(1)] by (force simp: drop_in field_drop_Some)
next
  assume "\<not> is_paid (get_hours new f)"
  then have "field_drop orig new f = Some \<lparr>drop_name = submitted_name new, drop_field = f, drop_original = v,
      drop_resumed = get_hours new f\<rparr>"
    using assms(2,3) by (simp add: field_drop_Some)
  then have "\<lparr>drop_name = submitted_name new, drop_field = f, drop_original = v, drop_resumed = get_hours new f\<rparr>
      \<in> set (detect_field_regression x y (Some pm) cm)" using assms(1) drop_in by blast
  then show "\<exists>d \<in> set (detect_field_regression x y (Some pm) cm). drop_name d = submitted_name new \<and> drop_field d = f"
    by force
qed

lemma change_reported:
  assumes "(orig, new) \<in> set (pair_by_employee_id x y pm cm)" "get_hours orig f = Some v" "is_paid (Some v)"
  shows "(\<exists>c \<in> set (detect_hours_changes x y (Some pm) cm). change_name c = submitted_name new \<and> change_field c = f)
    \<longleftrightarrow> (\<exists>w. get_hours new f = Some w \<and> is_paid (Some w) \<and> \<not> dec_eq v w)"
proof
  assume "\<exists>c \<in> set (detect_hours_changes x y (Some pm) cm). change_name c = submitted_name new \<and> change_field c = f"
  then show "\<exists>w. get_hours new f = Some w \<and> is_paid (Some w) \<and> \<not> dec_eq v w"
    using pairs_same_name [OF _ assms(1)] assms(2) by (force simp: change_in field_change_Some)
next
  assume "\<exists>w. get_hours new f = Some w \<and> is_paid (Some w) \<and> \<not> dec_eq v w"
  then obtain w where "field_change orig new f = Some \<lparr>change_name = submitted_name new, change_field = f,
      change_original = v, change_resumed = w\<rparr>"
    using assms(2,3) by (auto simp: field_change_Some)
  then have "\<lparr>change_name = submitted_name new, change_field = f, change_original = v, change_resumed = w\<rparr>
      \<in> set (detect_hours_changes x y (Some pm) cm)" using assms(1) change_in by blast
  then show "\<exists>c \<in> set (detect_hours_changes x y (Some pm) cm). change_name c = submitted_name new \<and> change_field c = f"
    by force
qed

subsection \<open>When a run is free of issues\<close>

definition regression_open :: "name_match list \<Rightarrow> (string \<times> string) list \<Rightarrow> raw_field_drop \<Rightarrow> bool" where
  "regression_open ms rd d \<longleftrightarrow>
     (\<exists>i. map_of (name_to_id ms) (drop_name d) = Some i \<and> (uuid_str i, field_name (drop_field d)) \<notin> set rd)"

definition hours_absent :: "name_match list \<Rightarrow> roster \<Rightarrow> extracted_employee \<Rightarrow> bool" where
  "hours_absent ms r e \<longleftrightarrow> employee_pay_type (submitted_name e) ms r = Some Hourly \<and> (\<forall>f. \<not> is_paid (get_hours e f))"

definition overtime_unclear :: "name_match list \<Rightarrow> roster \<Rightarrow> extracted_employee \<Rightarrow> bool" where
  "overtime_unclear ms r e \<longleftrightarrow>
     \<not> is_paid (hours_overtime e) \<and>
     (\<exists>p h. employee_pay_periods_per_year (submitted_name e) ms r = Some p \<and> hours_regular e = Some h
        \<and> (p = 52 \<and> 40 < dval h \<or> p = 26 \<and> 80 < dval h))"

lemma any_hours_iff: "any_hours e \<longleftrightarrow> (\<exists>f. is_paid (get_hours e f))"
proof -
  have "any_hours e \<longleftrightarrow> (\<exists>f \<in> set HOURS_FIELDS. is_paid (get_hours e f))" by (simp only: any_hours_def list_ex_iff)
  then show ?thesis by simp
qed

lemma missing_issue_None: "missing_issue ms r e = None \<longleftrightarrow> \<not> hours_absent ms r e"
  by (auto simp: missing_issue_def hours_absent_def any_hours_iff)

lemma overtime_issue_None: "overtime_issue ms r e = None \<longleftrightarrow> \<not> overtime_unclear ms r e"
  by (auto simp: overtime_issue_def overtime_unclear_def Let_def dec_order dval_def [of "Dec _ _"] split: option.splits)

lemma regression_issue_None: "regression_issue (name_to_id ms) rd d = None \<longleftrightarrow> \<not> regression_open ms rd d"
  by (auto simp: regression_issue_def regression_open_def split: option.splits)

lemma validate_Nil_iff:
  "validate x r ms rd drops = [] \<longleftrightarrow>
     (\<forall>d \<in> set drops. \<not> regression_open ms rd d)
   \<and> (\<forall>e \<in> set (employees x). \<not> hours_absent ms r e \<and> \<not> overtime_unclear ms r e)"
  by (auto simp: validate_def map_filter_Nil_iff missing_issue_None overtime_issue_None regression_issue_None)

text \<open>Lookups through the matches of a reconciliation.\<close>

lemma lookup_matched_SomeD:
  "lookup_matched n ms r = Some e \<Longrightarrow> \<exists>m \<in> set ms. match_name m = n \<and> matched_employee_id m = Some (emp_id e)
     \<and> e \<in> set (roster_employees r)"
  by (induction ms) (auto split: if_splits option.splits dest: first_match_SomeD)

lemma lookup_matched_reconcile:
  assumes "roster_valid r" "e \<in> set (roster_employees r)" "n \<in> set ns"
    "matched_employee_id (resolve_name u r ov n) = Some (emp_id e)"
  shows "lookup_matched n (reconcile_names u ns r ov) r = Some e"
  using assms(3)
proof (induction ns)
  case Nil
  then show ?case by simp
next
  case (Cons a ns)
  have "first_match (\<lambda>e'. emp_id e' = emp_id e) (roster_employees r) = Some e"
  proof (cases "first_match (\<lambda>e'. emp_id e' = emp_id e) (roster_employees r)")
    case None
    then show ?thesis using assms(2) by (auto simp: first_match_None)
  next
    case (Some e')
    then show ?thesis using first_match_SomeD [OF Some] roster_valid_unique [OF assms(1,2)] by metis
  qed
  with Cons assms(4) show ?case by (auto simp: reconcile_names_def)
qed

lemma name_to_id_reconcile:
  assumes "n \<in> set ns"
  shows "map_of (name_to_id (reconcile_names u ns r ov)) n = matched_employee_id (resolve_name u r ov n)"
proof (cases "map_of (name_to_id (reconcile_names u ns r ov)) n")
  case (Some i)
  from name_to_id_SomeD [OF Some] show ?thesis
    unfolding Some by (auto dest!: reconcile_names_in)
next
  case None
  have "matched_employee_id (resolve_name u r ov n) = None"
  proof (rule ccontr)
    assume "matched_employee_id (resolve_name u r ov n) \<noteq> None"
    then obtain i where i: "matched_employee_id (resolve_name u r ov n) = Some i" by blast
    then have "resolved (resolve_name u r ov n)"
      using matched_iff_resolved [OF resolve_name_valid, of u r ov n] by simp
    then have "(n, i) \<in> set (List.map_filter (\<lambda>m. if resolved m then map_option (\<lambda>i. (match_name m, i)) (matched_employee_id m)
        else None) (reconcile_names u ns r ov))"
      using assms i by (force simp: in_map_filter reconcile_names_def)
    then have "map_of (name_to_id (reconcile_names u ns r ov)) n \<noteq> None"
      unfolding name_to_id_def dict_of_keys by force
    with None show False by simp
  qed
  with None show ?thesis by simp
qed


subsection \<open>Properties\<close>

definition no_hours :: "string \<Rightarrow> extracted_employee" where
  "no_hours n =
     \<lparr>submitted_name = n, hours_regular = None, hours_overtime = None, hours_vacation = None, hours_sick = None,
      hours_holiday = None, contribution_401k_override = None\<rparr>"

definition sample_original :: extracted where
  "sample_original =
     \<lparr>extracted_run_id = 9, employees = [(no_hours ''Maria Chen'')\<lparr>hours_regular := Some (Dec 40 0), hours_overtime := Some (Dec 5 0)\<rparr>],
      pay_period_start = None, pay_period_end = None\<rparr>"

definition sample_reply :: extracted where
  "sample_reply =
     \<lparr>extracted_run_id = 9, employees = [(no_hours ''M. Chen'')\<lparr>hours_regular := Some (Dec 38 0)\<rparr>],
      pay_period_start = None, pay_period_end = None\<rparr>"

definition sample_match :: "string \<Rightarrow> name_match" where
  "sample_match n = \<lparr>match_name = n, matched_employee_id = Some 1, match_source_of = SrcExact, resolved = True,
     match_reason = ''exact match''\<rparr>"

lemma sample_pair:
  "(hd (employees sample_original), hd (employees sample_reply))
     \<in> set (pair_by_employee_id sample_original sample_reply [sample_match ''Maria Chen''] [sample_match ''M. Chen''])"
  by (simp add: pairs_ids id_keyed_def name_to_id_def sample_match_def sample_original_def sample_reply_def
      List.map_filter_def no_hours_def)

text \<open>No hours the client already sent are silently changed: for a person identified in both
  rounds (by id, whatever names they used), a paid line that is no longer paid is reported
  by the regression detector and by nothing else, a paid line with another paid value is
  reported by the change detector and by nothing else, and an unchanged one by neither.\<close>

theorem hours_events_reported_once:
  assumes "(orig, new) \<in> set (pair_by_employee_id x y pm cm)" "get_hours orig f = Some v" "is_paid (Some v)"
  shows "((\<exists>d \<in> set (detect_field_regression x y (Some pm) cm). drop_name d = submitted_name new \<and> drop_field d = f)
           \<longleftrightarrow> \<not> is_paid (get_hours new f))
       \<and> ((\<exists>c \<in> set (detect_hours_changes x y (Some pm) cm). change_name c = submitted_name new \<and> change_field c = f)
           \<longleftrightarrow> (\<exists>w. get_hours new f = Some w \<and> is_paid (Some w) \<and> \<not> dec_eq v w))"
  using drop_reported [OF assms] change_reported [OF assms] by blast

theorem hours_events_reported_once_witness:
  "\<exists>d \<in> set (detect_field_regression sample_original sample_reply (Some [sample_match ''Maria Chen'']) [sample_match ''M. Chen'']).
     drop_name d = ''M. Chen'' \<and> drop_field d = HoursOvertime"
proof -
  have "get_hours (hd (employees sample_original)) HoursOvertime = Some (Dec 5 0)" "is_paid (Some (Dec 5 0))"
    "\<not> is_paid (get_hours (hd (employees sample_reply)) HoursOvertime)" "submitted_name (hd (employees sample_reply)) = ''M. Chen''"
    by (simp_all add: sample_original_def sample_reply_def no_hours_def is_paid_iff dval_def)
  with hours_events_reported_once [OF sample_pair, of HoursOvertime "Dec 5 0"] show ?thesis by simp
qed

text \<open>The pairing across rounds is by person: it holds exactly the employees both rounds
  identify, each once, and each under one name of the reply.\<close>

theorem pairing_by_person:
  "((orig, new) \<in> set (pair_by_employee_id x y pm cm) \<longleftrightarrow>
      (\<exists>i. map_of (id_keyed x pm) i = Some orig \<and> map_of (id_keyed y cm) i = Some new))
   \<and> distinct (map (submitted_name \<circ> snd) (pair_by_employee_id x y pm cm))"
  by (simp only: pairs_ids pairs_distinct_names)

text \<open>C27. Validation lets a run through exactly when no dropped line is still unconfirmed, every
  hourly employee has some paid hours, and no weekly (biweekly) employee has more than 40
  (80) regular hours without overtime.\<close>

theorem validate_clear_iff:
  "validate x r ms rd drops = [] \<longleftrightarrow>
     (\<forall>d \<in> set drops. \<not> regression_open ms rd d)
   \<and> (\<forall>e \<in> set (employees x). \<not> hours_absent ms r e \<and> \<not> overtime_unclear ms r e)"
  by (rule validate_Nil_iff)

theorem validate_clear_iff_witness:
  "validate sample_reply sample_roster [sample_match ''M. Chen''] [] [] = []"
  unfolding validate_clear_iff
  by (simp add: sample_reply_def hours_absent_def overtime_unclear_def no_hours_def is_paid_iff dval_def
      employee_pay_type_def employee_pay_periods_per_year_def sample_match_def sample_roster_def sample_employee_def
      HOURS_FIELDS_all [symmetric] HOURS_FIELDS_def exI [of _ HoursRegular] del: HOURS_FIELDS_all)

end
