(* ===== verification/Decide.thy ===== *)
theory Decide
  imports Validate
begin

section \<open>The decision gate\<close>

text \<open>
  \<open>app/pipeline/decide.py\<close>: run-level collisions and the deterministic decision. The gate
  reasons are the strings the client sees.
\<close>

definition track_name :: "name_match \<Rightarrow> (uuid, string list) dict \<Rightarrow> (uuid, string list) dict" where
  "track_name m d =
     (case matched_employee_id m of
        None \<Rightarrow> d
      | Some i \<Rightarrow>
          (let names = (case map_of d i of None \<Rightarrow> [] | Some ns \<Rightarrow> ns)
           in AList.update i (if match_name m \<in> set names then names else names @ [match_name m]) d))"

definition by_employee :: "name_match list \<Rightarrow> (uuid, string list) dict" where
  "by_employee ms = fold track_name ms []"

definition collision_reason :: "string list \<Rightarrow> string" where
  "collision_reason names = ''two submitted names resolve to one employee: '' @ py_join '' + '' (sort names)"

fun duplicate_reasons :: "string list \<Rightarrow> string list \<Rightarrow> string list \<Rightarrow> string list" where
  "duplicate_reasons seen flagged [] = []"
| "duplicate_reasons seen flagged (n # ns) =
     (if n \<in> set seen \<and> n \<notin> set flagged
      then (''duplicate submitted name: '' @ n) # duplicate_reasons (n # seen) (n # flagged) ns
      else duplicate_reasons (n # seen) flagged ns)"

definition check_one_to_one :: "name_match list \<Rightarrow> string list" where
  "check_one_to_one ms =
     map (collision_reason \<circ> snd) (filter (\<lambda>(i, names). 1 < length names) (by_employee ms))
     @ duplicate_reasons [] [] (map match_name ms)"

definition decide :: "extracted \<Rightarrow> name_match list \<Rightarrow> validation_issue list \<Rightarrow> decision" where
  "decide x ms issues =
     (let rule0 = (if employees x = [] then [''no employees could be extracted from the email''] else []);
          rule0b = (if employees x \<noteq> [] \<and> sort (map submitted_name (employees x)) \<noteq> sort (map match_name ms)
                    then [''resolution records do not match the extracted employees one-for-one''] else []);
          open_names = map match_name (filter (\<lambda>m. \<not> resolved m) ms);
          rule1 = map (\<lambda>n. n @ '': unresolved (no roster match)'') open_names;
          missing = map issue_field (filter (\<lambda>i. issue_kind i = Missing) issues);
          rule2 = map (\<lambda>f. ''missing required field: '' @ f) missing;
          rule2b = map (\<lambda>f. ''field regression: '' @ f)
                     (map issue_field (filter (\<lambda>i. issue_kind i = FieldRegression) issues));
          reasons = rule0 @ rule0b @ rule1 @ rule2 @ rule2b @ check_one_to_one ms
      in \<lparr>final_action_of = (if reasons \<noteq> [] then RequestClarification else Process),
          gate_reasons = reasons,
          unresolved_names = rev (remdups (rev open_names)),
          missing_fields = missing,
          resolutions = ms\<rparr>)"

subsection \<open>Collisions\<close>

lemma duplicate_reasons_Nil:
  "duplicate_reasons seen flagged ns = [] \<longleftrightarrow> (\<forall>n \<in> set ns. n \<in> set seen \<longrightarrow> n \<in> set flagged)
     \<and> (\<forall>n. n \<notin> set flagged \<longrightarrow> count_list ns n \<le> 1)" if "set flagged \<subseteq> set seen"
  using that
proof (induction ns arbitrary: seen flagged)
  case Nil
  then show ?case by simp
next
  case (Cons a ns)
  show ?case
  proof (cases "a \<in> set seen \<and> a \<notin> set flagged")
    case True
    then show ?thesis by auto
  next
    case False
    then have "duplicate_reasons seen flagged (a # ns) = [] \<longleftrightarrow>
        (\<forall>n \<in> set ns. n = a \<or> n \<in> set seen \<longrightarrow> n \<in> set flagged) \<and> (\<forall>n. n \<notin> set flagged \<longrightarrow> count_list ns n \<le> 1)"
      using Cons.IH [of flagged "a # seen"] Cons.prems by auto
    then show ?thesis using False by (auto simp: count_list_0_iff le_Suc_eq split: if_splits)
  qed
qed

lemma distinct_count_list: "distinct xs \<longleftrightarrow> (\<forall>x. count_list xs x \<le> 1)"
  by (induction xs) (auto simp: count_list_0_iff le_Suc_eq)

lemma duplicate_reasons_distinct: "duplicate_reasons [] [] ns = [] \<longleftrightarrow> distinct ns"
  by (simp add: duplicate_reasons_Nil distinct_count_list)

lemma track_name_lookup:
  "map_of (track_name m d) i =
     (if matched_employee_id m = Some i
      then Some (let names = (case map_of d i of None \<Rightarrow> [] | Some ns \<Rightarrow> ns)
                 in if match_name m \<in> set names then names else names @ [match_name m])
      else map_of d i)"
  by (auto simp: track_name_def Let_def split: option.split)

lemma by_employee_names:
  "(case map_of (fold track_name ms d) i of None \<Rightarrow> {} | Some ns \<Rightarrow> set ns) =
     (case map_of d i of None \<Rightarrow> {} | Some ns \<Rightarrow> set ns) \<union> {match_name m | m. m \<in> set ms \<and> matched_employee_id m = Some i}"
  by (induction ms arbitrary: d) (auto simp: track_name_lookup Let_def split: option.splits if_splits)

definition names_inv :: "(uuid, string list) dict \<Rightarrow> bool" where
  "names_inv d \<longleftrightarrow> distinct (map fst d) \<and> (\<forall>i ns. map_of d i = Some ns \<longrightarrow> distinct ns)"

lemma track_name_inv: "names_inv d \<Longrightarrow> names_inv (track_name m d)"
  unfolding names_inv_def
  by (auto simp: track_name_lookup Let_def split: option.splits if_splits)
    (simp add: track_name_def Let_def distinct_update split: option.split)

lemma by_employee_inv: "names_inv (by_employee ms)"
proof -
  have "names_inv (fold track_name ms d)" if "names_inv d" for d
    using that
  proof (induction ms arbitrary: d)
    case (Cons m ms)
    from Cons.IH [OF track_name_inv [OF Cons.prems]] show ?case by simp
  qed simp
  moreover have "names_inv []" by (simp add: names_inv_def)
  ultimately show ?thesis unfolding by_employee_def by blast
qed

lemma short_distinct: "distinct xs \<Longrightarrow> \<not> 1 < length xs \<longleftrightarrow> (\<forall>x \<in> set xs. \<forall>y \<in> set xs. x = y)"
proof -
  assume d: "distinct xs"
  show ?thesis
  proof (cases "1 < length xs")
    case True
    then obtain x y zs where "xs = x # y # zs" by (cases xs; cases "tl xs") auto
    with d show ?thesis by auto
  next
    case False
    then show ?thesis by (cases xs) auto
  qed
qed

definition injective_matches :: "name_match list \<Rightarrow> bool" where
  "injective_matches ms \<longleftrightarrow> (\<forall>m \<in> set ms. \<forall>m' \<in> set ms.
     matched_employee_id m \<noteq> None \<longrightarrow> matched_employee_id m = matched_employee_id m' \<longrightarrow> match_name m = match_name m')"

lemma check_one_to_one_Nil:
  "check_one_to_one ms = [] \<longleftrightarrow> injective_matches ms \<and> distinct (map match_name ms)"
proof -
  let ?N = "\<lambda>i. case map_of (by_employee ms) i of None \<Rightarrow> {} | Some ns \<Rightarrow> set ns"
  have N: "?N i = {match_name m | m. m \<in> set ms \<and> matched_employee_id m = Some i}" for i
    using by_employee_names [of ms "[]" i] by (simp add: by_employee_def)
  have d: "distinct (map fst (by_employee ms))" "map_of (by_employee ms) i = Some ns \<Longrightarrow> distinct ns" for i ns
    using by_employee_inv [of ms] unfolding names_inv_def by blast+
  have "filter (\<lambda>(i, names). 1 < length names) (by_employee ms) = [] \<longleftrightarrow>
      (\<forall>i ns. map_of (by_employee ms) i = Some ns \<longrightarrow> \<not> 1 < length ns)"
    unfolding filter_empty_conv map_of_eq_Some_iff [OF d(1)] by auto
  also have "\<dots> \<longleftrightarrow> (\<forall>i ns. map_of (by_employee ms) i = Some ns \<longrightarrow> (\<forall>x \<in> set ns. \<forall>y \<in> set ns. x = y))"
    using short_distinct [OF d(2)] by blast
  also have "\<dots> \<longleftrightarrow> (\<forall>i. \<forall>x \<in> ?N i. \<forall>y \<in> ?N i. x = y)"
    by (rule all_cong1) (simp split: option.split)
  also have "\<dots> \<longleftrightarrow> injective_matches ms"
    unfolding N injective_matches_def
  proof (intro iffI ballI impI allI)
    fix m m' assume a: "\<forall>i. \<forall>x \<in> {match_name m | m. m \<in> set ms \<and> matched_employee_id m = Some i}.
        \<forall>y \<in> {match_name m | m. m \<in> set ms \<and> matched_employee_id m = Some i}. x = y"
      "m \<in> set ms" "m' \<in> set ms" "matched_employee_id m \<noteq> None" "matched_employee_id m = matched_employee_id m'"
    then obtain i where "matched_employee_id m = Some i" "matched_employee_id m' = Some i" by auto
    with a(1) [rule_format, of "match_name m" i "match_name m'"] a(2,3) show "match_name m = match_name m'" by blast
  next
    fix i x y assume "\<forall>m \<in> set ms. \<forall>m' \<in> set ms. matched_employee_id m \<noteq> None \<longrightarrow>
        matched_employee_id m = matched_employee_id m' \<longrightarrow> match_name m = match_name m'"
      "x \<in> {match_name m | m. m \<in> set ms \<and> matched_employee_id m = Some i}"
      "y \<in> {match_name m | m. m \<in> set ms \<and> matched_employee_id m = Some i}"
    then show "x = y" by fastforce
  qed
  finally show ?thesis by (simp add: check_one_to_one_def duplicate_reasons_distinct)
qed

subsection \<open>When a run is processed\<close>

lemma decide_Process_iff:
  "final_action_of (decide x ms issues) = Process \<longleftrightarrow>
     employees x \<noteq> []
   \<and> mset (map submitted_name (employees x)) = mset (map match_name ms)
   \<and> (\<forall>m \<in> set ms. resolved m)
   \<and> (\<forall>i \<in> set issues. issue_kind i \<notin> {Missing, FieldRegression})
   \<and> injective_matches ms \<and> distinct (map match_name ms)"
proof -
  have s: "sort a = sort b \<longleftrightarrow> mset a = mset b" for a b :: "string list"
  proof
    assume "sort a = sort b"
    then have "mset (sort a) = mset (sort b)" by simp
    then show "mset a = mset b" by simp
  next
    assume "mset a = mset b"
    then show "sort a = sort b" by (simp only: sorted_list_of_multiset_mset [symmetric])
  qed
  show ?thesis
    by (auto simp: decide_def Let_def s check_one_to_one_Nil filter_empty_conv)
qed

lemma decide_action: "final_action_of (decide x ms issues) = Process \<longleftrightarrow> gate_reasons (decide x ms issues) = []"
  by (simp add: decide_def Let_def)


subsection \<open>The gate over a reconciliation\<close>

lemma injective_reconcile:
  assumes "injective_matches (reconcile_names u ns r ov)" "n \<in> set ns" "n' \<in> set ns"
    "matched_employee_id (resolve_name u r ov n) = Some i" "matched_employee_id (resolve_name u r ov n') = Some i"
  shows "n = n'"
proof -
  have "resolve_name u r ov n \<in> set (reconcile_names u ns r ov)" "resolve_name u r ov n' \<in> set (reconcile_names u ns r ov)"
    using assms(2,3) by (simp_all add: reconcile_names_def)
  from assms(1) [unfolded injective_matches_def, rule_format, OF this] assms(4,5) show ?thesis by simp
qed

text \<open>On a processed run every submitted name is a different roster employee.\<close>

lemma processed_employee:
  assumes "roster_valid r" "final_action_of (decide x (reconcile_names u ns r ov) issues) = Process" "n \<in> set ns"
  shows "\<exists>e \<in> set (roster_employees r). matched_employee_id (resolve_name u r ov n) = Some (emp_id e)"
proof -
  have "resolve_name u r ov n \<in> set (reconcile_names u ns r ov)" using assms(3) by (simp add: reconcile_names_def)
  then have "resolved (resolve_name u r ov n)" using assms(2) by (auto simp: decide_Process_iff)
  then obtain i where i: "matched_employee_id (resolve_name u r ov n) = Some i"
    using matched_iff_resolved [OF resolve_name_valid, of u r ov n] by auto
  with resolve_name_on_roster [OF i] show ?thesis by auto
qed

subsection \<open>Properties\<close>

text \<open>C5. The gate fails closed and only for cause: a run is processed exactly when somebody was
  extracted, the resolution records match the extracted names one for one, every name is
  resolved, no field is missing or regressed, no name is duplicated and no two names fall on
  one employee.\<close>

theorem decide_process_iff:
  "final_action_of (decide x ms issues) = Process \<longleftrightarrow>
     employees x \<noteq> []
   \<and> mset (map submitted_name (employees x)) = mset (map match_name ms)
   \<and> (\<forall>m \<in> set ms. resolved m)
   \<and> (\<forall>i \<in> set issues. issue_kind i \<notin> {Missing, FieldRegression})
   \<and> injective_matches ms \<and> distinct (map match_name ms)"
  by (rule decide_Process_iff)

theorem decide_process_iff_witness:
  "final_action_of (decide sample_reply [sample_match ''M. Chen''] []) = Process"
  unfolding decide_process_iff
  by (simp add: sample_reply_def sample_match_def no_hours_def injective_matches_def)

text \<open>Names cannot collapse onto one employee: whenever two different submitted names are
  matched to the same id, or a name occurs twice, the decision is to ask the client and the
  reasons say so, whatever the other facts are.\<close>

theorem collision_always_clarifies:
  assumes "m \<in> set ms" "m' \<in> set ms" "matched_employee_id m = Some i" "matched_employee_id m' = Some i"
    "match_name m \<noteq> match_name m'"
  shows "final_action_of (decide x ms issues) = RequestClarification \<and> check_one_to_one ms \<noteq> []
    \<and> set (check_one_to_one ms) \<subseteq> set (gate_reasons (decide x ms issues))"
proof -
  have "\<not> injective_matches ms" using assms unfolding injective_matches_def by (metis option.distinct(1))
  then have "final_action_of (decide x ms issues) \<noteq> Process" "check_one_to_one ms \<noteq> []"
    by (simp_all add: decide_Process_iff check_one_to_one_Nil)
  then show ?thesis by (cases "final_action_of (decide x ms issues)") (auto simp: decide_def Let_def)
qed

theorem collision_always_clarifies_witness:
  "final_action_of (decide sample_reply [sample_match ''M. Chen'', sample_match ''Maria Chen''] []) = RequestClarification"
  using collision_always_clarifies [of "sample_match ''M. Chen''" "[sample_match ''M. Chen'', sample_match ''Maria Chen'']"
      "sample_match ''Maria Chen''" 1 sample_reply "[]"]
  by (simp add: sample_match_def)

end
