(* ===== verification/AliasLearning.thy ===== *)
theory AliasLearning
  imports Decide
begin

section \<open>Alias learning\<close>

text \<open>
  \<open>app/pipeline/alias_learning.py\<close>: what a clarification reply confirms, the identity bridge
  into the prior round, and the guarded write of an alias to the roster, with the two
  statements of \<open>app/db/repo\<close> it runs (\<open>update_known_alias\<close>, \<open>load_roster_for_business\<close>) over
  the table of employees.
\<close>

subsection \<open>Candidates and evidence\<close>

datatype candidate_value =
    CandNone
  | CandDict "string option" "string option"
  | CandFlat string

record candidate =
  suggested :: "string option"
  bound :: "string option"

fun normalize_candidate :: "candidate_value \<Rightarrow> candidate" where
  "normalize_candidate CandNone = \<lparr>suggested = None, bound = None\<rparr>"
| "normalize_candidate (CandDict s b) = \<lparr>suggested = s, bound = b\<rparr>"
| "normalize_candidate (CandFlat v) = \<lparr>suggested = None, bound = Some v\<rparr>"

text \<open>An entry of a persisted reconciliation: a JSON object with the three keys read, or
  something that is not an object.\<close>

datatype recon_entry =
    NotADict
  | Entry "string option" bool "string option"

definition str_opt :: "string option \<Rightarrow> string" where
  "str_opt v = (case v of None \<Rightarrow> ''None'' | Some s \<Rightarrow> s)"

definition bind_evidence_for_token ::
  "unicode \<Rightarrow> string \<Rightarrow> string \<Rightarrow> string option \<Rightarrow> recon_entry list \<Rightarrow> bool" where
  "bind_evidence_for_token u token suggested_id suggested_full_name entries =
     (let match_names = normalize_name u token #
            (case suggested_full_name of None \<Rightarrow> [] | Some n \<Rightarrow> [normalize_name u n])
      in list_ex (\<lambda>entry. case entry of
             NotADict \<Rightarrow> False
           | Entry submitted res matched \<Rightarrow>
               normalize_name u (case submitted of None \<Rightarrow> [] | Some s \<Rightarrow> s) \<in> set match_names
               \<and> res \<and> str_opt matched = suggested_id) entries)"

definition dump_match :: "name_match \<Rightarrow> recon_entry" where
  "dump_match m = Entry (Some (match_name m)) (resolved m) (map_option uuid_str (matched_employee_id m))"

text \<open>The id a candidate stands for at this reply: an earlier bind, or a suggestion the reply confirms.\<close>

definition candidate_target ::
  "unicode \<Rightarrow> roster \<Rightarrow> recon_entry list \<Rightarrow> string \<Rightarrow> candidate_value \<Rightarrow> string option" where
  "candidate_target u r entries token v =
     (let cand = normalize_candidate v
      in case bound cand of
           Some b \<Rightarrow> Some b
         | None \<Rightarrow>
             (case suggested cand of
                None \<Rightarrow> None
              | Some t \<Rightarrow>
                  (let fn = map_option full_name (first_match (\<lambda>e. uuid_str (emp_id e) = t) (roster_employees r))
                   in if bind_evidence_for_token u token t fn entries then Some t else None)))"

fun bridge_candidates ::
  "unicode \<Rightarrow> roster \<Rightarrow> recon_entry list \<Rightarrow> (string, candidate_value) dict \<Rightarrow>
   name_match list \<Rightarrow> uuid list \<Rightarrow> string list \<Rightarrow> name_match list" where
  "bridge_candidates u r entries [] bridged ids names = bridged"
| "bridge_candidates u r entries ((token, v) # cs) bridged ids names =
     (case candidate_target u r entries token v of
        None \<Rightarrow> bridge_candidates u r entries cs bridged ids names
      | Some t \<Rightarrow>
          (case uuid_parse t of
             None \<Rightarrow> bridge_candidates u r entries cs bridged ids names
           | Some target \<Rightarrow>
               if target \<notin> emp_id ` set (roster_employees r) then bridge_candidates u r entries cs bridged ids names
               else if target \<in> set ids \<or> token \<in> set names then bridge_candidates u r entries cs bridged ids names
               else bridge_candidates u r entries cs
                      (bridged @ [\<lparr>match_name = token, matched_employee_id = Some target, match_source_of = SrcAlias,
                                   resolved = True, match_reason = ''confirmed at clarification reply''\<rparr>])
                      (target # ids) (token # names)))"

definition confirmed_prior_matches ::
  "unicode \<Rightarrow> name_match list option \<Rightarrow> name_match list \<Rightarrow> (string, candidate_value) dict \<Rightarrow> roster \<Rightarrow> name_match list option" where
  "confirmed_prior_matches u prior_matches current_matches candidates r =
     (case prior_matches of
        None \<Rightarrow> None
      | Some pm \<Rightarrow>
          if candidates = [] then Some pm
          else Some (bridge_candidates u r (map dump_match current_matches) candidates pm
                 (map snd (name_to_id pm)) (map fst (name_to_id pm))))"

subsection \<open>Learning an alias\<close>

definition safe_to_learn_alias :: "unicode \<Rightarrow> string \<Rightarrow> employee \<Rightarrow> roster \<Rightarrow> bool" where
  "safe_to_learn_alias u token target r =
     (let synthetic = r\<lparr>roster_employees :=
            map (\<lambda>e. if emp_id e = emp_id target then e\<lparr>known_aliases := known_aliases e @ [token]\<rparr> else e) (roster_employees r)\<rparr>
      in case deterministic_match u token synthetic of
           None \<Rightarrow> False
         | Some m \<Rightarrow> matched_employee_id m = Some (emp_id target))"

text \<open>
  The table of employees. \<open>SELECT DISTINCT unnest(...)\<close> leaves the order of the array open;
  the first occurrence is kept here, and no lemma depends on the order.
\<close>

definition update_known_alias :: "uuid \<Rightarrow> string \<Rightarrow> employee list \<Rightarrow> bool \<times> employee list" where
  "update_known_alias i token emps =
     (list_ex (\<lambda>e. emp_id e = i \<and> token \<notin> set (known_aliases e)) emps,
      map (\<lambda>e. if emp_id e = i \<and> token \<notin> set (known_aliases e)
               then e\<lparr>known_aliases := rev (remdups (rev (known_aliases e @ [token])))\<rparr> else e) emps)"

definition load_roster_for_business :: "uuid \<Rightarrow> employee list \<Rightarrow> roster res" where
  "load_roster_for_business b emps =
     (let r = \<lparr>roster_business = b, roster_employees = filter (\<lambda>e. emp_business e = b) emps\<rparr>
      in guard_res (roster_valid r) ValidationError r)"

text \<open>The table after the batch, and whether the batch raised on the way.\<close>

fun write_aliases ::
  "unicode \<Rightarrow> uuid \<Rightarrow> (string, candidate_value) dict \<Rightarrow> roster \<Rightarrow> employee list \<Rightarrow> employee list \<times> unit res" where
  "write_aliases u b [] current emps = (emps, Inr ())"
| "write_aliases u b ((token, v) # cs) current emps =
     (case bound (normalize_candidate v) of
        None \<Rightarrow> write_aliases u b cs current emps
      | Some s \<Rightarrow>
          (case uuid_parse s of
             None \<Rightarrow> write_aliases u b cs current emps
           | Some i \<Rightarrow>
               (case first_match (\<lambda>e. emp_id e = i) (roster_employees current) of
                  None \<Rightarrow> write_aliases u b cs current emps
                | Some target \<Rightarrow>
                    if \<not> safe_to_learn_alias u token target current then write_aliases u b cs current emps
                    else (let (written, emps') = update_known_alias i token emps
                          in if written
                             then (case load_roster_for_business b emps' of
                                     Inl e \<Rightarrow> (emps', Inl e)
                                   | Inr current' \<Rightarrow> write_aliases u b cs current' emps')
                             else write_aliases u b cs current emps'))))"

subsection \<open>What one learned alias changes\<close>

definition learned :: "string \<Rightarrow> uuid \<Rightarrow> employee \<Rightarrow> employee \<Rightarrow> bool" where
  "learned token i e e' \<longleftrightarrow>
     emp_id e' = emp_id e \<and> full_name e' = full_name e \<and> emp_business e' = emp_business e
   \<and> set (known_aliases e') = (if emp_id e = i then insert token (set (known_aliases e)) else set (known_aliases e))"

lemma learned_carries:
  "learned token i e e' \<Longrightarrow> carries u n e' \<longleftrightarrow> carries u n e \<or> emp_id e = i \<and> normalize_name u token = normalize_name u n"
  by (auto simp: learned_def carries_def name_is_def alias_is_def list_ex_iff)

lemma learned_carrier_ids:
  "list_all2 (learned token i) es es' \<Longrightarrow>
   emp_id ` {e \<in> set es'. carries u n e} =
     emp_id ` {e \<in> set es. carries u n e \<or> emp_id e = i \<and> normalize_name u token = normalize_name u n}"
proof (induction es es' rule: list_all2_induct)
  case (Cons e es e' es')
  have "emp_id e' = emp_id e" using Cons.hyps(1) by (simp add: learned_def)
  moreover have "{x \<in> set (e' # es'). P x} = (if P e' then {e'} else {}) \<union> {x \<in> set es'. P x}"
    "{x \<in> set (e # es). P x} = (if P e then {e} else {}) \<union> {x \<in> set es. P x}" for P by auto
  ultimately show ?case
    using Cons.IH learned_carries [OF Cons.hyps(1), of u n] by (simp add: image_Un)
qed simp

lemma safe_learned:
  assumes "safe_to_learn_alias u token target r" "list_all2 (learned token (emp_id target)) (roster_employees r) (roster_employees r')"
  shows "emp_id ` {e \<in> set (roster_employees r'). carries u token e} = {emp_id target}"
proof -
  let ?s = "r\<lparr>roster_employees :=
      map (\<lambda>e. if emp_id e = emp_id target then e\<lparr>known_aliases := known_aliases e @ [token]\<rparr> else e) (roster_employees r)\<rparr>"
  have "list_all2 (learned token (emp_id target)) (roster_employees r) (roster_employees ?s)"
    by (simp add: list_all2_map2 learned_def list.rel_refl)
  from learned_carrier_ids [OF this, of u token] learned_carrier_ids [OF assms(2), of u token]
  have "emp_id ` {e \<in> set (roster_employees r'). carries u token e} = emp_id ` {e \<in> set (roster_employees ?s). carries u token e}"
    by simp
  moreover have "\<exists>m. deterministic_match u token ?s = Some m \<and> matched_employee_id m = Some (emp_id target)"
    using assms(1) by (auto simp: safe_to_learn_alias_def Let_def split: option.splits)
  ultimately show ?thesis by (simp only: deterministic_match_id)
qed

lemma carries_cong: "normalize_name u n = normalize_name u n' \<Longrightarrow> carries u n = carries u n'"
  by (simp add: carries_def fun_eq_iff)

text \<open>A safe alias changes no resolution that exists, and makes the token resolve to its target.\<close>

lemma learned_preserves:
  assumes "safe_to_learn_alias u token target r" "list_all2 (learned token (emp_id target)) (roster_employees r) (roster_employees r')"
    "emp_id ` {e \<in> set (roster_employees r). carries u n e} = {i}"
  shows "emp_id ` {e \<in> set (roster_employees r'). carries u n e} = {i}"
proof (cases "normalize_name u token = normalize_name u n")
  case False
  with learned_carrier_ids [OF assms(2), of u n] assms(3) show ?thesis by simp
next
  case True
  then have c: "carries u n = carries u token" using carries_cong by metis
  have "emp_id ` {e \<in> set (roster_employees r). carries u n e} \<subseteq> emp_id ` {e \<in> set (roster_employees r'). carries u n e}"
    unfolding learned_carrier_ids [OF assms(2)] by blast
  moreover have "emp_id ` {e \<in> set (roster_employees r'). carries u n e} = {emp_id target}"
    using safe_learned [OF assms(1,2)] unfolding c .
  ultimately show ?thesis using assms(3) by auto
qed


lemma list_all2_filter:
  "list_all2 P xs ys \<Longrightarrow> (\<And>x y. P x y \<Longrightarrow> Q x = Q y) \<Longrightarrow> list_all2 P (filter Q xs) (filter Q ys)"
  by (induction xs ys rule: list_all2_induct) auto

lemma update_known_alias_learned:
  "list_all2 (learned token i) emps (snd (update_known_alias i token emps))"
  by (auto simp: update_known_alias_def list_all2_map2 learned_def intro!: list.rel_refl split: if_splits)

lemma update_known_alias_noop: "\<not> fst (update_known_alias i token emps) \<Longrightarrow> snd (update_known_alias i token emps) = emps"
  by (auto simp: update_known_alias_def list_ex_iff intro!: map_idI)

definition business_roster :: "uuid \<Rightarrow> employee list \<Rightarrow> roster" where
  "business_roster b emps = \<lparr>roster_business = b, roster_employees = filter (\<lambda>e. emp_business e = b) emps\<rparr>"

lemma load_roster_Inr: "load_roster_for_business b emps = Inr r \<longleftrightarrow> r = business_roster b emps \<and> roster_valid r"
  by (auto simp: load_roster_for_business_def Let_def business_roster_def)

definition resolves :: "unicode \<Rightarrow> roster \<Rightarrow> string \<Rightarrow> uuid \<Rightarrow> bool" where
  "resolves u r n i \<longleftrightarrow> (\<exists>m. deterministic_match u n r = Some m \<and> matched_employee_id m = Some i)"

lemma resolves_iff: "resolves u r n i \<longleftrightarrow> emp_id ` {e \<in> set (roster_employees r). carries u n e} = {i}"
  unfolding resolves_def by (rule deterministic_match_id)

lemma business_learned:
  "list_all2 (learned token i) (roster_employees (business_roster b emps))
     (roster_employees (business_roster b (snd (update_known_alias i token emps))))"
  by (auto simp: business_roster_def learned_def intro!: list_all2_filter update_known_alias_learned
      elim: list_all2_mono)

lemma write_aliases_resolves:
  assumes "write_aliases u b cs (business_roster b emps) emps = (emps', res)" "resolves u (business_roster b emps) n i"
  shows "resolves u (business_roster b emps') n i"
  using assms
proof (induction u b cs "business_roster b emps" emps rule: write_aliases.induct)
  case (1 u b emps)
  then show ?case by simp
next
  case (2 u b token v cs emps)
  show ?case
  proof (cases "bound (normalize_candidate v)")
    case None
    with 2 show ?thesis by simp
  next
    case (Some s)
    note s = this
    show ?thesis
    proof (cases "uuid_parse s")
      case None
      with 2 s show ?thesis by simp
    next
      case (Some j)
      note j = this
      show ?thesis
      proof (cases "first_match (\<lambda>e. emp_id e = j) (roster_employees (business_roster b emps))")
        case None
        with 2 s j show ?thesis by simp
      next
        case (Some target)
        note t = this
        have tj: "emp_id target = j" using first_match_SomeD [OF t] by simp
        show ?thesis
        proof (cases "safe_to_learn_alias u token target (business_roster b emps)")
          case False
          with 2 s j t show ?thesis by simp
        next
          case True
          obtain w emps1 where up: "update_known_alias j token emps = (w, emps1)" by fastforce
          have e1: "emps1 = snd (update_known_alias j token emps)" by (simp add: up)
          have r1: "resolves u (business_roster b emps1) n i"
            using learned_preserves [OF True, of "business_roster b emps1" n i] business_learned [of token j b emps]
              "2.prems"(2) by (simp add: resolves_iff tj e1)
          show ?thesis
          proof (cases w)
            case False
            then have "emps1 = emps" using update_known_alias_noop [of j token emps] by (simp add: up)
            with 2 s j t True up False show ?thesis by simp
          next
            case w: True
            show ?thesis
            proof (cases "load_roster_for_business b emps1")
              case (Inl e)
              with "2.prems"(1) s j t True up w r1 show ?thesis by simp
            next
              case (Inr cur)
              then have "cur = business_roster b emps1" by (simp add: load_roster_Inr)
              with 2 s j t True up w r1 Inr show ?thesis by simp
            qed
          qed
        qed
      qed
    qed
  qed
qed


subsection \<open>The identity bridge\<close>

definition bridge_ok ::
  "unicode \<Rightarrow> roster \<Rightarrow> recon_entry list \<Rightarrow> (string, candidate_value) dict \<Rightarrow> name_match \<Rightarrow> bool" where
  "bridge_ok u r entries cs m \<longleftrightarrow>
     name_match_valid m \<and> (\<exists>i t v. matched_employee_id m = Some i \<and> i \<in> emp_id ` set (roster_employees r)
        \<and> (match_name m, v) \<in> set cs \<and> candidate_target u r entries (match_name m) v = Some t \<and> uuid_parse t = Some i)"

lemma bridge_ok_mono: "bridge_ok u r entries cs m \<Longrightarrow> bridge_ok u r entries (c # cs) m"
  by (auto simp: bridge_ok_def)

lemma bridge_candidates_added:
  "\<exists>added. bridge_candidates u r entries cs bridged ids names = bridged @ added
     \<and> (\<forall>m \<in> set added. bridge_ok u r entries cs m \<and> match_name m \<notin> set names \<and> matched_employee_id m \<notin> Some ` set ids)
     \<and> distinct (map matched_employee_id added)"
proof (induction u r entries cs bridged ids names rule: bridge_candidates.induct)
  case (1 u r entries bridged ids names)
  then show ?case by simp
next
  case (2 u r entries token v cs bridged ids names)
  have skip: ?case if eq: "bridge_candidates u r entries ((token, v) # cs) bridged ids names
        = bridge_candidates u r entries cs bridged ids names"
      and IH: "\<exists>added. bridge_candidates u r entries cs bridged ids names = bridged @ added
     \<and> (\<forall>m \<in> set added. bridge_ok u r entries cs m \<and> match_name m \<notin> set names \<and> matched_employee_id m \<notin> Some ` set ids)
     \<and> distinct (map matched_employee_id added)"
    using IH bridge_ok_mono unfolding eq by metis
  show ?case
  proof (cases "candidate_target u r entries token v")
    case None
    show ?thesis by (rule skip) (use None 2(1) in simp_all)
  next
    case (Some t)
    note t = this
    show ?thesis
    proof (cases "uuid_parse t")
      case None
      show ?thesis by (rule skip) (use None t 2(2) in simp_all)
    next
      case (Some i)
      note i = this
      show ?thesis
      proof (cases "i \<notin> emp_id ` set (roster_employees r) \<or> i \<in> set ids \<or> token \<in> set names")
        case True
        then consider (off) "i \<notin> emp_id ` set (roster_employees r)"
          | (taken) "\<not> i \<notin> emp_id ` set (roster_employees r)" "i \<in> set ids \<or> token \<in> set names" by blast
        then show ?thesis
        proof cases
          case off
          show ?thesis by (rule skip [OF _ 2(3) [OF t i off]]) (use off in \<open>simp add: t i\<close>)
        next
          case taken
          have eq: "bridge_candidates u r entries ((token, v) # cs) bridged ids names
              = bridge_candidates u r entries cs bridged ids names"
            using taken by (auto simp: t i)
          show ?thesis by (rule skip [OF eq 2(4) [OF t i taken]])
        qed
      next
        case False
        let ?m = "\<lparr>match_name = token, matched_employee_id = Some i, match_source_of = SrcAlias,
             resolved = True, match_reason = ''confirmed at clarification reply''\<rparr>"
        obtain added where a: "bridge_candidates u r entries cs (bridged @ [?m]) (i # ids) (token # names) = bridged @ [?m] @ added"
          "\<forall>m \<in> set added. bridge_ok u r entries cs m \<and> match_name m \<notin> set (token # names)
             \<and> matched_employee_id m \<notin> Some ` set (i # ids)" "distinct (map matched_employee_id added)"
          using 2(5) t i False by (metis append.assoc)
        have "bridge_ok u r entries ((token, v) # cs) ?m"
          using t i False by (auto simp: bridge_ok_def name_match_valid_def)
        moreover have "bridge_candidates u r entries ((token, v) # cs) bridged ids names = bridged @ (?m # added)"
          using t i False a(1) by simp
        ultimately show ?thesis
          using a(2,3) False by (intro exI [of _ "?m # added"]) (auto simp: bridge_ok_mono)
      qed
    qed
  qed
qed

lemma map_of_keys: "set (map fst (name_to_id pm)) = {n. map_of (name_to_id pm) n \<noteq> None}"
  by (auto simp: map_of_eq_None_iff)

subsection \<open>Properties\<close>

lemma safe_iff:
  assumes "roster_valid r" "target \<in> set (roster_employees r)"
  shows "safe_to_learn_alias u token target r \<longleftrightarrow> (\<forall>e \<in> set (roster_employees r). carries u token e \<longrightarrow> e = target)"
proof -
  let ?s = "r\<lparr>roster_employees :=
      map (\<lambda>e. if emp_id e = emp_id target then e\<lparr>known_aliases := known_aliases e @ [token]\<rparr> else e) (roster_employees r)\<rparr>"
  have "list_all2 (learned token (emp_id target)) (roster_employees r) (roster_employees ?s)"
    by (simp add: list_all2_map2 learned_def list.rel_refl)
  note ids = learned_carrier_ids [OF this, of u token]
  have "safe_to_learn_alias u token target r \<longleftrightarrow> resolves u ?s token (emp_id target)"
    by (auto simp: safe_to_learn_alias_def Let_def resolves_def split: option.split)
  also have "\<dots> \<longleftrightarrow> (\<forall>e \<in> set (roster_employees r). carries u token e \<longrightarrow> emp_id e = emp_id target)"
    unfolding resolves_iff ids using assms(2) by auto
  also have "\<dots> \<longleftrightarrow> (\<forall>e \<in> set (roster_employees r). carries u token e \<longrightarrow> e = target)"
    using roster_valid_unique [OF assms(1) _ assms(2)] by blast
  finally show ?thesis .
qed

lemma safe_iff_learned:
  assumes "load_roster_for_business b emps = Inr r" "target \<in> set (roster_employees r)"
    "r' = business_roster b (snd (update_known_alias (emp_id target) token emps))"
  shows "safe_to_learn_alias u token target r \<longleftrightarrow> resolves u r' token (emp_id target) \<and> (\<forall>n i. resolves u r n i \<longrightarrow> resolves u r' n i)"
proof -
  have r: "r = business_roster b emps" "roster_valid r" using assms(1) unfolding load_roster_Inr by blast+
  have l: "list_all2 (learned token (emp_id target)) (roster_employees r) (roster_employees r')"
    unfolding assms(3) r(1) by (rule business_learned)
  show ?thesis
  proof
    assume s: "safe_to_learn_alias u token target r"
    show "resolves u r' token (emp_id target) \<and> (\<forall>n i. resolves u r n i \<longrightarrow> resolves u r' n i)"
      unfolding resolves_iff using safe_learned [OF s l] learned_preserves [OF s l] by blast
  next
    assume "resolves u r' token (emp_id target) \<and> (\<forall>n i. resolves u r n i \<longrightarrow> resolves u r' n i)"
    then have "emp_id ` {e \<in> set (roster_employees r). carries u token e \<or> emp_id e = emp_id target} = {emp_id target}"
      unfolding resolves_iff learned_carrier_ids [OF l] by simp
    then have "\<forall>e \<in> set (roster_employees r). carries u token e \<longrightarrow> emp_id e = emp_id target" by blast
    then show "safe_to_learn_alias u token target r"
      using safe_iff [OF r(2) assms(2)] roster_valid_unique [OF r(2) _ assms(2)] by blast
  qed
qed

text \<open>C24. The write guard is exact: it lets an alias be learned exactly when, on the roster loaded after the write, the
  token resolves to its target and every name that resolved before resolves to the same employee; and that is
  exactly when nobody but the target carries the token already, as name or as alias.\<close>

theorem safe_to_learn_iff:
  assumes "load_roster_for_business b emps = Inr r" "target \<in> set (roster_employees r)"
    "r' = business_roster b (snd (update_known_alias (emp_id target) token emps))"
  shows "(safe_to_learn_alias u token target r \<longleftrightarrow> resolves u r' token (emp_id target) \<and> (\<forall>n i. resolves u r n i \<longrightarrow> resolves u r' n i))
    \<and> (safe_to_learn_alias u token target r \<longleftrightarrow> (\<forall>e \<in> set (roster_employees r). carries u token e \<longrightarrow> e = target))"
proof -
  have "roster_valid r" using assms(1) unfolding load_roster_Inr by blast
  then show ?thesis using safe_iff_learned [OF assms] safe_iff [OF _ assms(2)] by blast
qed

lemma sample_token_free: "\<not> carries ascii ''Mari'' sample_employee" "\<not> carries ascii ''Mari'' (roster_employees sample_roster ! 1)"
  by code_simp+

lemma sample_business_roster: "business_roster 7 (roster_employees sample_roster) = sample_roster"
  by (simp add: business_roster_def sample_roster_def sample_employee_def)

theorem safe_to_learn_iff_witness:
  "resolves ascii (business_roster 7 (snd (update_known_alias 1 ''Mari'' (roster_employees sample_roster)))) ''Mari'' 1"
proof -
  have r: "load_roster_for_business 7 (roster_employees sample_roster) = Inr sample_roster"
    by (simp add: load_roster_Inr sample_business_roster sample_roster_valid)
  have e: "sample_employee \<in> set (roster_employees sample_roster)" by (simp add: sample_roster_def)
  have "\<forall>e \<in> set (roster_employees sample_roster). \<not> carries ascii ''Mari'' e"
    using sample_token_free by (simp add: sample_roster_def)
  moreover have "emp_id sample_employee = 1" by (simp add: sample_employee_def)
  ultimately show ?thesis using safe_to_learn_iff [OF r e refl, of ascii "''Mari''"] by metis
qed

text \<open>C25. Learning is conservative: whatever batch of candidates is written, even one that stops
  half-way, every name that resolved to an employee of the business before resolves to the
  same employee afterwards.\<close>

theorem learning_is_conservative:
  assumes "write_aliases u b cs (business_roster b emps) emps = (emps', res)" "resolves u (business_roster b emps) n i"
  shows "resolves u (business_roster b emps') n i"
  by (rule write_aliases_resolves [OF assms])

theorem learning_is_conservative_witness:
  "resolves ascii (business_roster 7 (fst (write_aliases ascii 7 [(''Mari'', CandDict None (Some (uuid_str 1)))]
     (business_roster 7 (roster_employees sample_roster)) (roster_employees sample_roster)))) ''m. chen'' 1"
proof (rule learning_is_conservative)
  show "resolves ascii (business_roster 7 (roster_employees sample_roster)) ''m. chen'' 1"
  proof -
    have "carries ascii ''m. chen'' sample_employee" "\<not> carries ascii ''m. chen'' (roster_employees sample_roster ! 1)"
      by code_simp+
    then have "{e \<in> set (roster_employees sample_roster). carries ascii ''m. chen'' e} = {sample_employee}"
      by (auto simp: sample_roster_def)
    then show ?thesis by (simp add: resolves_iff sample_business_roster, simp add: sample_employee_def)
  qed
qed (rule prod.collapse [symmetric])

text \<open>The identity bridge adds, never replaces: the prior matches stay as they were, and each
  addition is a candidate token whose target is on the roster and was bound before or is
  confirmed by one record of the reply, for an employee and a name the prior round had not
  resolved, no employee twice.\<close>

theorem bridge_adds_only_confirmed:
  assumes "confirmed_prior_matches u (Some pm) cm cs r = Some pm'"
  shows "\<exists>added. pm' = pm @ added \<and> distinct (map matched_employee_id added)
     \<and> (\<forall>m \<in> set added. bridge_ok u r (map dump_match cm) cs m
          \<and> map_of (name_to_id pm) (match_name m) = None \<and> matched_employee_id m \<notin> Some ` set (map snd (name_to_id pm)))"
proof (cases "cs = []")
  case True
  with assms show ?thesis by (simp add: confirmed_prior_matches_def)
next
  case False
  with assms have "pm' = bridge_candidates u r (map dump_match cm) cs pm (map snd (name_to_id pm)) (map fst (name_to_id pm))"
    by (simp add: confirmed_prior_matches_def)
  with bridge_candidates_added [of u r "map dump_match cm" cs pm "map snd (name_to_id pm)" "map fst (name_to_id pm)"]
  show ?thesis unfolding map_of_keys by (metis (mono_tags, lifting) mem_Collect_eq)
qed

theorem bridge_adds_only_confirmed_witness:
  "\<exists>pm'. confirmed_prior_matches ascii (Some []) [] [(''Mari'', CandDict None (Some (uuid_str 1)))] sample_roster = Some pm'
     \<and> (\<exists>added. pm' = [] @ added \<and> distinct (map matched_employee_id added))"
proof -
  obtain pm' where pm: "confirmed_prior_matches ascii (Some []) [] [(''Mari'', CandDict None (Some (uuid_str 1)))] sample_roster = Some pm'"
    by (simp add: confirmed_prior_matches_def)
  with bridge_adds_only_confirmed [OF pm] show ?thesis by blast
qed

end
