(* ===== verification/Backfill.thy ===== *)
theory Backfill
  imports AliasLearning
begin

section \<open>Carrying hours across a clarification round\<close>

text \<open>
  The pure parts of \<open>app/pipeline/orchestrator.py\<close> that decide what is paid after a reply:
  \<open>backfill_extracted\<close>, the classification of a reply to the fields that were asked, the two
  sets built from it and the overwrite of the combined extraction (steps 1, 2 and 2.5 of
  \<open>resume_pipeline\<close>). Fields of the persisted \<open>clarified_fields\<close> are hours fields.
\<close>

type_synonym field_key = "string \<times> hours_field"
type_synonym clarified_fields = "(string, (hours_field, clarified_outcome) dict) dict"

definition backfill_field ::
  "field_key list \<Rightarrow> string \<Rightarrow> extracted_employee \<Rightarrow> extracted_employee \<Rightarrow> hours_field \<Rightarrow> extracted_employee \<Rightarrow> extracted_employee" where
  "backfill_field skip i snap emp f d =
     (if \<not> is_paid (get_hours emp f) \<and> is_paid (get_hours snap f) \<and> (i, f) \<notin> set skip
      then set_hours f (get_hours snap f) d else d)"

definition backfill_employee ::
  "field_key list \<Rightarrow> (uuid, extracted_employee) dict \<Rightarrow> (string, uuid) dict \<Rightarrow> extracted_employee \<Rightarrow> extracted_employee" where
  "backfill_employee skip snaps ids emp =
     (case map_of ids (submitted_name emp) of
        None \<Rightarrow> emp
      | Some i \<Rightarrow>
          (case map_of snaps i of
             None \<Rightarrow> emp
           | Some snap \<Rightarrow> fold (backfill_field skip (uuid_str i) snap emp) HOURS_FIELDS emp))"

definition backfill_extracted ::
  "extracted \<Rightarrow> extracted option \<Rightarrow> name_match list \<Rightarrow> name_match list \<Rightarrow> field_key list \<Rightarrow> extracted" where
  "backfill_extracted x snapshot prior_matches ms resolved_drops =
     (case snapshot of
        None \<Rightarrow> x
      | Some s \<Rightarrow>
          (let snaps = id_keyed s prior_matches
           in if snaps = [] then x
              else x\<lparr>employees := map (backfill_employee resolved_drops snaps (name_to_id ms)) (employees x)\<rparr>))"

subsection \<open>Classifying the reply\<close>

text \<open>The reply's employee of an id: the first name of the reply that maps to it. Prior matches
  come first in the map, so the reply's own resolution wins for a shared name.\<close>

definition reply_employee ::
  "extracted \<Rightarrow> name_match list \<Rightarrow> name_match list \<Rightarrow> string \<Rightarrow> extracted_employee option" where
  "reply_employee reply prior_matches current_matches i =
     (let ids = name_to_id (prior_matches @ current_matches);
          raw = dict_of (map (\<lambda>e. (submitted_name e, e)) (employees reply))
      in map_option snd (first_match (\<lambda>(n, e). map_option uuid_str (map_of ids n) = Some i) raw))"

definition classify_value :: "decimal option \<Rightarrow> clarified_outcome \<times> decimal option" where
  "classify_value raw =
     (case raw of
        None \<Rightarrow> (CarriedForward, None)
      | Some v \<Rightarrow>
          if dec_lt dec_zero v then (ClientSupplied, Some v)
          else if dec_eq v dec_zero then (ConfirmedDropped, Some dec_zero)
          else (CarriedForward, None))"

record classification =
  cl_fields :: clarified_fields
  cl_new :: "field_key list"
  cl_unresolvable :: "field_key list"
  cl_overrides :: "(field_key, decimal option) dict"

definition asked_keys :: "clarified_fields \<Rightarrow> field_key list" where
  "asked_keys c = concat (map (\<lambda>(i, fs). map (\<lambda>(f, out). (i, f)) (filter (\<lambda>(f, out). out = Asked) fs)) c)"

definition classify_reply :: "(string \<Rightarrow> extracted_employee option) \<Rightarrow> clarified_fields \<Rightarrow> classification" where
  "classify_reply reply_emp c =
     \<lparr>cl_fields = map (\<lambda>(i, fs). (i, map (\<lambda>(f, out). (f,
          if out \<noteq> Asked then out
          else (case reply_emp i of None \<Rightarrow> Asked | Some e \<Rightarrow> fst (classify_value (get_hours e f))))) fs)) c,
      cl_new = filter (\<lambda>(i, f). reply_emp i \<noteq> None) (asked_keys c),
      cl_unresolvable = filter (\<lambda>(i, f). reply_emp i = None) (asked_keys c),
      cl_overrides = dict_of (map (\<lambda>(i, f). ((i, f),
          case reply_emp i of None \<Rightarrow> None | Some e \<Rightarrow> snd (classify_value (get_hours e f)))) (asked_keys c))\<rparr>"

definition keys_with :: "clarified_outcome set \<Rightarrow> clarified_fields \<Rightarrow> field_key list" where
  "keys_with outs c = concat (map (\<lambda>(i, fs). map (\<lambda>(f, out). (i, f)) (filter (\<lambda>(f, out). out \<in> outs) fs)) c)"

definition outcome_of :: "clarified_fields \<Rightarrow> field_key \<Rightarrow> clarified_outcome option" where
  "outcome_of c k = (case map_of c (fst k) of None \<Rightarrow> None | Some fs \<Rightarrow> map_of fs (snd k))"

definition suppress_detection :: "clarified_fields \<Rightarrow> classification \<Rightarrow> field_key list" where
  "suppress_detection prior cl = keys_with {ConfirmedDropped, ClientSupplied} prior @ keys_with {CarriedForward} prior @ cl_new cl"

definition backfill_skip :: "clarified_fields \<Rightarrow> classification \<Rightarrow> field_key list" where
  "backfill_skip prior cl =
     keys_with {ConfirmedDropped, ClientSupplied} prior
     @ filter (\<lambda>k. outcome_of (cl_fields cl) k \<in> {Some ConfirmedDropped, Some ClientSupplied}) (cl_new cl)
     @ cl_unresolvable cl"

definition apply_override ::
  "(field_key, decimal option) dict \<Rightarrow> string \<Rightarrow> hours_field \<Rightarrow> extracted_employee \<Rightarrow> extracted_employee" where
  "apply_override ovs i f e = (case map_of ovs (i, f) of None \<Rightarrow> e | Some v \<Rightarrow> set_hours f v e)"

definition apply_reply_values ::
  "(field_key, decimal option) dict \<Rightarrow> (string, uuid) dict \<Rightarrow> extracted \<Rightarrow> extracted" where
  "apply_reply_values ovs ids x =
     (if ovs = [] then x
      else x\<lparr>employees := map (\<lambda>e. case map_of ids (submitted_name e) of
               None \<Rightarrow> e
             | Some i \<Rightarrow> fold (apply_override ovs (uuid_str i)) HOURS_FIELDS e) (employees x)\<rparr>)"

subsection \<open>Backfill, field by field\<close>

lemma fold_backfill_hours:
  "distinct fs \<Longrightarrow> get_hours (fold (backfill_field skip i snap emp) fs d) f =
     (if f \<in> set fs \<and> \<not> is_paid (get_hours emp f) \<and> is_paid (get_hours snap f) \<and> (i, f) \<notin> set skip
      then get_hours snap f else get_hours d f)"
  by (induction fs arbitrary: d) (auto simp: backfill_field_def)

lemma fold_backfill_frame:
  "submitted_name (fold (backfill_field skip i snap emp) fs d) = submitted_name d"
  "contribution_401k_override (fold (backfill_field skip i snap emp) fs d) = contribution_401k_override d"
  by (induction fs arbitrary: d) (auto simp: backfill_field_def)

lemma backfill_employee_hours:
  "get_hours (backfill_employee skip snaps ids emp) f =
     (case map_of ids (submitted_name emp) of
        None \<Rightarrow> get_hours emp f
      | Some i \<Rightarrow>
          (case map_of snaps i of
             None \<Rightarrow> get_hours emp f
           | Some snap \<Rightarrow>
               if \<not> is_paid (get_hours emp f) \<and> is_paid (get_hours snap f) \<and> (uuid_str i, f) \<notin> set skip
               then get_hours snap f else get_hours emp f))"
  by (simp add: backfill_employee_def fold_backfill_hours split: option.split)

lemma backfill_employee_frame [simp]:
  "submitted_name (backfill_employee skip snaps ids emp) = submitted_name emp"
  "contribution_401k_override (backfill_employee skip snaps ids emp) = contribution_401k_override emp"
  by (simp_all add: backfill_employee_def fold_backfill_frame split: option.split)

lemma backfill_extracted_employees:
  "employees (backfill_extracted x (Some s) pm ms skip) =
     map (backfill_employee skip (id_keyed s pm) (name_to_id ms)) (employees x)"
proof (cases "id_keyed s pm = []")
  case True
  have "backfill_employee skip [] ids e = e" for ids e by (simp add: backfill_employee_def split: option.split)
  then have "map (backfill_employee skip [] (name_to_id ms)) (employees x) = employees x" by (simp add: map_idI)
  with True show ?thesis by (simp add: backfill_extracted_def)
qed (simp add: backfill_extracted_def Let_def)

lemma backfill_extracted_names:
  "map submitted_name (employees (backfill_extracted x s pm ms skip)) = map submitted_name (employees x)"
  by (cases s) (simp_all add: backfill_extracted_employees, simp add: backfill_extracted_def)

lemma fold_override_hours:
  "distinct fs \<Longrightarrow> get_hours (fold (apply_override ovs i) fs d) f =
     (case if f \<in> set fs then map_of ovs (i, f) else None of None \<Rightarrow> get_hours d f | Some v \<Rightarrow> v)"
  by (induction fs arbitrary: d) (auto simp: apply_override_def split: option.splits)

lemma fold_override_frame:
  "submitted_name (fold (apply_override ovs i) fs d) = submitted_name d"
  by (induction fs arbitrary: d) (auto simp: apply_override_def split: option.splits)

lemma apply_reply_values_employees:
  "employees (apply_reply_values ovs ids x) =
     map (\<lambda>e. case map_of ids (submitted_name e) of
            None \<Rightarrow> e | Some i \<Rightarrow> fold (apply_override ovs (uuid_str i)) HOURS_FIELDS e) (employees x)"
proof (cases "ovs = []")
  case True
  have "fold (apply_override [] i) fs e = e" for i fs e
    by (induction fs arbitrary: e) (simp_all add: apply_override_def)
  with True show ?thesis by (simp add: apply_reply_values_def map_idI split: option.split)
qed (simp add: apply_reply_values_def)

lemma asked_keys_iff: "k \<in> set (asked_keys c) \<longleftrightarrow> (\<exists>fs. (fst k, fs) \<in> set c \<and> (snd k, Asked) \<in> set fs)"
  by (cases k) (force simp: asked_keys_def)

lemma keys_with_iff: "k \<in> set (keys_with outs c) \<longleftrightarrow> (\<exists>fs out. (fst k, fs) \<in> set c \<and> (snd k, out) \<in> set fs \<and> out \<in> outs)"
  by (cases k) (force simp: keys_with_def)

lemma map_of_map_key: "map_of (map (\<lambda>k. (k, g k)) ks) k = (if k \<in> set ks then Some (g k) else None)"
  by (induction ks) auto

lemma classify_overrides:
  "map_of (cl_overrides (classify_reply reply_emp c)) (i, f) =
     (if (i, f) \<in> set (asked_keys c)
      then Some (case reply_emp i of None \<Rightarrow> None | Some e \<Rightarrow> snd (classify_value (get_hours e f))) else None)"
proof -
  have "map_of (cl_overrides (classify_reply reply_emp c)) (i, f) =
      map_of (map (\<lambda>k. (k, case reply_emp (fst k) of None \<Rightarrow> None | Some e \<Rightarrow> snd (classify_value (get_hours e (snd k)))))
        (rev (asked_keys c))) (i, f)"
    by (simp add: classify_reply_def rev_map [symmetric] case_prod_beta cong: map_cong)
  then show ?thesis by (simp add: map_of_map_key split: option.split)
qed


subsection \<open>What an answered field is paid\<close>

definition wf_clarified :: "clarified_fields \<Rightarrow> bool" where
  "wf_clarified c \<longleftrightarrow> distinct (map fst c) \<and> (\<forall>(i, fs) \<in> set c. distinct (map fst fs))"

lemma outcome_of_Some:
  assumes "wf_clarified c"
  shows "outcome_of c (i, f) = Some out \<longleftrightarrow> (\<exists>fs. (i, fs) \<in> set c \<and> (f, out) \<in> set fs)"
proof -
  have d: "distinct (map fst c)" "(i, fs) \<in> set c \<Longrightarrow> distinct (map fst fs)" for fs
    using assms by (auto simp: wf_clarified_def)
  show ?thesis
  proof (cases "map_of c i")
    case None
    then have "(i, fs) \<notin> set c" for fs by (force simp: map_of_eq_None_iff)
    with None show ?thesis by (simp add: outcome_of_def)
  next
    case (Some gs)
    then have "(i, fs) \<in> set c \<longleftrightarrow> fs = gs" for fs
      unfolding map_of_eq_Some_iff [OF d(1), symmetric] by auto
    moreover from this have "distinct (map fst gs)" using d(2) by blast
    ultimately show ?thesis using Some by (simp add: outcome_of_def map_of_eq_Some_iff)
  qed
qed

lemma keys_with_outcome: "wf_clarified c \<Longrightarrow> (i, f) \<in> set (keys_with outs c) \<longleftrightarrow> (\<exists>out \<in> outs. outcome_of c (i, f) = Some out)"
  by (auto simp: keys_with_iff outcome_of_Some)

lemma asked_keys_outcome: "wf_clarified c \<Longrightarrow> (i, f) \<in> set (asked_keys c) \<longleftrightarrow> outcome_of c (i, f) = Some Asked"
  by (auto simp: asked_keys_iff outcome_of_Some)

definition reclassify :: "(string \<Rightarrow> extracted_employee option) \<Rightarrow> string \<Rightarrow> hours_field \<Rightarrow> clarified_outcome \<Rightarrow> clarified_outcome" where
  "reclassify reply_emp i f out =
     (if out \<noteq> Asked then out
      else (case reply_emp i of None \<Rightarrow> Asked | Some e \<Rightarrow> fst (classify_value (get_hours e f))))"

lemma map_of_map_val: "map_of (map (\<lambda>(k, v). (k, g k v)) d) k = map_option (g k) (map_of d k)"
  by (induction d) auto

lemma classify_outcome:
  "outcome_of (cl_fields (classify_reply reply_emp c)) (i, f) = map_option (reclassify reply_emp i f) (outcome_of c (i, f))"
proof -
  have "cl_fields (classify_reply reply_emp c)
      = map (\<lambda>(i, fs). (i, map (\<lambda>(f, out). (f, reclassify reply_emp i f out)) fs)) c"
    by (simp add: classify_reply_def reclassify_def)
  then show ?thesis by (simp add: outcome_of_def map_of_map_val split: option.split)
qed

lemma classify_value_cases:
  "classify_value raw = (ClientSupplied, raw) \<and> is_paid raw
   \<or> classify_value raw = (ConfirmedDropped, Some dec_zero) \<and> \<not> is_paid raw \<and> raw \<noteq> None
   \<or> classify_value raw = (CarriedForward, None) \<and> \<not> is_paid raw"
  by (cases raw) (auto simp: classify_value_def is_paid_def)

lemma backfill_skip_asked:
  assumes "wf_clarified c" "outcome_of c (i, f) = Some Asked"
  shows "(i, f) \<in> set (backfill_skip c (classify_reply re c)) \<longleftrightarrow>
    (case re i of None \<Rightarrow> True | Some r \<Rightarrow> fst (classify_value (get_hours r f)) \<noteq> CarriedForward)"
proof -
  let ?cl = "classify_reply re c"
  have k: "(i, f) \<in> set (asked_keys c)" using assms by (simp add: asked_keys_outcome)
  have new: "(i, f) \<in> set (cl_new ?cl) \<longleftrightarrow> re i \<noteq> None" "(i, f) \<in> set (cl_unresolvable ?cl) \<longleftrightarrow> re i = None"
    using k by (simp_all add: classify_reply_def)
  have prior: "(i, f) \<notin> set (keys_with {ConfirmedDropped, ClientSupplied} c)"
    using assms by (simp add: keys_with_outcome)
  have out: "outcome_of (cl_fields ?cl) (i, f) = Some (reclassify re i f Asked)"
    by (simp add: classify_outcome assms(2))
  show ?thesis
  proof (cases "re i")
    case None
    then show ?thesis using new by (simp add: backfill_skip_def)
  next
    case (Some r)
    then show ?thesis using new prior out classify_value_cases [of "get_hours r f"]
      by (auto simp: backfill_skip_def reclassify_def)
  qed
qed

definition answered_value :: "extracted_employee option \<Rightarrow> extracted_employee option \<Rightarrow> hours_field \<Rightarrow> decimal option" where
  "answered_value reply snap f =
     (case reply of
        None \<Rightarrow> None
      | Some r \<Rightarrow>
          (case fst (classify_value (get_hours r f)) of
             ClientSupplied \<Rightarrow> get_hours r f
           | ConfirmedDropped \<Rightarrow> Some dec_zero
           | _ \<Rightarrow> (case snap of None \<Rightarrow> None
                  | Some s \<Rightarrow> if is_paid (get_hours s f) then get_hours s f else None)))"

lemma dec_zero_not_paid [simp]: "\<not> is_paid (Some dec_zero)" "\<not> is_paid None"
  by (simp_all add: is_paid_iff)

lemma answered_field:
  assumes wf: "wf_clarified c" and ask: "outcome_of c (uuid_str i, f) = Some Asked"
    and e: "e \<in> set (employees combined)"
    and ids: "map_of cids (submitted_name e) = Some i" "map_of (name_to_id ms) (submitted_name e) = Some i"
    and cl: "cl = classify_reply re c"
  shows "\<exists>e2 \<in> set (employees (backfill_extracted (apply_reply_values (cl_overrides cl) cids combined)
            (Some snap) pm ms (backfill_skip c cl))). submitted_name e2 = submitted_name e
          \<and> get_hours e2 f = answered_value (re (uuid_str i)) (map_of (id_keyed snap pm) i) f"
proof -
  define e1 where "e1 = fold (apply_override (cl_overrides cl) (uuid_str i)) HOURS_FIELDS e"
  define e2 where "e2 = backfill_employee (backfill_skip c cl) (id_keyed snap pm) (name_to_id ms) e1"
  have k: "(uuid_str i, f) \<in> set (asked_keys c)" using wf ask by (simp add: asked_keys_outcome)
  have n: "submitted_name e1 = submitted_name e" by (simp add: e1_def fold_override_frame)
  have v: "get_hours e1 f = (case re (uuid_str i) of None \<Rightarrow> None | Some r \<Rightarrow> snd (classify_value (get_hours r f)))"
    by (simp add: e1_def fold_override_hours cl classify_overrides k)
  have "e1 \<in> set (employees (apply_reply_values (cl_overrides cl) cids combined))"
    unfolding apply_reply_values_employees e1_def using e ids(1) by (auto intro!: image_eqI [of _ _ e])
  then have "e2 \<in> set (employees (backfill_extracted (apply_reply_values (cl_overrides cl) cids combined)
            (Some snap) pm ms (backfill_skip c cl)))"
    by (simp add: backfill_extracted_employees e2_def)
  moreover have "submitted_name e2 = submitted_name e" by (simp add: e2_def n)
  moreover have "get_hours e2 f = answered_value (re (uuid_str i)) (map_of (id_keyed snap pm) i) f"
  proof (cases "re (uuid_str i)")
    case None
    then show ?thesis
      using backfill_skip_asked [OF wf ask, of re]
      by (simp add: e2_def backfill_employee_hours n ids(2) v answered_value_def cl split: option.split)
  next
    case (Some r)
    then show ?thesis
      using backfill_skip_asked [OF wf ask, of re] classify_value_cases [of "get_hours r f"]
      by (auto simp: e2_def backfill_employee_hours n ids(2) v answered_value_def cl split: option.split)
  qed
  ultimately show ?thesis by blast
qed


subsection \<open>Properties\<close>

text \<open>C19. Backfilling only fills silence: whoever is in the extraction stays, in order and with
  the same name and 401k override; a field the current extraction pays is never touched, a
  field the client resolved is never restored, and every other field the snapshot of the
  same person paid is carried forward.\<close>

theorem backfill_only_fills_silence:
  "map submitted_name (employees (backfill_extracted x (Some s) pm ms skip)) = map submitted_name (employees x)
   \<and> (\<forall>k < length (employees x). \<forall>f.
        get_hours (employees (backfill_extracted x (Some s) pm ms skip) ! k) f =
          (case map_of (name_to_id ms) (submitted_name (employees x ! k)) of
             None \<Rightarrow> get_hours (employees x ! k) f
           | Some i \<Rightarrow> (case map_of (id_keyed s pm) i of
               None \<Rightarrow> get_hours (employees x ! k) f
             | Some snap \<Rightarrow>
                 if \<not> is_paid (get_hours (employees x ! k) f) \<and> is_paid (get_hours snap f) \<and> (uuid_str i, f) \<notin> set skip
                 then get_hours snap f else get_hours (employees x ! k) f)))"
  by (simp add: backfill_extracted_names, simp add: backfill_extracted_employees backfill_employee_hours)

theorem backfill_only_fills_silence_witness:
  "get_hours (employees (backfill_extracted sample_reply (Some sample_original) [sample_match ''Maria Chen'']
      [sample_match ''M. Chen''] []) ! 0) HoursOvertime = Some (Dec 5 0)"
proof -
  have "0 < length (employees sample_reply)" by (simp add: sample_reply_def)
  with backfill_only_fills_silence [of sample_reply sample_original "[sample_match ''Maria Chen'']"
      "[sample_match ''M. Chen'']" "[]"]
  have "get_hours (employees (backfill_extracted sample_reply (Some sample_original) [sample_match ''Maria Chen'']
      [sample_match ''M. Chen''] []) ! 0) HoursOvertime =
      (case map_of (name_to_id [sample_match ''M. Chen'']) (submitted_name (employees sample_reply ! 0)) of
             None \<Rightarrow> get_hours (employees sample_reply ! 0) HoursOvertime
           | Some i \<Rightarrow> (case map_of (id_keyed sample_original [sample_match ''Maria Chen'']) i of
               None \<Rightarrow> get_hours (employees sample_reply ! 0) HoursOvertime
             | Some snap \<Rightarrow>
                 if \<not> is_paid (get_hours (employees sample_reply ! 0) HoursOvertime) \<and> is_paid (get_hours snap HoursOvertime)
                    \<and> (uuid_str i, HoursOvertime) \<notin> set []
                 then get_hours snap HoursOvertime else get_hours (employees sample_reply ! 0) HoursOvertime))"
    by blast
  then show ?thesis
    by (simp add: id_keyed_def name_to_id_def sample_match_def sample_original_def sample_reply_def
      List.map_filter_def no_hours_def is_paid_iff dval_def)
qed

text \<open>C18. The paid value of an asked field is the client's answer, whatever the combined
  extraction says: the value supplied in the reply alone, an explicit zero as zero, the
  snapshot's value where the reply is silent, and nothing where the reply does not identify
  the employee. Neither the original section of the combined body nor the snapshot can
  override an answer.\<close>

theorem paid_value_is_the_answer:
  assumes "wf_clarified c" "outcome_of c (uuid_str i, f) = Some Asked"
    "e \<in> set (employees combined)" "map_of cids (submitted_name e) = Some i"
    "map_of (name_to_id ms) (submitted_name e) = Some i" "cl = classify_reply re c"
  shows "\<exists>e2 \<in> set (employees (backfill_extracted (apply_reply_values (cl_overrides cl) cids combined)
            (Some snap) pm ms (backfill_skip c cl))). submitted_name e2 = submitted_name e
          \<and> get_hours e2 f = answered_value (re (uuid_str i)) (map_of (id_keyed snap pm) i) f"
  by (rule answered_field [OF assms])

theorem paid_value_is_the_answer_witness:
  "\<exists>e2 \<in> set (employees (backfill_extracted (apply_reply_values (cl_overrides
        (classify_reply (\<lambda>i. Some ((no_hours ''M. Chen'')\<lparr>hours_overtime := Some (Dec 0 0)\<rparr>)) [(uuid_str 1, [(HoursOvertime, Asked)])]))
        [(''Maria Chen'', 1)] sample_original) (Some sample_original) [sample_match ''Maria Chen''] [sample_match ''Maria Chen'']
        (backfill_skip [(uuid_str 1, [(HoursOvertime, Asked)])]
          (classify_reply (\<lambda>i. Some ((no_hours ''M. Chen'')\<lparr>hours_overtime := Some (Dec 0 0)\<rparr>)) [(uuid_str 1, [(HoursOvertime, Asked)])])))).
      submitted_name e2 = ''Maria Chen'' \<and> get_hours e2 HoursOvertime = Some dec_zero"
proof -
  let ?c = "[(uuid_str 1, [(HoursOvertime, Asked)])]" and ?r = "(no_hours ''M. Chen'')\<lparr>hours_overtime := Some (Dec 0 0)\<rparr>"
  have "wf_clarified ?c" "outcome_of ?c (uuid_str 1, HoursOvertime) = Some Asked"
    by (simp_all add: wf_clarified_def outcome_of_def)
  moreover have "hd (employees sample_original) \<in> set (employees sample_original)"
    "submitted_name (hd (employees sample_original)) = ''Maria Chen''"
    by (simp_all add: sample_original_def no_hours_def)
  moreover have "map_of (name_to_id [sample_match ''Maria Chen'']) ''Maria Chen'' = Some 1"
    by (simp add: name_to_id_def sample_match_def List.map_filter_def)
  moreover have "answered_value (Some ?r) s HoursOvertime = Some dec_zero" for s
    by (simp add: answered_value_def classify_value_def dec_order dval_def dec_zero_def no_hours_def)
  ultimately show ?thesis
    using paid_value_is_the_answer [of ?c 1 HoursOvertime "hd (employees sample_original)" sample_original
        "[(''Maria Chen'', 1)]" "[sample_match ''Maria Chen'']" _ "\<lambda>i. Some ?r" sample_original "[sample_match ''Maria Chen'']"]
    by simp
qed

end
