(* ===== verification/Stages.thy ===== *)
theory Stages
  imports Calculate Backfill
begin

section \<open>The stages of a run\<close>

text \<open>
  The columns of a \<open>payroll_runs\<close> row with their writers (\<open>app/db/repo/pipeline_state.py\<close>,
  \<open>runs.py\<close>), the line items of a processed run and the shared gate path \<open>_run_stages\<close> of
  \<open>app/pipeline/orchestrator.py\<close>. An operation acts on the row its \<open>WHERE id\<close> selects. The
  extraction itself is an LLM call: its validated result is an argument.
\<close>

subsection \<open>The run row and its writers\<close>

record payroll_run =
  run_id :: uuid
  business_id :: uuid
  status :: run_status
  extracted_data :: "extracted option"
  decision_data :: "decision option"
  reconciliation :: "name_match list option"
  line_items :: "paystub list"
  hours_changes :: "hours_change list option"
  clarified_fields :: "clarified_fields option"
  pre_clarify_extracted :: "extracted option"
  clarification_round :: nat
  alias_candidates :: "(string, candidate_value) dict option"
  reply_epoch :: nat
  record_only :: bool
  error_reason :: "string option"
  error_detail :: "string option"
  source_email_id :: "uuid option"

definition set_status :: "run_status \<Rightarrow> payroll_run \<Rightarrow> payroll_run" where
  "set_status s r = r\<lparr>status := s\<rparr>"

definition claim_status :: "run_status \<Rightarrow> run_status \<Rightarrow> payroll_run \<Rightarrow> bool \<times> payroll_run" where
  "claim_status expected new r = (if status r = expected then (True, r\<lparr>status := new\<rparr>) else (False, r))"

definition TERMINAL_STATUSES :: "run_status list" where
  "TERMINAL_STATUSES = [SENT, RECONCILED, REJECTED, ERROR]"

definition record_run_error :: "string \<Rightarrow> string option \<Rightarrow> payroll_run \<Rightarrow> payroll_run" where
  "record_run_error reason detail r =
     (if status r \<notin> set TERMINAL_STATUSES
      then set_status ERROR (r\<lparr>error_reason := Some reason, error_detail := detail\<rparr>) else r)"

definition persist_extracted :: "extracted \<Rightarrow> payroll_run \<Rightarrow> payroll_run" where
  "persist_extracted x r = r\<lparr>extracted_data := Some x\<rparr>"

definition persist_decision :: "decision \<Rightarrow> payroll_run \<Rightarrow> payroll_run" where
  "persist_decision d r = r\<lparr>decision_data := Some d\<rparr>"

definition persist_reconciliation :: "name_match list \<Rightarrow> payroll_run \<Rightarrow> payroll_run" where
  "persist_reconciliation ms r = r\<lparr>reconciliation := Some ms\<rparr>"

definition replace_line_items :: "paystub list \<Rightarrow> payroll_run \<Rightarrow> payroll_run" where
  "replace_line_items items r = r\<lparr>line_items := items\<rparr>"

definition set_hours_changes :: "hours_change list \<Rightarrow> payroll_run \<Rightarrow> payroll_run" where
  "set_hours_changes cs r = r\<lparr>hours_changes := Some cs\<rparr>"

definition set_alias_candidates :: "(string, candidate_value) dict \<Rightarrow> payroll_run \<Rightarrow> payroll_run" where
  "set_alias_candidates cs r =
     r\<lparr>alias_candidates := Some (fold (\<lambda>(k, v) d. AList.update k v d) cs
        (case alias_candidates r of None \<Rightarrow> [] | Some d \<Rightarrow> d))\<rparr>"

definition set_pre_clarify_extracted :: "extracted \<Rightarrow> payroll_run \<Rightarrow> bool \<times> payroll_run" where
  "set_pre_clarify_extracted x r =
     (if pre_clarify_extracted r = None then (True, r\<lparr>pre_clarify_extracted := Some x\<rparr>) else (False, r))"

definition set_clarified_fields :: "clarified_fields \<Rightarrow> payroll_run \<Rightarrow> payroll_run" where
  "set_clarified_fields c r = r\<lparr>clarified_fields := Some c\<rparr>"

definition load_clarified_fields :: "payroll_run \<Rightarrow> clarified_fields" where
  "load_clarified_fields r = (case clarified_fields r of None \<Rightarrow> [] | Some c \<Rightarrow> c)"

definition set_clarification_round :: "nat \<Rightarrow> payroll_run \<Rightarrow> payroll_run" where
  "set_clarification_round n r = r\<lparr>clarification_round := n\<rparr>"

definition clear_reply_columns :: "payroll_run \<Rightarrow> payroll_run" where
  "clear_reply_columns r =
     r\<lparr>clarified_fields := None, pre_clarify_extracted := None, clarification_round := 0,
       alias_candidates := None, hours_changes := None\<rparr>"

text \<open>\<open>active_handoff\<close>: an unreleased provider handoff of the run, on which the assertion raises.\<close>

definition clear_reply_context :: "bool \<Rightarrow> payroll_run \<Rightarrow> payroll_run res" where
  "clear_reply_context active_handoff r =
     (if active_handoff then Inl RuntimeError
      else Inr ((clear_reply_columns r)\<lparr>reply_epoch := reply_epoch r + 1\<rparr>))"

definition rewind_for_reclaim :: "payroll_run \<Rightarrow> bool \<times> payroll_run" where
  "rewind_for_reclaim r =
     (if status r \<in> {EXTRACTING, COMPUTED, SENT} then (True, (clear_reply_columns r)\<lparr>status := RECEIVED\<rparr>)
      else (False, r))"

lemmas run_writers = set_status_def persist_extracted_def persist_decision_def persist_reconciliation_def
  replace_line_items_def set_hours_changes_def set_alias_candidates_def set_clarified_fields_def
  set_clarification_round_def

subsection \<open>Line items\<close>

definition hours_dict :: "extracted_employee \<Rightarrow> (string, hours_value) dict" where
  "hours_dict e =
     map (\<lambda>f. (field_name f, case get_hours e f of None \<Rightarrow> HNone | Some d \<Rightarrow> HDec d)) HOURS_FIELDS"

text \<open>\<open>fresh k\<close> gives the identifiers of the \<open>k\<close>-th paystub, \<open>now\<close> the clock.\<close>

fun compute_items ::
  "uuid \<Rightarrow> (nat \<Rightarrow> uuid) \<Rightarrow> int \<Rightarrow> (string, name_match) dict \<Rightarrow> (uuid, employee) dict \<Rightarrow> extracted_employee list \<Rightarrow> paystub list res" where
  "compute_items rid fresh now ms emps [] = Inr []"
| "compute_items rid fresh now ms emps (ee # ees) =
     (case Option.bind (map_of ms (submitted_name ee)) matched_employee_id of
        None \<Rightarrow> compute_items rid fresh now ms emps ees
      | Some i \<Rightarrow>
          (case map_of emps i of
             None \<Rightarrow> Inl ValueError
           | Some e \<Rightarrow>
               bind_res (calculate (fresh (length ees)) (fresh (length ees)) now (hours_dict ee) e (contribution_401k_override ee)) (\<lambda>item.
               bind_res (compute_items rid fresh now ms emps ees) (\<lambda>items.
               Inr (item\<lparr>stub_run_id := rid, stub_name := submitted_name ee\<rparr> # items)))))"

definition compute_line_items ::
  "uuid \<Rightarrow> (nat \<Rightarrow> uuid) \<Rightarrow> int \<Rightarrow> extracted \<Rightarrow> name_match list \<Rightarrow> roster \<Rightarrow> paystub list res" where
  "compute_line_items rid fresh now x ms r =
     compute_items rid fresh now (dict_of (map (\<lambda>m. (match_name m, m)) ms))
       (dict_of (map (\<lambda>e. (emp_id e, e)) (roster_employees r))) (employees x)"

subsection \<open>The gate path\<close>

datatype stage_branch = Advanced | Deferred | ClarifyNow decision extracted

record stage_result =
  sr_branch :: stage_branch
  sr_matches :: "name_match list"
  sr_issues :: "validation_issue list"

record stage_inputs =
  si_prior :: "extracted option"
  si_prior_matches :: "name_match list option"
  si_resolved_drops :: "field_key list"
  si_suppress_detection :: "field_key list"
  si_overrides :: "(string, string) dict"
  si_candidates :: "(string, candidate_value) dict"

definition key_strings :: "field_key list \<Rightarrow> (string \<times> string) list" where
  "key_strings ks = map (\<lambda>(i, f). (i, field_name f)) ks"

record gate_facts =
  gf_extracted :: extracted
  gf_matches :: "name_match list"
  gf_changes :: "hours_change list"
  gf_issues :: "validation_issue list"
  gf_decision :: decision

definition gate :: "unicode \<Rightarrow> roster \<Rightarrow> stage_inputs \<Rightarrow> extracted \<Rightarrow> gate_facts" where
  "gate u r si x =
     (let ms = reconcile_names u (map submitted_name (employees x)) r (si_overrides si);
          (x', drops, changes) =
            (case si_prior si of
               None \<Rightarrow> (x, [], [])
             | Some prior \<Rightarrow>
                 (let pm = confirmed_prior_matches u (si_prior_matches si) ms (si_candidates si) r
                  in (backfill_extracted x (Some prior) (case pm of None \<Rightarrow> [] | Some l \<Rightarrow> l) ms (si_resolved_drops si),
                      detect_field_regression prior x pm ms,
                      detect_hours_changes prior x pm ms)));
          issues = validate x' r ms (key_strings (si_suppress_detection si)) drops
      in \<lparr>gf_extracted = x', gf_matches = ms, gf_changes = changes, gf_issues = issues, gf_decision = decide x' ms issues\<rparr>)"

definition run_stages ::
  "unicode \<Rightarrow> (nat \<Rightarrow> uuid) \<Rightarrow> int \<Rightarrow> roster \<Rightarrow> stage_inputs \<Rightarrow> extracted \<Rightarrow> payroll_run \<Rightarrow> (payroll_run \<times> stage_result) res" where
  "run_stages u fresh now r si x run =
     (let g = gate u r si x; process = (final_action_of (gf_decision g) = Process)
      in bind_res (if process then compute_line_items (run_id run) fresh now (gf_extracted g) (gf_matches g) r else Inr []) (\<lambda>items.
         let run1 = set_hours_changes (gf_changes g) (persist_reconciliation (gf_matches g)
                      (persist_decision (gf_decision g) (persist_extracted (gf_extracted g) run)));
             run2 = (if process then set_status AWAITING_APPROVAL (set_status COMPUTED (replace_line_items items run1)) else run1);
             branch = (if process then Advanced
                       else if list_ex (\<lambda>i. issue_kind i = FieldRegression) (gf_issues g) then Deferred
                       else ClarifyNow (gf_decision g) (gf_extracted g))
         in Inr (run2, \<lparr>sr_branch = branch, sr_matches = gf_matches g, sr_issues = gf_issues g\<rparr>)))"

subsection \<open>Line items of a processed run\<close>

lemma gate_parts:
  "gf_matches (gate u r si x) = reconcile_names u (map submitted_name (employees x)) r (si_overrides si)"
  "gf_decision (gate u r si x) = decide (gf_extracted (gate u r si x)) (gf_matches (gate u r si x)) (gf_issues (gate u r si x))"
  "map submitted_name (employees (gf_extracted (gate u r si x))) = map submitted_name (employees x)"
  by (simp_all add: gate_def Let_def backfill_extracted_names split: option.split)

lemma match_dict:
  assumes "distinct ns" "n \<in> set ns"
  shows "map_of (dict_of (map (\<lambda>m. (match_name m, m)) (reconcile_names u ns r ov))) n = Some (resolve_name u r ov n)"
proof -
  have "map_of (rev (map (\<lambda>m. (match_name m, m)) (reconcile_names u ns r ov))) n
      = map_of (map (\<lambda>k. (k, resolve_name u r ov k)) (rev ns)) n"
    by (simp add: reconcile_names_def rev_map comp_def)
  also have "\<dots> = Some (resolve_name u r ov n)" using assms(2) by (simp add: map_of_map_key)
  finally show ?thesis by simp
qed

lemma employee_dict:
  assumes "roster_valid r" "e \<in> set (roster_employees r)"
  shows "map_of (dict_of (map (\<lambda>e. (emp_id e, e)) (roster_employees r))) (emp_id e) = Some e"
proof -
  have "distinct (map fst (rev (map (\<lambda>e. (emp_id e, e)) (roster_employees r))))"
    using assms(1) by (simp add: roster_valid_def comp_def rev_map [symmetric])
  then have "map_of (rev (map (\<lambda>e. (emp_id e, e)) (roster_employees r))) (emp_id e) = Some e"
    using assms(2) by (intro map_of_is_SomeI) auto
  then show ?thesis by simp
qed

lemma calculate_id: "calculate a b now raw e ov = Inr s \<Longrightarrow> stub_employee_id s = Some (emp_id e)"
  by (auto simp: calculate_def Let_def res_simps)

definition item_for :: "uuid \<Rightarrow> (string \<Rightarrow> uuid) \<Rightarrow> extracted_employee \<Rightarrow> paystub \<Rightarrow> bool" where
  "item_for rid ids ee s \<longleftrightarrow> stub_run_id s = rid \<and> stub_name s = submitted_name ee \<and> stub_employee_id s = Some (ids (submitted_name ee))"

lemma compute_items_shape:
  assumes "compute_items rid fresh now ms emps ees = Inr items"
    "\<And>ee. ee \<in> set ees \<Longrightarrow> \<exists>e. Option.bind (map_of ms (submitted_name ee)) matched_employee_id = Some (ids (submitted_name ee))
        \<and> map_of emps (ids (submitted_name ee)) = Some e \<and> emp_id e = ids (submitted_name ee)"
  shows "list_all2 (item_for rid ids) ees items"
  using assms
proof (induction ees arbitrary: items)
  case Nil
  then show ?case by simp
next
  case (Cons ee ees)
  from Cons.prems(2) [of ee] obtain e where e: "Option.bind (map_of ms (submitted_name ee)) matched_employee_id = Some (ids (submitted_name ee))"
    "map_of emps (ids (submitted_name ee)) = Some e" "emp_id e = ids (submitted_name ee)" by auto
  with Cons.prems(1) obtain s ss where
    s: "calculate (fresh (length ees)) (fresh (length ees)) now (hours_dict ee) e (contribution_401k_override ee) = Inr s"
    "compute_items rid fresh now ms emps ees = Inr ss" "items = s\<lparr>stub_run_id := rid, stub_name := submitted_name ee\<rparr> # ss"
    by (auto simp: res_simps)
  have "list_all2 (item_for rid ids) ees ss" using Cons.IH [OF s(2)] Cons.prems(2) by simp
  with s(3) calculate_id [OF s(1)] e(3) show ?case by (simp add: item_for_def [of rid ids ee])
qed

lemma compute_items_total:
  assumes "\<And>ee. ee \<in> set ees \<Longrightarrow> \<exists>i e. Option.bind (map_of ms (submitted_name ee)) matched_employee_id = Some i
        \<and> map_of emps i = Some e \<and> (\<forall>a b. \<exists>s. calculate a b now (hours_dict ee) e (contribution_401k_override ee) = Inr s)"
  shows "\<exists>items. compute_items rid fresh now ms emps ees = Inr items"
  using assms
proof (induction ees)
  case (Cons ee ees)
  obtain items where "compute_items rid fresh now ms emps ees = Inr items" using Cons by auto
  moreover obtain i e s where "Option.bind (map_of ms (submitted_name ee)) matched_employee_id = Some i" "map_of emps i = Some e"
    "calculate (fresh (length ees)) (fresh (length ees)) now (hours_dict ee) e (contribution_401k_override ee) = Inr s"
    using Cons.prems [of ee] by fastforce
  ultimately show ?case by simp
qed simp


text \<open>The extracted employees and roster rows on which the calculation is known to return.\<close>

definition payable :: "employee \<Rightarrow> extracted_employee \<Rightarrow> bool" where
  "payable e ee \<longleftrightarrow> raw_ok (hours_dict ee) \<and> calc_inputs e (contribution_401k_override ee)
     \<and> (case emp_pay_type e of
          Hourly \<Rightarrow> \<exists>r. hourly_rate e = Some r \<and> amount (10 ^ 5) r
        | Salary \<Rightarrow> \<exists>a. annual_salary e = Some a \<and> amount (10 ^ 9) a \<and> dexp a = -2)"

lemma payable_calculates:
  assumes "payable e ee"
  shows "\<exists>s. calculate a b now (hours_dict ee) e (contribution_401k_override ee) = Inr s"
proof (cases "emp_pay_type e")
  case Hourly
  with assms obtain r where "hourly_rate e = Some r" "amount (10 ^ 5) r" by (auto simp: payable_def)
  with assms Hourly show ?thesis
    using calculate_hourly [of "hours_dict ee" e "contribution_401k_override ee" r a b now] by (auto simp: payable_def)
next
  case Salary
  with assms obtain c where "annual_salary e = Some c" "amount (10 ^ 9) c" "dexp c = -2" by (auto simp: payable_def)
  with assms Salary show ?thesis
    using calculate_salary [of "hours_dict ee" e "contribution_401k_override ee" c a b now] by (auto simp: payable_def)
qed

text \<open>What the gate establishes for each name of a processed run.\<close>

definition name_id :: "unicode \<Rightarrow> roster \<Rightarrow> stage_inputs \<Rightarrow> string \<Rightarrow> uuid" where
  "name_id u r si n = the (matched_employee_id (resolve_name u r (si_overrides si) n))"

lemma processed_names:
  assumes "roster_valid r" "final_action_of (gf_decision (gate u r si x)) = Process"
  shows "distinct (map submitted_name (employees x))" "inj_on (name_id u r si) (set (map submitted_name (employees x)))"
    "n \<in> set (map submitted_name (employees x)) \<Longrightarrow>
       \<exists>e \<in> set (roster_employees r). matched_employee_id (resolve_name u r (si_overrides si) n) = Some (emp_id e)
         \<and> name_id u r si n = emp_id e"
proof -
  let ?ns = "map submitted_name (employees x)" and ?ms = "reconcile_names u (map submitted_name (employees x)) r (si_overrides si)"
  have p: "final_action_of (decide (gf_extracted (gate u r si x)) ?ms (gf_issues (gate u r si x))) = Process"
    using assms(2) by (simp add: gate_parts(2) gate_parts(1))
  show "distinct ?ns" using p by (simp add: decide_Process_iff reconcile_names_matches)
  show e: "\<exists>e \<in> set (roster_employees r). matched_employee_id (resolve_name u r (si_overrides si) n) = Some (emp_id e)
         \<and> name_id u r si n = emp_id e" if "n \<in> set ?ns" for n
    using processed_employee [OF assms(1) p that] by (auto simp: name_id_def)
  have inj: "injective_matches ?ms" using p by (simp add: decide_Process_iff)
  show "inj_on (name_id u r si) (set ?ns)"
  proof (rule inj_onI)
    fix n n' assume n: "n \<in> set ?ns" "n' \<in> set ?ns" "name_id u r si n = name_id u r si n'"
    obtain e :: employee where "matched_employee_id (resolve_name u r (si_overrides si) n) = Some (emp_id e)" "name_id u r si n = emp_id e"
      using e [OF n(1)] by blast
    moreover from e [OF n(2)] obtain e' :: employee where
      "matched_employee_id (resolve_name u r (si_overrides si) n') = Some (emp_id e')" "name_id u r si n' = emp_id e'" by blast
    ultimately show "n = n'" using n(3) by (intro injective_reconcile [OF inj n(1,2)]) simp_all
  qed
qed

lemma processed_lookup:
  assumes "roster_valid r" "final_action_of (gf_decision (gate u r si x)) = Process"
    "ee \<in> set (employees (gf_extracted (gate u r si x)))"
  shows "\<exists>e \<in> set (roster_employees r).
      Option.bind (map_of (dict_of (map (\<lambda>m. (match_name m, m)) (gf_matches (gate u r si x)))) (submitted_name ee)) matched_employee_id
        = Some (name_id u r si (submitted_name ee))
    \<and> map_of (dict_of (map (\<lambda>e. (emp_id e, e)) (roster_employees r))) (name_id u r si (submitted_name ee)) = Some e
    \<and> emp_id e = name_id u r si (submitted_name ee)"
proof -
  have n: "submitted_name ee \<in> set (map submitted_name (employees x))"
    using assms(3) unfolding gate_parts(3) [of u r si x, symmetric] by simp
  from processed_names(3) [OF assms(1,2) n] obtain e where e: "e \<in> set (roster_employees r)"
    "matched_employee_id (resolve_name u r (si_overrides si) (submitted_name ee)) = Some (emp_id e)"
    "name_id u r si (submitted_name ee) = emp_id e" by blast
  have m: "map_of (dict_of (map (\<lambda>m. (match_name m, m)) (gf_matches (gate u r si x)))) (submitted_name ee)
      = Some (resolve_name u r (si_overrides si) (submitted_name ee))"
    unfolding gate_parts(1) by (rule match_dict [OF processed_names(1) [OF assms(1,2)] n])
  show ?thesis
    unfolding m using e employee_dict [OF assms(1) e(1)] by (intro bexI [of _ e]) simp_all
qed

lemma processed_items:
  assumes "roster_valid r" "final_action_of (gf_decision (gate u r si x)) = Process"
    "compute_line_items rid fresh now (gf_extracted (gate u r si x)) (gf_matches (gate u r si x)) r = Inr items"
  shows "list_all2 (item_for rid (name_id u r si)) (employees (gf_extracted (gate u r si x))) items"
  using assms(3) unfolding compute_line_items_def
  by (rule compute_items_shape) (use processed_lookup [OF assms(1,2)] in blast)

lemma items_names:
  assumes "list_all2 (item_for rid ids) ees items"
  shows "map stub_name items = map submitted_name ees" "map stub_employee_id items = map (Some \<circ> ids \<circ> submitted_name) ees"
    "\<forall>s \<in> set items. stub_run_id s = rid"
  using assms by (induction ees items rule: list_all2_induct) (auto simp: item_for_def)

lemma run_stages_Inr:
  "run_stages u fresh now r si x run = Inr (run', sr) \<Longrightarrow>
     (if final_action_of (gf_decision (gate u r si x)) = Process
      then \<exists>items. compute_line_items (run_id run) fresh now (gf_extracted (gate u r si x)) (gf_matches (gate u r si x)) r = Inr items
         \<and> status run' = AWAITING_APPROVAL \<and> line_items run' = items \<and> sr_branch sr = Advanced
      else status run' = status run \<and> line_items run' = line_items run \<and> sr_branch sr \<noteq> Advanced)
   \<and> decision_data run' = Some (gf_decision (gate u r si x)) \<and> extracted_data run' = Some (gf_extracted (gate u r si x))
   \<and> reconciliation run' = Some (gf_matches (gate u r si x)) \<and> hours_changes run' = Some (gf_changes (gate u r si x))
   \<and> run_id run' = run_id run"
  by (auto simp: run_stages_def Let_def res_simps run_writers split: if_splits)

lemma run_stages_completes:
  assumes "roster_valid r" "final_action_of (gf_decision (gate u r si x)) = Process"
    "\<forall>ee \<in> set (employees (gf_extracted (gate u r si x))). \<forall>e \<in> set (roster_employees r).
       emp_id e = name_id u r si (submitted_name ee) \<longrightarrow> payable e ee"
  shows "\<exists>run' sr. run_stages u fresh now r si x run = Inr (run', sr) \<and> status run' = AWAITING_APPROVAL
    \<and> decision_data run' = Some (gf_decision (gate u r si x)) \<and> reconciliation run' = Some (gf_matches (gate u r si x))"
proof -
  have "\<exists>items. compute_line_items (run_id run) fresh now (gf_extracted (gate u r si x)) (gf_matches (gate u r si x)) r = Inr items"
    unfolding compute_line_items_def
  proof (rule compute_items_total)
    fix ee assume ee: "ee \<in> set (employees (gf_extracted (gate u r si x)))"
    from processed_lookup [OF assms(1,2) ee] obtain e where e: "e \<in> set (roster_employees r)"
      "Option.bind (map_of (dict_of (map (\<lambda>m. (match_name m, m)) (gf_matches (gate u r si x)))) (submitted_name ee)) matched_employee_id
        = Some (name_id u r si (submitted_name ee))"
      "map_of (dict_of (map (\<lambda>e. (emp_id e, e)) (roster_employees r))) (name_id u r si (submitted_name ee)) = Some e"
      "emp_id e = name_id u r si (submitted_name ee)" by blast
    then have "payable e ee" using assms(3) ee by blast
    with e(2,3) payable_calculates show "\<exists>i e. Option.bind (map_of (dict_of (map (\<lambda>m. (match_name m, m)) (gf_matches (gate u r si x))))
        (submitted_name ee)) matched_employee_id = Some i
        \<and> map_of (dict_of (map (\<lambda>e. (emp_id e, e)) (roster_employees r))) i = Some e
        \<and> (\<forall>a b. \<exists>s. calculate a b now (hours_dict ee) e (contribution_401k_override ee) = Inr s)" by blast
  qed
  then obtain run' sr where "run_stages u fresh now r si x run = Inr (run', sr)"
    using assms(2) by (auto simp: run_stages_def Let_def)
  with run_stages_Inr [OF this] assms(2) show ?thesis by auto
qed

text \<open>A first run for one employee, the name resolved by an operator's mapping.\<close>

definition sample_inputs :: stage_inputs where
  "sample_inputs = \<lparr>si_prior = None, si_prior_matches = None, si_resolved_drops = [], si_suppress_detection = [],
     si_overrides = [(''M. Chen'', uuid_str 1)], si_candidates = []\<rparr>"

definition sample_run :: payroll_run where
  "sample_run = \<lparr>run_id = 9, business_id = 7, status = EXTRACTING, extracted_data = None, decision_data = None,
     reconciliation = None, line_items = [], hours_changes = None, clarified_fields = None, pre_clarify_extracted = None,
     clarification_round = 0, alias_candidates = None, reply_epoch = 0, record_only = False, error_reason = None,
     error_detail = None, source_email_id = None\<rparr>"

lemma sample_resolve:
  "resolve_name u sample_roster (si_overrides sample_inputs) ''M. Chen'' =
     \<lparr>match_name = ''M. Chen'', matched_employee_id = Some 1, match_source_of = SrcOperator, resolved = True,
      match_reason = ''operator-resolved''\<rparr>"
  by (simp add: resolve_name_def override_id_def sample_inputs_def sample_roster_def sample_employee_def)

lemma sample_gate:
  "gf_extracted (gate u sample_roster sample_inputs sample_reply) = sample_reply"
  "final_action_of (gf_decision (gate u sample_roster sample_inputs sample_reply)) = Process"
proof -
  show x: "gf_extracted (gate u sample_roster sample_inputs sample_reply) = sample_reply"
    by (simp add: gate_def sample_inputs_def Let_def)
  have m: "gf_matches (gate u sample_roster sample_inputs sample_reply) = [resolve_name u sample_roster (si_overrides sample_inputs) ''M. Chen'']"
    by (simp add: gate_parts(1) reconcile_names_def sample_reply_def no_hours_def)
  have "validate sample_reply sample_roster [resolve_name u sample_roster (si_overrides sample_inputs) ''M. Chen''] [] [] = []"
    unfolding validate_Nil_iff sample_resolve
    by (simp add: sample_reply_def hours_absent_def overtime_unclear_def no_hours_def is_paid_iff dval_def
      employee_pay_type_def employee_pay_periods_per_year_def sample_roster_def sample_employee_def exI [of _ HoursRegular])
  then have i: "gf_issues (gate u sample_roster sample_inputs sample_reply) = []"
    using m by (simp add: gate_def sample_inputs_def key_strings_def Let_def)
  show "final_action_of (gf_decision (gate u sample_roster sample_inputs sample_reply)) = Process"
    unfolding gate_parts(2) m i x decide_Process_iff sample_resolve
    by (simp add: sample_reply_def no_hours_def injective_matches_def)
qed

lemma sample_payable:
  "\<forall>ee \<in> set (employees (gf_extracted (gate u sample_roster sample_inputs sample_reply))). \<forall>e \<in> set (roster_employees sample_roster).
     emp_id e = name_id u sample_roster sample_inputs (submitted_name ee) \<longrightarrow> payable e ee"
proof -
  let ?ee = "(no_hours ''M. Chen'')\<lparr>hours_regular := Some (Dec 38 0)\<rparr>"
  have "\<forall>f \<in> set HOURS_FIELDS. case to_decimal (raw_value (hours_dict ?ee) f) of Inl e \<Rightarrow> False | Inr d \<Rightarrow> amount (10 ^ 5) d"
    by (simp add: HOURS_FIELDS_def raw_value_def hours_dict_def no_hours_def to_decimal_def dec_eval dec_zero_def
        amount_def mag_le_def dval_def del: HOURS_FIELDS_all)
  moreover have "keys_known (hours_dict ?ee)" by (auto simp: keys_known_def hours_dict_def)
  ultimately have "raw_ok (hours_dict ?ee)" by (simp add: raw_ok_def)
  then have pay: "payable sample_employee ?ee"
    using sample_calc_inputs(1) by (simp add: payable_def no_hours_def sample_employee_def amount_def mag_le_def dval_def)
  have uniq: "e = sample_employee" if "e \<in> set (roster_employees sample_roster)" "emp_id e = 1" for e
    using that by (auto simp: sample_roster_def)
  have n: "name_id u sample_roster sample_inputs ''M. Chen'' = 1" by (simp add: name_id_def sample_resolve)
  have "employees sample_reply = [?ee]" "submitted_name ?ee = ''M. Chen''"
    by (simp_all add: sample_reply_def no_hours_def)
  then show ?thesis using pay uniq unfolding sample_gate(1) by (auto simp del: employee.simps simp: n)
qed

subsection \<open>Properties\<close>

text \<open>C4. A processed run pays every extracted person exactly once: the run is at the approval
  gate, there is one line item per extracted employee, in order and under the submitted name,
  each for a roster employee, no employee twice.\<close>

theorem processed_run_pays_everyone_once:
  assumes "roster_valid r" "final_action_of (gf_decision (gate u r si x)) = Process"
    "run_stages u fresh now r si x run = Inr (run', sr)"
  shows "status run' = AWAITING_APPROVAL
    \<and> map stub_name (line_items run') = map submitted_name (employees x)
    \<and> distinct (map stub_employee_id (line_items run'))
    \<and> (\<forall>s \<in> set (line_items run'). stub_run_id s = run_id run \<and> stub_employee_id s \<in> Some ` emp_id ` set (roster_employees r))"
proof -
  obtain items where i: "compute_line_items (run_id run) fresh now (gf_extracted (gate u r si x)) (gf_matches (gate u r si x)) r = Inr items"
    "status run' = AWAITING_APPROVAL" "line_items run' = items"
    using run_stages_Inr [OF assms(3)] assms(2) by auto
  note n = items_names [OF processed_items [OF assms(1,2) i(1)]]
  have names: "map submitted_name (employees (gf_extracted (gate u r si x))) = map submitted_name (employees x)" by (rule gate_parts(3))
  have ids: "map stub_employee_id items = map Some (map (name_id u r si) (map submitted_name (employees x)))"
    unfolding n(2) names [symmetric] by simp
  have "distinct (map stub_employee_id items)"
    unfolding ids using processed_names(1,2) [OF assms(1,2)] by (simp only: distinct_map inj_Some)
  moreover have "stub_employee_id s \<in> Some ` emp_id ` set (roster_employees r)" if "s \<in> set items" for s
  proof -
    have "stub_employee_id s \<in> set (map stub_employee_id items)" using that by simp
    then obtain n where "n \<in> set (map submitted_name (employees x))" "stub_employee_id s = Some (name_id u r si n)"
      unfolding ids by auto
    with processed_names(3) [OF assms(1,2)] show ?thesis by fastforce
  qed
  ultimately show ?thesis using i n names by simp
qed

theorem processed_run_pays_everyone_once_witness:
  "\<exists>run' sr. run_stages ascii (\<lambda>k. of_nat k) 0 sample_roster sample_inputs sample_reply sample_run = Inr (run', sr)
     \<and> map stub_name (line_items run') = [''M. Chen'']"
proof -
  obtain run' sr where r: "run_stages ascii (\<lambda>k. of_nat k) 0 sample_roster sample_inputs sample_reply sample_run = Inr (run', sr)"
    using run_stages_completes [OF sample_roster_valid sample_gate(2) sample_payable] by blast
  from processed_run_pays_everyone_once [OF sample_roster_valid sample_gate(2) r] r show ?thesis
    by (simp add: sample_reply_def no_hours_def)
qed

text \<open>C29. A processed run completes: when the roster rows and the hours it pays are in the range of
  the calculation, the stages return and the run reaches the approval gate, with all its
  facts persisted.\<close>

theorem processed_run_completes:
  assumes "roster_valid r" "final_action_of (gf_decision (gate u r si x)) = Process"
    "\<forall>ee \<in> set (employees (gf_extracted (gate u r si x))). \<forall>e \<in> set (roster_employees r).
       emp_id e = name_id u r si (submitted_name ee) \<longrightarrow> payable e ee"
  shows "\<exists>run' sr. run_stages u fresh now r si x run = Inr (run', sr) \<and> status run' = AWAITING_APPROVAL
    \<and> decision_data run' = Some (gf_decision (gate u r si x)) \<and> reconciliation run' = Some (gf_matches (gate u r si x))"
  by (rule run_stages_completes [OF assms])

theorem processed_run_completes_witness:
  "\<exists>run' sr. run_stages ascii (\<lambda>k. of_nat k) 0 sample_roster sample_inputs sample_reply sample_run = Inr (run', sr)
     \<and> status run' = AWAITING_APPROVAL"
  using processed_run_completes [OF sample_roster_valid sample_gate(2) sample_payable] by blast

text \<open>A run that is not processed moves nothing: its status and its line items are those it
  had, whatever was extracted, and the client is asked; the facts and the reasons are
  persisted all the same.\<close>

theorem unprocessed_run_moves_nothing:
  assumes "final_action_of (gf_decision (gate u r si x)) \<noteq> Process"
  shows "\<exists>run' sr. run_stages u fresh now r si x run = Inr (run', sr) \<and> status run' = status run
    \<and> line_items run' = line_items run \<and> decision_data run' = Some (gf_decision (gate u r si x))
    \<and> sr_branch sr \<in> {Deferred, ClarifyNow (gf_decision (gate u r si x)) (gf_extracted (gate u r si x))}"
  using assms by (simp add: run_stages_def Let_def run_writers)

theorem unprocessed_run_moves_nothing_witness:
  "\<exists>run' sr. run_stages ascii (\<lambda>k. of_nat k) 0 sample_roster sample_inputs (sample_reply\<lparr>employees := []\<rparr>) sample_run = Inr (run', sr)
     \<and> status run' = EXTRACTING"
proof -
  have "final_action_of (gf_decision (gate ascii sample_roster sample_inputs (sample_reply\<lparr>employees := []\<rparr>))) \<noteq> Process"
    by (simp add: gate_parts(2) decide_Process_iff gate_parts(1)) (simp add: gate_def sample_inputs_def Let_def)
  from unprocessed_run_moves_nothing [OF this, of "\<lambda>k. of_nat k" 0 sample_run] show ?thesis by (auto simp: sample_run_def)
qed

end
