(* ===== verification/Outcomes.thy ===== *)
theory Outcomes
  imports Prelude
begin

section \<open>Bounded execution outcomes\<close>

text \<open>
  \<open>app/pipeline/result.py\<close>: the three closed vocabularies (outcome, stage, reason), the
  classification of exceptions that keeps no exception text, and the fixed replay ladder of
  outbound delivery. Exceptions are the concrete classes the classifiers test with
  \<open>isinstance\<close>; a class that inherits from another one answers both tests. Instants are
  integers counting microseconds, the resolution of \<open>datetime\<close> and of \<open>timestamptz\<close>.
\<close>

subsection \<open>Instants\<close>

type_synonym instant = int

definition seconds :: "int \<Rightarrow> int" where
  "seconds n = 1000000 * n"

lemma seconds_mono [simp]: "seconds a < seconds b \<longleftrightarrow> a < b" "seconds a \<le> seconds b \<longleftrightarrow> a \<le> b"
  by (simp_all add: seconds_def)

lemma seconds_pos [simp]: "0 < seconds b \<longleftrightarrow> 0 < b" "0 \<le> seconds b \<longleftrightarrow> 0 \<le> b"
  by (simp_all add: seconds_def)

subsection \<open>The vocabularies\<close>

datatype pipeline_outcome = Ok | Retryable | Terminal

datatype pipeline_stage =
    StageUnknown | StageLoad | StageExtract | StagePersist | StageClarification | StageCompute | StageDelivery

datatype pipeline_reason =
    Unclassified
  | ProviderConnectionFailure | ProviderTimeout | ProviderRateLimit | ProviderServerFailure
  | SchemaOrParseFailure | ClientRequestFailure | AmbiguousSendFailure | InvalidOperatorOverrideContext
  | DeliveryTimeout | DeliveryConnectionFailure | DeliveryRateLimit | DeliveryServerFailure
  | DeliveryIdempotencyPayloadMismatch | DeliveryQuotaExhausted | DeliveryValidationFailure
  | DeliveryAuthenticationFailure | DeliveryAuthorizationFailure | DeliveryConfigurationFailure
  | DeliveryProviderFailure | DeliveryRecordOnly | DeliveryAuthorizationExpired

fun stage_value :: "pipeline_stage \<Rightarrow> string" where
  "stage_value StageUnknown = ''unknown''"
| "stage_value StageLoad = ''load''"
| "stage_value StageExtract = ''extract''"
| "stage_value StagePersist = ''persist''"
| "stage_value StageClarification = ''clarification''"
| "stage_value StageCompute = ''compute''"
| "stage_value StageDelivery = ''delivery''"

fun reason_value :: "pipeline_reason \<Rightarrow> string" where
  "reason_value Unclassified = ''unclassified''"
| "reason_value ProviderConnectionFailure = ''provider_connection_failure''"
| "reason_value ProviderTimeout = ''provider_timeout''"
| "reason_value ProviderRateLimit = ''provider_rate_limit''"
| "reason_value ProviderServerFailure = ''provider_server_failure''"
| "reason_value SchemaOrParseFailure = ''schema_or_parse_failure''"
| "reason_value ClientRequestFailure = ''client_request_failure''"
| "reason_value AmbiguousSendFailure = ''ambiguous_send_failure''"
| "reason_value InvalidOperatorOverrideContext = ''invalid_operator_override_context''"
| "reason_value DeliveryTimeout = ''delivery_timeout''"
| "reason_value DeliveryConnectionFailure = ''delivery_connection_failure''"
| "reason_value DeliveryRateLimit = ''delivery_rate_limit''"
| "reason_value DeliveryServerFailure = ''delivery_server_failure''"
| "reason_value DeliveryIdempotencyPayloadMismatch = ''delivery_idempotency_payload_mismatch''"
| "reason_value DeliveryQuotaExhausted = ''delivery_quota_exhausted''"
| "reason_value DeliveryValidationFailure = ''delivery_validation_failure''"
| "reason_value DeliveryAuthenticationFailure = ''delivery_authentication_failure''"
| "reason_value DeliveryAuthorizationFailure = ''delivery_authorization_failure''"
| "reason_value DeliveryConfigurationFailure = ''delivery_configuration_failure''"
| "reason_value DeliveryProviderFailure = ''delivery_provider_failure''"
| "reason_value DeliveryRecordOnly = ''delivery_record_only''"
| "reason_value DeliveryAuthorizationExpired = ''delivery_authorization_expired''"

definition all_stages :: "pipeline_stage list" where
  "all_stages = [StageUnknown, StageLoad, StageExtract, StagePersist, StageClarification, StageCompute, StageDelivery]"

definition all_reasons :: "pipeline_reason list" where
  "all_reasons =
     [Unclassified, ProviderConnectionFailure, ProviderTimeout, ProviderRateLimit, ProviderServerFailure,
      SchemaOrParseFailure, ClientRequestFailure, AmbiguousSendFailure, InvalidOperatorOverrideContext,
      DeliveryTimeout, DeliveryConnectionFailure, DeliveryRateLimit, DeliveryServerFailure,
      DeliveryIdempotencyPayloadMismatch, DeliveryQuotaExhausted, DeliveryValidationFailure,
      DeliveryAuthenticationFailure, DeliveryAuthorizationFailure, DeliveryConfigurationFailure,
      DeliveryProviderFailure, DeliveryRecordOnly, DeliveryAuthorizationExpired]"

text \<open>\<open>PipelineStage(v)\<close> and \<open>PipelineReason(v)\<close>: the member with that value, else \<open>ValueError\<close>.\<close>

definition stage_of_value :: "string \<Rightarrow> pipeline_stage res" where
  "stage_of_value v = (case first_match (\<lambda>s. stage_value s = v) all_stages of None \<Rightarrow> Inl ValueError | Some s \<Rightarrow> Inr s)"

definition reason_of_value :: "string \<Rightarrow> pipeline_reason res" where
  "reason_of_value v = (case first_match (\<lambda>r. reason_value r = v) all_reasons of None \<Rightarrow> Inl ValueError | Some r \<Rightarrow> Inr r)"

record pipeline_result =
  outcome :: pipeline_outcome
  stage :: pipeline_stage
  reason :: pipeline_reason

definition default_result :: pipeline_result where
  "default_result = \<lparr>outcome = Terminal, stage = StageUnknown, reason = Unclassified\<rparr>"

text \<open>The \<open>_bounded_noop\<close> of the handlers, and \<open>_OK_RESULT\<close>.\<close>

definition bounded_noop :: pipeline_result where
  "bounded_noop = default_result\<lparr>outcome := Ok\<rparr>"

definition diagnostic_code :: "pipeline_result \<Rightarrow> string" where
  "diagnostic_code r = stage_value (stage r) @ '':'' @ reason_value (reason r)"

subsection \<open>Exceptions\<close>

text \<open>
  \<open>RateLimit\<close> and \<open>ApiStatus\<close> are \<open>APIStatusError\<close>s, \<open>ApiTimeout\<close> is an
  \<open>APIConnectionError\<close>. A \<open>ResendError\<close> keeps the text of its type and what
  \<open>int(exc.code)\<close> gives, \<open>None\<close> where that raises.
\<close>

datatype exc =
    PydanticError
  | ApiTimeout
  | ApiConnection
  | RateLimit
  | ApiStatus int
  | PyTimeout
  | HttpxTimeout
  | PyConnection
  | HttpxConnect
  | ResendError string "int option"
  | OtherException

fun is_api_connection :: "exc \<Rightarrow> bool" where
  "is_api_connection ApiTimeout = True"
| "is_api_connection ApiConnection = True"
| "is_api_connection _ = False"

fun api_status :: "exc \<Rightarrow> int option" where
  "api_status RateLimit = Some 429"
| "api_status (ApiStatus n) = Some n"
| "api_status _ = None"

definition lower_char :: "char \<Rightarrow> char" where
  "lower_char c = (if 65 \<le> (of_char c :: nat) \<and> (of_char c :: nat) \<le> 90 then char_of (of_char c + 32 :: nat) else c)"

definition delivery_retryable :: "pipeline_reason \<Rightarrow> pipeline_result" where
  "delivery_retryable r = \<lparr>outcome = Retryable, stage = StageDelivery, reason = r\<rparr>"

definition delivery_terminal :: "pipeline_reason \<Rightarrow> pipeline_result" where
  "delivery_terminal r = default_result\<lparr>stage := StageDelivery, reason := r\<rparr>"

fun classify_resend :: "string \<Rightarrow> int option \<Rightarrow> pipeline_result" where
  "classify_resend error_type status_code =
     (if error_type = ''rate_limit_exceeded'' \<and> status_code = Some 429 then delivery_retryable DeliveryRateLimit
      else if error_type \<in> {''daily_quota_exceeded'', ''monthly_quota_exceeded''} then delivery_terminal DeliveryQuotaExhausted
      else if (case status_code of None \<Rightarrow> False | Some c \<Rightarrow> 500 \<le> c \<and> c < 600) then delivery_retryable DeliveryServerFailure
      else if status_code = Some 409 \<and> error_type = ''invalid_idempotent_request'' then delivery_terminal DeliveryIdempotencyPayloadMismatch
      else if error_type \<in> {''validation_error'', ''missing_required_fields''} \<or> status_code \<in> {Some 400, Some 422}
        then delivery_terminal DeliveryValidationFailure
      else if error_type = ''missing_api_key'' then delivery_terminal DeliveryConfigurationFailure
      else if status_code = Some 401 then delivery_terminal DeliveryAuthenticationFailure
      else if status_code = Some 403 then delivery_terminal DeliveryAuthorizationFailure
      else delivery_terminal DeliveryProviderFailure)"

definition classify_delivery_exception :: "exc \<Rightarrow> pipeline_result" where
  "classify_delivery_exception e =
     (if e \<in> {PyTimeout, HttpxTimeout, ApiTimeout} then delivery_retryable DeliveryTimeout
      else if e \<in> {PyConnection, HttpxConnect} \<or> is_api_connection e then delivery_retryable DeliveryConnectionFailure
      else if e = RateLimit then delivery_retryable DeliveryRateLimit
      else if (case api_status e of None \<Rightarrow> False | Some c \<Rightarrow> 500 \<le> c) then delivery_retryable DeliveryServerFailure
      else (case e of
              ResendError ty code \<Rightarrow> classify_resend (map lower_char ty) code
            | _ \<Rightarrow> delivery_terminal DeliveryProviderFailure))"

definition classify_pipeline_exception :: "pipeline_stage \<Rightarrow> exc \<Rightarrow> pipeline_result" where
  "classify_pipeline_exception s e =
     (let terminal = (\<lambda>r. default_result\<lparr>stage := s, reason := r\<rparr>);
          retry = (\<lambda>r. \<lparr>outcome = Retryable, stage = s, reason = r\<rparr>)
      in if s = StageDelivery then classify_delivery_exception e
         else if e = PydanticError then terminal SchemaOrParseFailure
         else if s \<in> {StageClarification, StageDelivery} \<and> (is_api_connection e \<or> api_status e \<noteq> None)
           then terminal AmbiguousSendFailure
         else if s = StageExtract \<and> e = ApiTimeout then retry ProviderTimeout
         else if s = StageExtract \<and> is_api_connection e then retry ProviderConnectionFailure
         else if s = StageExtract \<and> e = RateLimit then retry ProviderRateLimit
         else (case (s, api_status e) of
                 (StageExtract, Some c) \<Rightarrow> if 500 \<le> c then retry ProviderServerFailure else terminal ClientRequestFailure
               | _ \<Rightarrow> default_result\<lparr>stage := s\<rparr>))"

subsection \<open>The replay ladder\<close>

definition DELIVERY_REPLAY_OFFSETS :: "int list" where
  "DELIVERY_REPLAY_OFFSETS =
     [0, seconds 60, seconds (5 * 60), seconds (15 * 60), seconds 3600, seconds (3 * 3600), seconds (8 * 3600), seconds (16 * 3600)]"

definition DELIVERY_REPLAY_WINDOW :: int where
  "DELIVERY_REPLAY_WINDOW = seconds (20 * 3600)"

definition delivery_replay_allowed :: "instant \<Rightarrow> instant \<Rightarrow> bool" where
  "delivery_replay_allowed reserved_at now \<longleftrightarrow> now < reserved_at + DELIVERY_REPLAY_WINDOW"

definition next_delivery_attempt_at :: "instant \<Rightarrow> int \<Rightarrow> instant option res" where
  "next_delivery_attempt_at reserved_at completed =
     (if completed < 0 then Inl ValueError
      else if int (length DELIVERY_REPLAY_OFFSETS) \<le> completed then Inr None
      else (let at = reserved_at + DELIVERY_REPLAY_OFFSETS ! nat completed
            in if delivery_replay_allowed reserved_at at then Inr (Some at) else Inr None))"

subsection \<open>Lemmas\<close>

lemma all_stages [simp]: "s \<in> set all_stages"
  by (cases s) (simp_all add: all_stages_def)

lemma all_reasons [simp]: "r \<in> set all_reasons"
  by (cases r) (simp_all add: all_reasons_def)

lemma stage_value_inj: "stage_value s = stage_value t \<longleftrightarrow> s = t"
  by (cases s; cases t; simp)

lemma reason_values_distinct: "distinct (map reason_value all_reasons)"
  by code_simp

lemma reason_value_inj: "reason_value s = reason_value t \<longleftrightarrow> s = t"
  using reason_values_distinct by (auto simp: distinct_map dest: inj_onD)

lemma stage_of_stage_value [simp]: "stage_of_value (stage_value s) = Inr s"
  by (cases s) (simp_all add: stage_of_value_def all_stages_def)

lemma find_inj:
  assumes "inj f" "x \<in> set xs" shows "first_match (\<lambda>y. f y = f x) xs = Some x"
  using assms(2)
proof (induction xs)
  case (Cons y ys)
  then show ?case using injD [OF assms(1)] by auto
qed simp

lemma reason_of_reason_value [simp]: "reason_of_value (reason_value r) = Inr r"
proof -
  have "inj reason_value" by (simp add: inj_def reason_value_inj)
  then show ?thesis by (simp add: reason_of_value_def find_inj)
qed

lemma stage_value_no_colon: "\<forall>c \<in> set (stage_value s). c \<noteq> CHR '':''"
  by (cases s) simp_all

lemma reason_value_no_colon: "\<forall>c \<in> set (reason_value r). c \<noteq> CHR '':''"
  by (cases r) simp_all

text \<open>The check of \<open>enqueue_job\<close> on a diagnostic: exactly two parts around a colon, both members.\<close>

definition parse_diagnostic :: "string \<Rightarrow> (pipeline_stage \<times> pipeline_reason) res" where
  "parse_diagnostic s =
     (case split_on (\<lambda>c. c = CHR '':'') s of
        [a, b] \<Rightarrow> bind_res (stage_of_value a) (\<lambda>st. bind_res (reason_of_value b) (\<lambda>r. Inr (st, r)))
      | _ \<Rightarrow> Inl ValueError)"

lemma parse_diagnostic_code: "parse_diagnostic (diagnostic_code r) = Inr (stage r, reason r)"
  using split_on_append_sep [of "stage_value (stage r)" "\<lambda>c. c = CHR '':''" "CHR '':''" "reason_value (reason r)"]
    split_on_id [of "reason_value (reason r)" "\<lambda>c. c = CHR '':''"] stage_value_no_colon reason_value_no_colon
  by (simp add: parse_diagnostic_def diagnostic_code_def)

lemma py_join_two: "split_on p s = [a, b] \<Longrightarrow> \<exists>c. p c \<and> s = a @ c # b"
proof (induction s arbitrary: a)
  case (Cons x s)
  show ?case
  proof (cases "p x")
    case True
    with Cons.prems have "a = []" "split_on p s = [b]" by auto
    moreover have "s = b" if "split_on p s = [b]" for s b
      using that by (induction s arbitrary: b) (auto split: if_splits list.splits)
    ultimately show ?thesis using True by auto
  next
    case False
    with Cons.prems obtain w where "split_on p s = [w, b]" "a = x # w" by (auto split: list.splits)
    with Cons.IH show ?thesis by fastforce
  qed
qed simp

lemma stage_of_value_Inr: "stage_of_value v = Inr s \<longleftrightarrow> v = stage_value s"
  by (auto simp: stage_of_value_def split: option.splits dest: first_match_SomeD)
    (auto simp: first_match_None stage_value_inj dest: first_match_SomeD)

lemma reason_of_value_Inr: "reason_of_value v = Inr r \<longleftrightarrow> v = reason_value r"
  by (auto simp: reason_of_value_def split: option.splits dest: first_match_SomeD)
    (auto simp: first_match_None reason_value_inj dest: first_match_SomeD)

lemma parse_diagnostic_Inr:
  "parse_diagnostic s = Inr (st, r) \<longleftrightarrow> s = diagnostic_code \<lparr>outcome = out, stage = st, reason = r\<rparr>"
proof
  assume "parse_diagnostic s = Inr (st, r)"
  then obtain a b where "split_on (\<lambda>c. c = CHR '':'') s = [a, b]" "stage_of_value a = Inr st" "reason_of_value b = Inr r"
    by (auto simp: parse_diagnostic_def res_simps split: list.splits)
  then show "s = diagnostic_code \<lparr>outcome = out, stage = st, reason = r\<rparr>"
    using py_join_two [of "\<lambda>c. c = CHR '':''" s a b] by (auto simp: stage_of_value_Inr reason_of_value_Inr diagnostic_code_def)
next
  assume "s = diagnostic_code \<lparr>outcome = out, stage = st, reason = r\<rparr>"
  then show "parse_diagnostic s = Inr (st, r)" by (simp add: parse_diagnostic_code)
qed

lemma delivery_stage: "stage (classify_delivery_exception e) = StageDelivery"
  by (auto simp: classify_delivery_exception_def delivery_retryable_def delivery_terminal_def split: exc.split)

lemma ladder_at:
  assumes "n < 8"
  shows "next_delivery_attempt_at t (int n) = Inr (Some (t + DELIVERY_REPLAY_OFFSETS ! n))"
proof -
  have "n \<in> {0, 1, 2, 3, 4, 5, 6, 7}" using assms by auto
  then show ?thesis
    by (elim insertE) (simp_all add: next_delivery_attempt_at_def DELIVERY_REPLAY_OFFSETS_def
      delivery_replay_allowed_def DELIVERY_REPLAY_WINDOW_def seconds_def)
qed

lemma ladder_sorted: "sorted_wrt (<) DELIVERY_REPLAY_OFFSETS"
  by (simp add: DELIVERY_REPLAY_OFFSETS_def seconds_def)

lemma ladder_length [simp]: "length DELIVERY_REPLAY_OFFSETS = 8"
  by (simp add: DELIVERY_REPLAY_OFFSETS_def)

subsection \<open>Properties\<close>

text \<open>Nothing is retried after a send whose fate is unknown: outside the delivery stage an
  exception is retried only at the extraction, and only for a transient provider failure (no
  connection, a timeout, a rate limit or a status of 500 or more); the result always names
  the stage it was raised at.\<close>

theorem retryable_only_at_extract:
  "(outcome (classify_pipeline_exception s e) = Retryable
     \<longleftrightarrow> (s = StageExtract \<and> (is_api_connection e \<or> e = RateLimit \<or> (\<exists>c \<ge> 500. api_status e = Some c)))
        \<or> (s = StageDelivery \<and> outcome (classify_delivery_exception e) = Retryable))
   \<and> stage (classify_pipeline_exception s e) = s"
proof (cases "s = StageDelivery")
  case True
  then show ?thesis by (simp add: classify_pipeline_exception_def delivery_stage)
next
  case False
  then show ?thesis
    by (cases s; cases e) (simp_all add: classify_pipeline_exception_def default_result_def)
qed

text \<open>The diagnostic codes and the enqueue check fit: the code of every result parses back to
  its stage and reason, and a string passes the check exactly when it is the code of some
  result, so no free-form text can enter the queue's diagnostic column.\<close>

theorem diagnostic_roundtrip:
  "parse_diagnostic (diagnostic_code r) = Inr (stage r, reason r)
   \<and> ((\<exists>p. parse_diagnostic s = Inr p) \<longleftrightarrow> (\<exists>r. s = diagnostic_code r))"
  using parse_diagnostic_code parse_diagnostic_Inr by (metis surj_pair)

text \<open>C34. The replay ladder is the one the job can climb: for each of the eight attempts there is a
  slot, the slots strictly increase from the reservation itself, and the last one is still
  inside the window in which a replay is allowed; after the eighth attempt there is none.\<close>

theorem replay_ladder:
  "(m < n \<and> n < 8 \<longrightarrow>
     (\<exists>a b. next_delivery_attempt_at t (int m) = Inr (Some a) \<and> next_delivery_attempt_at t (int n) = Inr (Some b)
        \<and> t \<le> a \<and> a < b \<and> delivery_replay_allowed t b))
   \<and> next_delivery_attempt_at t 0 = Inr (Some t)
   \<and> (8 \<le> n \<longrightarrow> next_delivery_attempt_at t (int n) = Inr None)
   \<and> next_delivery_attempt_at t (- 1 - int n) = Inl ValueError"
proof (intro conjI impI)
  assume mn: "m < n \<and> n < 8"
  then have ab: "next_delivery_attempt_at t (int m) = Inr (Some (t + DELIVERY_REPLAY_OFFSETS ! m))"
    "next_delivery_attempt_at t (int n) = Inr (Some (t + DELIVERY_REPLAY_OFFSETS ! n))"
    by (simp_all add: ladder_at)
  have lt: "DELIVERY_REPLAY_OFFSETS ! m < DELIVERY_REPLAY_OFFSETS ! n"
    using mn ladder_sorted by (simp add: sorted_wrt_iff_nth_less)
  have "\<forall>d \<in> set DELIVERY_REPLAY_OFFSETS. 0 \<le> d \<and> d < DELIVERY_REPLAY_WINDOW"
    by (simp add: DELIVERY_REPLAY_OFFSETS_def DELIVERY_REPLAY_WINDOW_def seconds_def)
  then have "0 \<le> DELIVERY_REPLAY_OFFSETS ! m" "DELIVERY_REPLAY_OFFSETS ! n < DELIVERY_REPLAY_WINDOW"
    using mn by (simp_all add: nth_mem)
  with ab lt show "\<exists>a b. next_delivery_attempt_at t (int m) = Inr (Some a) \<and> next_delivery_attempt_at t (int n) = Inr (Some b)
        \<and> t \<le> a \<and> a < b \<and> delivery_replay_allowed t b"
    by (simp add: delivery_replay_allowed_def)
next
  show "next_delivery_attempt_at t 0 = Inr (Some t)"
    using ladder_at [of 0 t] by (simp add: DELIVERY_REPLAY_OFFSETS_def)
qed (simp_all add: next_delivery_attempt_at_def)

theorem replay_ladder_witness:
  "next_delivery_attempt_at 0 6 = Inr (Some (seconds 28800)) \<and> next_delivery_attempt_at 0 8 = Inr None"
proof -
  have "next_delivery_attempt_at 0 8 = Inr None" using replay_ladder [of 6 8 0] by simp
  moreover have "next_delivery_attempt_at 0 6 = Inr (Some (seconds 28800))"
    using ladder_at [of 6 0] by (simp add: DELIVERY_REPLAY_OFFSETS_def)
  ultimately show ?thesis by simp
qed

end
