(* ===== verification/JobQueue.thy ===== *)
theory JobQueue
  imports Outcomes Uuids "HOL-Library.Product_Lexorder"
begin

section \<open>The job queue\<close>

text \<open>
  \<open>app/models/job.py\<close> and \<open>app/db/repo/jobs.py\<close>: the rows of the \<open>jobs\<close> table and every
  operation on them, one definition per function, each the one SQL statement it issues. The
  clock \<open>now\<close>, the ids and lease tokens of \<open>gen_random_uuid()\<close> and the rows another
  transaction has locked (\<open>SKIP LOCKED\<close>) are arguments. The queue is then a step relation
  whose events are the calls that return. \<open>JobTable\<close> extends it to the settlements and everything else that
  writes the table, and proves the guarantees there; the application itself ends jobs through the settlements and never calls
  \<open>complete_job\<close> or \<open>fail_job\<close>.
\<close>

subsection \<open>Rows\<close>

datatype job_kind = RunPipeline | ResumeReply | OperatorResume | Ingest | SendOutbound

datatype job_state = Pending | Leased | Done | Dead

record job =
  job_id :: uuid
  job_kind_of :: job_kind
  dedup_key :: string
  job_run_id :: "uuid option"
  job_email_id :: "uuid option"
  job_resolution_id :: "uuid option"
  job_event_id :: "uuid option"
  job_business_id :: "uuid option"
  priority :: int
  job_state :: job_state
  attempts :: int
  max_attempts :: int
  available_at :: instant
  lease_token :: "uuid option"
  leased_until :: "instant option"
  last_error :: "string option"
  job_updated_at :: instant

text \<open>What \<open>claim_job\<close> returns to a worker: the nine columns of the dataclass \<open>Job\<close>.\<close>

record claim =
  cj_id :: uuid
  cj_kind :: job_kind
  cj_run_id :: "uuid option"
  cj_email_id :: "uuid option"
  cj_resolution_id :: "uuid option"
  cj_event_id :: "uuid option"
  cj_attempts :: int
  cj_max_attempts :: int
  cj_token :: uuid

fun kind_value :: "job_kind \<Rightarrow> string" where
  "kind_value RunPipeline = ''run_pipeline''"
| "kind_value ResumeReply = ''resume_reply''"
| "kind_value OperatorResume = ''operator_resume''"
| "kind_value Ingest = ''ingest''"
| "kind_value SendOutbound = ''send_outbound''"

subsection \<open>Enqueue\<close>

text \<open>A delay as Python passes it: a \<open>bool\<close> and anything that is not a finite number are
  refused, a number counts microseconds here.\<close>

datatype delay_arg = DelayBool bool | DelayNumber int | DelayNotFinite | DelayOther

record enqueue_request =
  eq_kind :: job_kind
  eq_dedup_key :: string
  eq_run_id :: "uuid option"
  eq_email_id :: "uuid option"
  eq_resolution_id :: "uuid option"
  eq_event_id :: "uuid option"
  eq_business_id :: "uuid option"
  eq_max_attempts :: "int option"
  eq_delay :: delay_arg
  eq_last_error :: "string option"

definition send_outbound_dedup_key :: "uuid \<Rightarrow> string" where
  "send_outbound_dedup_key email = ''send_outbound:'' @ uuid_str email"

definition SEND_OUTBOUND_MAX_ATTEMPTS :: int where
  "SEND_OUTBOUND_MAX_ATTEMPTS = 8"

definition bad_context :: "enqueue_request \<Rightarrow> bool" where
  "bad_context q =
     (case eq_kind q of
        Ingest \<Rightarrow>
          (case eq_event_id q of None \<Rightarrow> True | Some ev \<Rightarrow> eq_dedup_key q \<noteq> ''ingest:'' @ uuid_str ev)
          \<or> eq_run_id q \<noteq> None \<or> eq_email_id q \<noteq> None \<or> eq_resolution_id q \<noteq> None \<or> eq_business_id q \<noteq> None
      | RunPipeline \<Rightarrow>
          eq_run_id q = None \<or> eq_email_id q \<noteq> None \<or> eq_resolution_id q \<noteq> None \<or> eq_event_id q \<noteq> None
      | ResumeReply \<Rightarrow>
          eq_run_id q = None \<or> eq_email_id q = None \<or> eq_resolution_id q \<noteq> None \<or> eq_event_id q \<noteq> None
      | OperatorResume \<Rightarrow>
          eq_run_id q = None \<or> eq_resolution_id q = None \<or> eq_email_id q \<noteq> None \<or> eq_event_id q \<noteq> None
      | SendOutbound \<Rightarrow>
          eq_run_id q = None
          \<or> (case eq_email_id q of None \<Rightarrow> True | Some em \<Rightarrow> eq_dedup_key q \<noteq> send_outbound_dedup_key em)
          \<or> eq_resolution_id q \<noteq> None \<or> eq_event_id q \<noteq> None \<or> eq_business_id q \<noteq> None)"

definition delay_micros :: "delay_arg \<Rightarrow> int res" where
  "delay_micros d =
     (case d of
        DelayNumber n \<Rightarrow> if 0 \<le> n \<and> n \<le> seconds 300 then Inr n else Inl ValueError
      | _ \<Rightarrow> Inl ValueError)"

definition attempt_ceiling :: "int \<Rightarrow> enqueue_request \<Rightarrow> int res" where
  "attempt_ceiling cfg q =
     (if eq_kind q = SendOutbound
      then if eq_max_attempts q \<notin> {None, Some SEND_OUTBOUND_MAX_ATTEMPTS} then Inl ValueError
           else Inr SEND_OUTBOUND_MAX_ATTEMPTS
      else Inr (case eq_max_attempts q of None \<Rightarrow> cfg | Some n \<Rightarrow> n))"

text \<open>\<open>cfg\<close> is the configured ceiling, \<open>new_id\<close> the id of the row; a row with the key makes
  the insert a no-op that returns \<open>None\<close>.\<close>

definition enqueue_job :: "instant \<Rightarrow> int \<Rightarrow> uuid \<Rightarrow> enqueue_request \<Rightarrow> job list \<Rightarrow> (uuid option \<times> job list) res" where
  "enqueue_job now cfg new_id q js =
     bind_res (guard_res (\<not> bad_context q) ValueError ()) (\<lambda>_.
     bind_res (delay_micros (eq_delay q)) (\<lambda>delay.
     bind_res (case eq_last_error q of None \<Rightarrow> Inr () | Some s \<Rightarrow> bind_res (parse_diagnostic s) (\<lambda>_. Inr ())) (\<lambda>_.
     bind_res (attempt_ceiling cfg q) (\<lambda>ceiling.
       Inr (if eq_dedup_key q \<in> dedup_key ` set js then (None, js)
            else (Some new_id, js @
              [\<lparr>job_id = new_id, job_kind_of = eq_kind q, dedup_key = eq_dedup_key q, job_run_id = eq_run_id q,
                job_email_id = eq_email_id q, job_resolution_id = eq_resolution_id q, job_event_id = eq_event_id q,
                job_business_id = eq_business_id q, priority = 100, job_state = Pending, attempts = 0,
                max_attempts = ceiling, available_at = now + delay, lease_token = None, leased_until = None,
                last_error = eq_last_error q, job_updated_at = now\<rparr>]))))))"

subsection \<open>Claim, complete, fail, release\<close>

definition due :: "instant \<Rightarrow> job \<Rightarrow> bool" where
  "due now j \<longleftrightarrow> job_state j = Pending \<and> available_at j \<le> now"

definition expired :: "instant \<Rightarrow> job \<Rightarrow> bool" where
  "expired now j \<longleftrightarrow> job_state j = Leased \<and> (case leased_until j of None \<Rightarrow> False | Some u \<Rightarrow> u < now)"

definition claimable :: "instant \<Rightarrow> job \<Rightarrow> bool" where
  "claimable now j \<longleftrightarrow> attempts j < max_attempts j \<and> (due now j \<or> expired now j)"

definition claim_row :: "instant \<Rightarrow> int \<Rightarrow> uuid \<Rightarrow> job \<Rightarrow> job" where
  "claim_row now lease token j =
     j\<lparr>job_state := Leased, lease_token := Some token, leased_until := Some (now + lease),
       attempts := attempts j + 1, job_updated_at := now\<rparr>"

definition claim_of :: "uuid \<Rightarrow> job \<Rightarrow> claim" where
  "claim_of token j =
     \<lparr>cj_id = job_id j, cj_kind = job_kind_of j, cj_run_id = job_run_id j, cj_email_id = job_email_id j,
      cj_resolution_id = job_resolution_id j, cj_event_id = job_event_id j, cj_attempts = attempts j,
      cj_max_attempts = max_attempts j, cj_token = token\<rparr>"

definition claim_candidates :: "instant \<Rightarrow> uuid list \<Rightarrow> job list \<Rightarrow> job list" where
  "claim_candidates now locked js =
     sort_key (\<lambda>j. (priority j, available_at j)) (filter (\<lambda>j. claimable now j \<and> job_id j \<notin> set locked) js)"

definition claim_job :: "instant \<Rightarrow> int \<Rightarrow> uuid \<Rightarrow> uuid list \<Rightarrow> job list \<Rightarrow> claim option \<times> job list" where
  "claim_job now lease token locked js =
     (case claim_candidates now locked js of
        [] \<Rightarrow> (None, js)
      | j # _ \<Rightarrow> (Some (claim_of token (claim_row now lease token j)),
                  update_rows (\<lambda>r. job_id r = job_id j) (claim_row now lease token) js))"

definition held :: "uuid \<Rightarrow> uuid \<Rightarrow> job \<Rightarrow> bool" where
  "held i t j \<longleftrightarrow> job_id j = i \<and> job_state j = Leased \<and> lease_token j = Some t"

definition settle_row :: "instant \<Rightarrow> job_state \<Rightarrow> job \<Rightarrow> job" where
  "settle_row now s j = j\<lparr>job_state := s, lease_token := None, leased_until := None, job_updated_at := now\<rparr>"

definition complete_job :: "instant \<Rightarrow> uuid \<Rightarrow> uuid \<Rightarrow> job list \<Rightarrow> bool \<times> job list" where
  "complete_job now i t js = (list_ex (held i t) js, update_rows (held i t) (settle_row now Done) js)"

definition fail_state :: "job \<Rightarrow> job_state" where
  "fail_state j = (if max_attempts j \<le> attempts j then Dead else Pending)"

definition fail_job :: "instant \<Rightarrow> uuid \<Rightarrow> uuid \<Rightarrow> string \<Rightarrow> int \<Rightarrow> job list \<Rightarrow> job_state option \<times> job list" where
  "fail_job now i t detail backoff js =
     (map_option fail_state (first_match (held i t) js),
      update_rows (held i t) (\<lambda>j. (settle_row now (fail_state j) j)\<lparr>available_at := now + backoff, last_error := Some detail\<rparr>) js)"

definition holds_any :: "uuid list \<Rightarrow> job \<Rightarrow> bool" where
  "holds_any ts j \<longleftrightarrow> job_state j = Leased \<and> (case lease_token j of None \<Rightarrow> False | Some t \<Rightarrow> t \<in> set ts)"

definition release_leases :: "instant \<Rightarrow> uuid list \<Rightarrow> job list \<Rightarrow> nat \<times> job list" where
  "release_leases now ts js =
     (if ts = [] then (0, js)
      else (length (filter (holds_any ts) js),
            update_rows (holds_any ts) (\<lambda>j. (settle_row now Pending j)\<lparr>available_at := now\<rparr>) js))"

subsection \<open>Reads\<close>

definition get_job :: "uuid \<Rightarrow> job list \<Rightarrow> job option" where
  "get_job i js = first_match (\<lambda>j. job_id j = i) js"

definition open_job :: "job \<Rightarrow> bool" where
  "open_job j \<longleftrightarrow> job_state j \<in> {Pending, Leased}"

definition count_open_jobs :: "job list \<Rightarrow> nat" where
  "count_open_jobs js = length (filter open_job js)"

definition get_run_queue_label :: "instant \<Rightarrow> uuid \<Rightarrow> job list \<Rightarrow> string option" where
  "get_run_queue_label now run js =
     (let mine = filter (\<lambda>j. job_run_id j = Some run \<and> open_job j) js
      in if list_ex (\<lambda>j. job_state j = Leased) mine then Some ''Running''
         else if list_ex (due now) mine then Some ''Queued''
         else if list_ex (\<lambda>j. job_state j = Pending) mine then Some ''Retry queued''
         else None)"

definition count_jobs_by_state :: "job list \<Rightarrow> (string \<times> nat) list" where
  "count_jobs_by_state js =
     [(''pending'', length (filter (\<lambda>j. job_state j = Pending) js)),
      (''leased'', length (filter (\<lambda>j. job_state j = Leased) js))]"

text \<open>The age in microseconds; \<open>min\<close> over no row is \<open>NULL\<close>.\<close>

definition oldest_due_pending_age :: "instant \<Rightarrow> job list \<Rightarrow> int option" where
  "oldest_due_pending_age now js =
     (case map available_at (filter (due now) js) of
        [] \<Rightarrow> None
      | t # ts \<Rightarrow> Some (now - fold min ts t))"

definition attempts_distribution :: "job list \<Rightarrow> (int \<times> nat) list" where
  "attempts_distribution js =
     (let ns = map attempts (filter open_job js)
      in map (\<lambda>n. (n, length (filter ((=) n) ns))) (sort (remdups ns)))"

definition list_dead_letter_jobs :: "nat \<Rightarrow> job list \<Rightarrow> job list" where
  "list_dead_letter_jobs limit js =
     take limit (sort_key (\<lambda>j. - job_updated_at j) (filter (\<lambda>j. job_state j = Dead) js))"

definition advance_due_now :: "instant \<Rightarrow> uuid \<Rightarrow> job list \<Rightarrow> bool \<times> job list" where
  "advance_due_now now i js =
     (list_ex (\<lambda>j. job_id j = i \<and> job_state j = Pending) js,
      update_rows (\<lambda>j. job_id j = i \<and> job_state j = Pending) (\<lambda>j. j\<lparr>available_at := now, job_updated_at := now\<rparr>) js)"

subsection \<open>The queue as a step relation\<close>

text \<open>
  Every call that returns is an event. \<open>q_issued\<close> records every lease token the database ever
  drew: \<open>gen_random_uuid()\<close> never draws one twice, and a new row has a new id.
\<close>

record queue =
  q_jobs :: "job list"
  q_issued :: "uuid list"

datatype queue_event =
    Enqueued "uuid option"
  | Claimed claim
  | Completed uuid uuid bool
  | Failed uuid uuid "job_state option"
  | Released nat
  | Advanced uuid bool

inductive queue_step :: "queue \<Rightarrow> queue_event \<Rightarrow> queue \<Rightarrow> bool" where
  step_enqueue:
    "enqueue_job now cfg i q (q_jobs s) = Inr (r, js) \<Longrightarrow> i \<notin> job_id ` set (q_jobs s)
     \<Longrightarrow> queue_step s (Enqueued r) (s\<lparr>q_jobs := js\<rparr>)"
| step_claim:
    "claim_job now lease token locked (q_jobs s) = (Some c, js) \<Longrightarrow> token \<notin> set (q_issued s)
     \<Longrightarrow> queue_step s (Claimed c) \<lparr>q_jobs = js, q_issued = token # q_issued s\<rparr>"
| step_complete:
    "complete_job now i t (q_jobs s) = (ok, js) \<Longrightarrow> queue_step s (Completed i t ok) (s\<lparr>q_jobs := js\<rparr>)"
| step_fail:
    "fail_job now i t detail backoff (q_jobs s) = (r, js) \<Longrightarrow> queue_step s (Failed i t r) (s\<lparr>q_jobs := js\<rparr>)"
| step_release:
    "release_leases now ts (q_jobs s) = (n, js) \<Longrightarrow> queue_step s (Released n) (s\<lparr>q_jobs := js\<rparr>)"
| step_advance:
    "advance_due_now now i (q_jobs s) = (ok, js) \<Longrightarrow> queue_step s (Advanced i ok) (s\<lparr>q_jobs := js\<rparr>)"

text \<open>The constraints of the table: a lease is whole or absent, the context fits the kind.\<close>

definition lease_coherent :: "job \<Rightarrow> bool" where
  "lease_coherent j \<longleftrightarrow>
     (job_state j = Leased \<and> lease_token j \<noteq> None \<and> leased_until j \<noteq> None)
     \<or> (job_state j \<noteq> Leased \<and> lease_token j = None \<and> leased_until j = None)"

definition context_ok :: "job \<Rightarrow> bool" where
  "context_ok j \<longleftrightarrow>
     (case job_kind_of j of
        RunPipeline \<Rightarrow> job_run_id j \<noteq> None \<and> job_email_id j = None \<and> job_resolution_id j = None \<and> job_event_id j = None
      | ResumeReply \<Rightarrow> job_run_id j \<noteq> None \<and> job_email_id j \<noteq> None \<and> job_resolution_id j = None \<and> job_event_id j = None
      | OperatorResume \<Rightarrow> job_run_id j \<noteq> None \<and> job_resolution_id j \<noteq> None \<and> job_email_id j = None \<and> job_event_id j = None
      | SendOutbound \<Rightarrow> job_run_id j \<noteq> None \<and> job_email_id j \<noteq> None \<and> job_resolution_id j = None
          \<and> job_event_id j = None \<and> job_business_id j = None
      | Ingest \<Rightarrow> job_run_id j = None \<and> job_email_id j = None \<and> job_resolution_id j = None \<and> job_business_id j = None
          \<and> (job_event_id j \<noteq> None \<or> job_state j \<in> {Done, Dead}))"

definition row_ok :: "job \<Rightarrow> bool" where
  "row_ok j \<longleftrightarrow> lease_coherent j \<and> context_ok j \<and> 0 \<le> attempts j \<and> attempts j \<le> max 0 (max_attempts j)"

definition queue_ok :: "queue \<Rightarrow> bool" where
  "queue_ok s \<longleftrightarrow>
     distinct (map job_id (q_jobs s)) \<and> distinct (map dedup_key (q_jobs s)) \<and> (\<forall>j \<in> set (q_jobs s). row_ok j)
     \<and> (\<forall>j \<in> set (q_jobs s). \<forall>t. lease_token j = Some t \<longrightarrow> t \<in> set (q_issued s)
          \<and> (\<forall>k \<in> set (q_jobs s). lease_token k = Some t \<longrightarrow> k = j))"

subsection \<open>What a call may do to a row\<close>

inductive row_move :: "uuid set \<Rightarrow> job \<Rightarrow> job \<Rightarrow> bool" for used :: "uuid set" where
  move_same: "row_move used j j"
| move_claim: "claimable now j \<Longrightarrow> token \<notin> used \<Longrightarrow> row_move used j (claim_row now lease token j)"
| move_settle: "job_state j = Leased \<Longrightarrow> st \<noteq> Leased \<Longrightarrow>
    row_move used j ((settle_row now st j)\<lparr>available_at := at, last_error := err\<rparr>)"
| move_advance: "job_state j = Pending \<Longrightarrow> row_move used j (j\<lparr>available_at := now, job_updated_at := now\<rparr>)"

inductive_cases row_moveE: "row_move used j k"

lemma row_move_keys: "row_move used j k \<Longrightarrow> job_id k = job_id j \<and> dedup_key k = dedup_key j \<and> max_attempts k = max_attempts j"
  by (erule row_moveE) (auto simp: claim_row_def settle_row_def)

lemma row_move_ok: "row_move used j k \<Longrightarrow> row_ok j \<Longrightarrow> row_ok k"
  by (erule row_moveE)
    (auto simp: claim_row_def settle_row_def row_ok_def lease_coherent_def context_ok_def claimable_def due_def expired_def
      split: job_kind.splits)

lemma row_move_settled: "row_move used j k \<Longrightarrow> job_state j \<in> {Done, Dead} \<Longrightarrow> k = j"
  by (erule row_moveE) (auto simp: claimable_def due_def expired_def)

lemma row_move_token: "row_move used j k \<Longrightarrow> lease_token k = Some t \<Longrightarrow> t \<in> used \<Longrightarrow> k = j \<or> (lease_token j = Some t \<and> job_state j = Pending)"
  by (erule row_moveE) (auto simp: claim_row_def settle_row_def)

lemma row_move_stuck:
  "row_move used j k \<Longrightarrow> job_state j = Pending \<Longrightarrow> max_attempts j \<le> attempts j
   \<Longrightarrow> job_state k = Pending \<and> attempts k = attempts j \<and> max_attempts k = max_attempts j"
  by (erule row_moveE) (auto simp: claimable_def)

lemma settle_move: "job_state j = Leased \<Longrightarrow> st \<noteq> Leased \<Longrightarrow> row_move used j (settle_row now st j)"
  using move_settle [where j = j and st = st and used = used and now = now and at = "available_at j" and err = "last_error j"] by (simp add: settle_row_def)

subsection \<open>The shape of a step\<close>

lemma claim_candidates_in: "j \<in> set (claim_candidates now locked js) \<longleftrightarrow> j \<in> set js \<and> claimable now j \<and> job_id j \<notin> set locked"
  by (auto simp: claim_candidates_def)

lemma claim_job_None: "claim_job now lease token locked js = (None, js') \<longleftrightarrow>
    js' = js \<and> (\<forall>j \<in> set js. claimable now j \<longrightarrow> job_id j \<in> set locked)"
proof -
  have "claim_candidates now locked js = [] \<longleftrightarrow> (\<forall>j \<in> set js. claimable now j \<longrightarrow> job_id j \<in> set locked)"
    using claim_candidates_in [of _ now locked js] by (metis list.set_intros(1) neq_Nil_conv empty_iff empty_set)
  then show ?thesis by (auto simp: claim_job_def split: list.splits)
qed

lemma claim_job_Some:
  assumes "claim_job now lease token locked js = (Some c, js')"
  obtains j where "j \<in> set js" "claimable now j" "job_id j \<notin> set locked"
    "c = claim_of token (claim_row now lease token j)"
    "js' = update_rows (\<lambda>r. job_id r = job_id j) (claim_row now lease token) js"
    "\<forall>k \<in> set js. claimable now k \<and> job_id k \<notin> set locked \<longrightarrow> (priority j, available_at j) \<le> (priority k, available_at k)"
proof -
  obtain j rest where cand: "claim_candidates now locked js = j # rest"
    "c = claim_of token (claim_row now lease token j)"
    "js' = update_rows (\<lambda>r. job_id r = job_id j) (claim_row now lease token) js"
    using assms by (auto simp: claim_job_def split: list.splits)
  have "sorted (map (\<lambda>j. (priority j, available_at j)) (claim_candidates now locked js))"
    by (simp add: claim_candidates_def)
  then have least: "\<forall>k \<in> set (claim_candidates now locked js). (priority j, available_at j) \<le> (priority k, available_at k)"
    unfolding cand(1) by auto
  have "j \<in> set (claim_candidates now locked js)" using cand(1) by simp
  then have j: "j \<in> set js" "claimable now j" "job_id j \<notin> set locked" by (simp_all add: claim_candidates_in)
  have "\<forall>k \<in> set js. claimable now k \<and> job_id k \<notin> set locked \<longrightarrow> (priority j, available_at j) \<le> (priority k, available_at k)"
    using least claim_candidates_in by blast
  from that [OF j cand(2,3) this] show ?thesis .
qed

definition fresh_row :: "job list \<Rightarrow> job \<Rightarrow> bool" where
  "fresh_row js j \<longleftrightarrow> job_id j \<notin> job_id ` set js \<and> dedup_key j \<notin> dedup_key ` set js \<and> row_ok j
     \<and> job_state j = Pending \<and> attempts j = 0"

lemma enqueue_job_Inr:
  assumes "enqueue_job now cfg i q js = Inr (r, js')" "i \<notin> job_id ` set js"
  shows "(js' = js \<and> r = None) \<or> (\<exists>j. js' = js @ [j] \<and> fresh_row js j \<and> r = Some i \<and> job_id j = i \<and> dedup_key j = eq_dedup_key q)"
proof -
  obtain delay ceiling where q: "\<not> bad_context q" and
    res: "(if eq_dedup_key q \<in> dedup_key ` set js then (None, js) else (Some i, js @
              [\<lparr>job_id = i, job_kind_of = eq_kind q, dedup_key = eq_dedup_key q, job_run_id = eq_run_id q,
                job_email_id = eq_email_id q, job_resolution_id = eq_resolution_id q, job_event_id = eq_event_id q,
                job_business_id = eq_business_id q, priority = 100, job_state = Pending, attempts = 0,
                max_attempts = ceiling, available_at = now + delay, lease_token = None, leased_until = None,
                last_error = eq_last_error q, job_updated_at = now\<rparr>])) = (r, js')"
    using assms(1) by (auto simp: enqueue_job_def res_simps)
  have "context_ok j" if "job_kind_of j = eq_kind q" "job_run_id j = eq_run_id q" "job_email_id j = eq_email_id q"
    "job_resolution_id j = eq_resolution_id q" "job_event_id j = eq_event_id q" "job_business_id j = eq_business_id q" for j
    using that q by (cases "eq_kind q") (auto simp: context_ok_def bad_context_def split: option.splits)
  with res assms(2) show ?thesis
    by (auto simp: fresh_row_def row_ok_def lease_coherent_def split: if_splits)
qed

definition moves :: "uuid set \<Rightarrow> job list \<Rightarrow> job list \<Rightarrow> bool" where
  "moves used js js' \<longleftrightarrow>
     (\<exists>g new. js' = map g js @ new \<and> (\<forall>j \<in> set js. row_move used j (g j)) \<and> (new = [] \<or> (\<exists>j. new = [j] \<and> fresh_row js j)))"

lemma moves_update [intro]:
  assumes "\<And>j. j \<in> set js \<Longrightarrow> p j \<Longrightarrow> row_move used j (f j)"
  shows "moves used js (update_rows p f js)"
  unfolding moves_def update_rows_def
  by (rule exI [of _ "\<lambda>j. if p j then f j else j"], rule exI [of _ "[]"]) (use assms in \<open>auto intro: move_same\<close>)

lemma moves_append:
  assumes "fresh_row js j" shows "moves used js (js @ [j])"
  unfolding moves_def by (rule exI [of _ id], rule exI [of _ "[j]"]) (use assms in \<open>auto intro: move_same\<close>)

lemma moves_refl [simp, intro]: "moves used js js"
  unfolding moves_def by (rule exI [of _ id], rule exI [of _ "[]"]) (auto intro: move_same)

lemma step_shape:
  assumes "queue_step s e t" "distinct (map job_id (q_jobs s))"
  shows "moves (set (q_issued s)) (q_jobs s) (q_jobs t)"
  using assms
proof (cases rule: queue_step.cases)
  case (step_enqueue now cfg i q r js)
  then show ?thesis
    using enqueue_job_Inr [OF step_enqueue(3,4)] by (auto intro: moves_append)
next
  case (step_claim now lease token locked c js)
  from step_claim(3) obtain j where j: "j \<in> set (q_jobs s)" "claimable now j"
    "js = update_rows (\<lambda>r. job_id r = job_id j) (claim_row now lease token) (q_jobs s)"
    by (rule claim_job_Some)
  have "row_move (set (q_issued s)) k (claim_row now lease token k)" if "k \<in> set (q_jobs s)" "job_id k = job_id j" for k
    using distinct_key [OF assms(2) that(1) j(1) that(2)] j(2) step_claim(4) by (simp add: move_claim)
  then show ?thesis unfolding step_claim(2) j(3) by auto
next
  case (step_complete now i t' ok js)
  then show ?thesis by (auto simp: complete_job_def held_def intro!: moves_update settle_move)
next
  case (step_fail now i t' detail backoff r js)
  then show ?thesis by (auto simp: fail_job_def held_def fail_state_def intro!: moves_update move_settle split: if_splits)
next
  case (step_release now ts n js)
  have m: "row_move (set (q_issued s)) j ((settle_row now Pending j)\<lparr>available_at := now\<rparr>)" if "holds_any ts j" for j
    using that move_settle [where j = j and st = Pending and used = "set (q_issued s)" and now = now and at = now and err = "last_error j"]
    by (simp add: holds_any_def settle_row_def)
  then show ?thesis using step_release by (auto simp: release_leases_def split: if_splits)
next
  case (step_advance now i ok js)
  then show ?thesis by (auto simp: advance_due_now_def intro!: moves_update move_advance)
qed

subsection \<open>Invariants of every run of the queue\<close>

lemma moves_keys:
  assumes "moves used js js'"
  obtains new where "map job_id js' = map job_id js @ map job_id new" "map dedup_key js' = map dedup_key js @ map dedup_key new"
    "new = [] \<or> (\<exists>j. new = [j] \<and> fresh_row js j)"
proof -
  obtain g new where g: "js' = map g js @ new" "\<forall>j \<in> set js. row_move used j (g j)" "new = [] \<or> (\<exists>j. new = [j] \<and> fresh_row js j)"
    using assms by (auto simp: moves_def)
  then have "map job_id (map g js) = map job_id js" "map dedup_key (map g js) = map dedup_key js"
    using row_move_keys by auto
  with g that show ?thesis by simp
qed

lemma movesE:
  assumes "moves used js js'" "k \<in> set js'"
  obtains j where "j \<in> set js" "row_move used j k" | "fresh_row js k"
  using assms by (auto simp: moves_def)

lemma moves_forward:
  assumes "moves used js js'" "j \<in> set js"
  obtains k where "k \<in> set js'" "row_move used j k"
proof -
  obtain g new where g: "js' = map g js @ new" "\<forall>j \<in> set js. row_move used j (g j)"
    using assms(1) by (auto simp: moves_def)
  with assms(2) have "g j \<in> set js'" "row_move used j (g j)" by auto
  with that show ?thesis .
qed

lemma moves_distinct:
  assumes "moves used js js'" "distinct (map job_id js)" "distinct (map dedup_key js)"
  shows "distinct (map job_id js') \<and> distinct (map dedup_key js')"
proof -
  obtain new where "map job_id js' = map job_id js @ map job_id new" "map dedup_key js' = map dedup_key js @ map dedup_key new"
    and new: "new = [] \<or> (\<exists>j. new = [j] \<and> fresh_row js j)"
    using assms(1) by (rule moves_keys)
  moreover have "distinct (map job_id js @ map job_id new)" "distinct (map dedup_key js @ map dedup_key new)"
    using new assms(2,3) by (fastforce simp: fresh_row_def)+
  ultimately show ?thesis by simp
qed

lemma moves_rows_ok: "moves used js js' \<Longrightarrow> \<forall>j \<in> set js. row_ok j \<Longrightarrow> \<forall>k \<in> set js'. row_ok k"
  by (meson movesE row_move_ok fresh_row_def)

lemma fresh_row_token: "fresh_row js k \<Longrightarrow> lease_token k = None"
  by (auto simp: fresh_row_def row_ok_def lease_coherent_def)

definition tokens_ok :: "uuid set \<Rightarrow> job list \<Rightarrow> bool" where
  "tokens_ok used js \<longleftrightarrow> (\<forall>j \<in> set js. \<forall>t. lease_token j = Some t \<longrightarrow> t \<in> used \<and> (\<forall>k \<in> set js. lease_token k = Some t \<longrightarrow> k = j))"

lemma queue_ok_tokens: "queue_ok s \<longleftrightarrow>
    distinct (map job_id (q_jobs s)) \<and> distinct (map dedup_key (q_jobs s)) \<and> (\<forall>j \<in> set (q_jobs s). row_ok j)
     \<and> tokens_ok (set (q_issued s)) (q_jobs s)"
  by (simp add: queue_ok_def tokens_ok_def)

text \<open>A call that issues no token leaves a row its token or takes it away.\<close>

lemma tokens_ok_update:
  assumes "tokens_ok used js" "\<And>j. p j \<Longrightarrow> lease_token (f j) = None \<or> lease_token (f j) = lease_token j"
  shows "tokens_ok used (update_rows p f js)"
  unfolding tokens_ok_def
proof (intro ballI allI impI conjI)
  fix y t assume y: "y \<in> set (update_rows p f js)" "lease_token y = Some t"
  have source: "\<exists>x \<in> set js. lease_token x = Some t \<and> z = (if p x then f x else x)"
    if "z \<in> set (update_rows p f js)" "lease_token z = Some t" for z
  proof -
    from that(1) obtain x where x: "x \<in> set js" "z = (if p x then f x else x)" by (auto simp: update_rows_def)
    with that(2) assms(2) [of x] have "lease_token x = Some t" by (cases "p x") auto
    with x show ?thesis by blast
  qed
  from source [OF y] obtain x where x: "x \<in> set js" "lease_token x = Some t" "y = (if p x then f x else x)" by auto
  with assms(1) show "t \<in> used" by (auto simp: tokens_ok_def)
  fix z assume z: "z \<in> set (update_rows p f js)" "lease_token z = Some t"
  from source [OF z] obtain x' where x': "x' \<in> set js" "lease_token x' = Some t" "z = (if p x' then f x' else x')" by auto
  have "x' = x" using assms(1) x(1,2) x'(1,2) by (auto simp: tokens_ok_def)
  with x(3) x'(3) show "z = y" by simp
qed

lemma tokens_ok_claim:
  assumes "tokens_ok used js" "token \<notin> used" "distinct (map job_id js)"
  shows "tokens_ok (insert token used) (update_rows (\<lambda>r. job_id r = i) (claim_row now lease token) js)"
proof -
  have old: "x \<in> set js \<and> job_id x \<noteq> i" if "x \<in> set (update_rows (\<lambda>r. job_id r = i) (claim_row now lease token) js)" "lease_token x = Some t" "t \<noteq> token" for x t
    using that by (auto simp: set_update_rows claim_row_def)
  have new: "\<exists>y \<in> set js. job_id y = i \<and> x = claim_row now lease token y" if "x \<in> set (update_rows (\<lambda>r. job_id r = i) (claim_row now lease token) js)" "lease_token x = Some token" for x
  proof -
    from that(1) consider y where "y \<in> set js" "job_id y = i" "x = claim_row now lease token y" | "x \<in> set js"
      by (auto simp: set_update_rows)
    then show ?thesis using that(2) assms(1,2) by cases (auto simp: tokens_ok_def)
  qed
  show ?thesis
    unfolding tokens_ok_def
  proof (intro ballI allI impI conjI)
    fix x t assume x: "x \<in> set (update_rows (\<lambda>r. job_id r = i) (claim_row now lease token) js)" "lease_token x = Some t"
    then show "t \<in> insert token used" using old [OF x] assms(1) by (auto simp: tokens_ok_def)
    fix y assume y: "y \<in> set (update_rows (\<lambda>r. job_id r = i) (claim_row now lease token) js)" "lease_token y = Some t"
    show "y = x"
    proof (cases "t = token")
      case True
      with new x y obtain x' y' where "x' \<in> set js" "job_id x' = i" "x = claim_row now lease token x'"
        "y' \<in> set js" "job_id y' = i" "y = claim_row now lease token y'" by blast
      with distinct_key [OF assms(3), of x' y'] show ?thesis by simp
    next
      case False
      with old [OF x] old [OF y] x(2) y(2) assms(1) show ?thesis by (auto simp: tokens_ok_def)
    qed
  qed
qed

lemma step_tokens:
  assumes "queue_step s e t" "queue_ok s"
  shows "tokens_ok (set (q_issued t)) (q_jobs t)"
proof -
  have ok: "tokens_ok (set (q_issued s)) (q_jobs s)" and ids: "distinct (map job_id (q_jobs s))"
    using assms(2) by (simp_all add: queue_ok_tokens)
  from assms(1) show ?thesis
  proof (cases rule: queue_step.cases)
    case (step_enqueue now cfg i q r js)
    have "tokens_ok (set (q_issued s)) (q_jobs s @ [j])" if "fresh_row (q_jobs s) j" for j
      using ok fresh_row_token [OF that] by (auto simp: tokens_ok_def)
    with step_enqueue(2) enqueue_job_Inr [OF step_enqueue(3,4)] ok show ?thesis by auto
  next
    case (step_claim now lease token locked c js)
    from step_claim(3) obtain j where "j \<in> set (q_jobs s)"
      "js = update_rows (\<lambda>r. job_id r = job_id j) (claim_row now lease token) (q_jobs s)"
      by (rule claim_job_Some)
    with step_claim(2) tokens_ok_claim [OF ok step_claim(4) ids] show ?thesis by simp
  next
    case (step_complete now i t' r js)
    then show ?thesis using tokens_ok_update [OF ok, of "held i t'" "settle_row now Done"]
      by (simp add: complete_job_def settle_row_def)
  next
    case (step_fail now i t' detail backoff r js)
    then show ?thesis using tokens_ok_update [OF ok, of "held i t'"
        "\<lambda>j. (settle_row now (fail_state j) j)\<lparr>available_at := now + backoff, last_error := Some detail\<rparr>"]
      by (simp add: fail_job_def settle_row_def)
  next
    case (step_release now ts n js)
    then show ?thesis using ok tokens_ok_update [OF ok, of "holds_any ts" "\<lambda>j. (settle_row now Pending j)\<lparr>available_at := now\<rparr>"]
      by (simp add: release_leases_def settle_row_def split: if_splits)
  next
    case (step_advance now i r js)
    then show ?thesis using tokens_ok_update [OF ok, of "\<lambda>j. job_id j = i \<and> job_state j = Pending"
        "\<lambda>j. j\<lparr>available_at := now, job_updated_at := now\<rparr>"]
      by (simp add: advance_due_now_def)
  qed
qed

lemma queue_ok_step: "queue_ok s \<Longrightarrow> queue_step s e t \<Longrightarrow> queue_ok t"
  using step_shape [of s e t] step_tokens [of s e t] moves_distinct moves_rows_ok
  unfolding queue_ok_tokens by blast

interpretation qi: step_invariant queue_step queue_ok
  by unfold_locales (rule queue_ok_step)

lemma empty_queue_ok: "queue_ok \<lparr>q_jobs = [], q_issued = us\<rparr>"
  by (simp add: queue_ok_def)

subsection \<open>Fencing, settled rows, stranded rows\<close>

text \<open>A token that was drawn and is not the one the row holds.\<close>

definition stale :: "uuid \<Rightarrow> uuid \<Rightarrow> queue \<Rightarrow> bool" where
  "stale i t s \<longleftrightarrow> t \<in> set (q_issued s) \<and> (\<forall>j \<in> set (q_jobs s). \<not> held i t j)"

lemma issued_grows: "queue_step s e t \<Longrightarrow> set (q_issued s) \<subseteq> set (q_issued t)"
  by (cases rule: queue_step.cases) auto

lemma stale_step:
  assumes "queue_ok s \<and> stale i t s" "queue_step s e s'"
  shows "queue_ok s' \<and> stale i t s'"
proof -
  have m: "moves (set (q_issued s)) (q_jobs s) (q_jobs s')"
    using step_shape [OF assms(2)] assms(1) by (simp add: queue_ok_def)
  have "\<not> held i t k" if k: "k \<in> set (q_jobs s')" for k
  proof
    assume held: "held i t k"
    from m k show False
    proof (rule movesE)
      fix j assume j: "j \<in> set (q_jobs s)" "row_move (set (q_issued s)) j k"
      then have "k = j \<or> (lease_token j = Some t \<and> job_state j = Pending)"
        using row_move_token held assms(1) by (auto simp: stale_def held_def)
      moreover have "lease_coherent j" using assms(1) j(1) by (simp add: queue_ok_def row_ok_def)
      ultimately show False using assms(1) j(1) held by (auto simp: stale_def lease_coherent_def)
    next
      assume "fresh_row (q_jobs s) k"
      with held show False by (simp add: fresh_row_def held_def)
    qed
  qed
  then show ?thesis
    using assms issued_grows [OF assms(2)] queue_ok_step by (auto simp: stale_def)
qed

lemma stale_no_effect:
  assumes "stale i t s"
  shows "complete_job now i t (q_jobs s) = (False, q_jobs s)" "fail_job now i t d b (q_jobs s) = (None, q_jobs s)"
  using assms by (simp_all add: stale_def complete_job_def fail_job_def update_rows_none list_ex_iff first_match_None)

definition settled_row :: "job \<Rightarrow> queue \<Rightarrow> bool" where
  "settled_row j s \<longleftrightarrow> j \<in> set (q_jobs s) \<and> job_state j \<in> {Done, Dead}"

lemma settled_step:
  assumes "queue_ok s \<and> settled_row j s" "queue_step s e s'"
  shows "queue_ok s' \<and> settled_row j s'"
proof -
  have m: "moves (set (q_issued s)) (q_jobs s) (q_jobs s')"
    using step_shape [OF assms(2)] assms(1) by (simp add: queue_ok_def)
  obtain k where "k \<in> set (q_jobs s')" "row_move (set (q_issued s)) j k"
    using moves_forward [OF m] assms(1) by (auto simp: settled_row_def)
  then show ?thesis
    using assms queue_ok_step row_move_settled [of "set (q_issued s)" j k] by (auto simp: settled_row_def)
qed

interpretation settled: step_invariant queue_step "\<lambda>s. queue_ok s \<and> settled_row j s"
  by unfold_locales (rule settled_step)

definition stranded :: "uuid \<Rightarrow> queue \<Rightarrow> bool" where
  "stranded i s \<longleftrightarrow> (\<exists>j \<in> set (q_jobs s). job_id j = i \<and> job_state j = Pending \<and> max_attempts j \<le> attempts j)"

lemma stranded_step:
  assumes "queue_ok s \<and> stranded i s" "queue_step s e s'"
  shows "queue_ok s' \<and> stranded i s'"
proof -
  have m: "moves (set (q_issued s)) (q_jobs s) (q_jobs s')"
    using step_shape [OF assms(2)] assms(1) by (simp add: queue_ok_def)
  obtain j where j: "j \<in> set (q_jobs s)" "job_id j = i" "job_state j = Pending" "max_attempts j \<le> attempts j"
    using assms(1) by (auto simp: stranded_def)
  obtain k where "k \<in> set (q_jobs s')" "row_move (set (q_issued s)) j k" using moves_forward [OF m j(1)] .
  then show ?thesis
    using assms queue_ok_step row_move_stuck [of "set (q_issued s)" j k] row_move_keys [of "set (q_issued s)" j k] j
    by (auto simp: stranded_def)
qed

interpretation strand: step_invariant queue_step "\<lambda>s. queue_ok s \<and> stranded i s"
  by unfold_locales (rule stranded_step)

subsection \<open>Attempts are claims\<close>

definition attempts_of :: "uuid \<Rightarrow> queue \<Rightarrow> int" where
  "attempts_of i s = (case get_job i (q_jobs s) of None \<Rightarrow> 0 | Some j \<Rightarrow> attempts j)"

definition claim_weight :: "uuid \<Rightarrow> queue_event \<Rightarrow> int" where
  "claim_weight i e = (case e of Claimed c \<Rightarrow> if cj_id c = i then 1 else 0 | _ \<Rightarrow> 0)"

lemma get_job_update:
  "(\<And>j. job_id (f j) = job_id j) \<Longrightarrow>
   get_job i (update_rows p f js) = map_option (\<lambda>j. if p j then f j else j) (get_job i js)"
  unfolding get_job_def update_rows_def by (induction js) auto

lemma get_job_Some: "get_job i js = Some j \<Longrightarrow> j \<in> set js \<and> job_id j = i"
  unfolding get_job_def by (rule first_match_SomeD)

lemma get_job_None: "get_job i js = None \<longleftrightarrow> i \<notin> job_id ` set js"
  unfolding get_job_def by (auto simp: first_match_None)

lemma get_job_member:
  assumes "distinct (map job_id js)" "j \<in> set js"
  shows "get_job (job_id j) js = Some j"
proof (cases "get_job (job_id j) js")
  case None
  with assms(2) show ?thesis by (simp add: get_job_None)
next
  case (Some k)
  with get_job_Some [OF Some] distinct_key [OF assms(1), of k j] assms(2) show ?thesis by simp
qed

lemma get_job_append: "get_job i (js @ ks) = (case get_job i js of None \<Rightarrow> get_job i ks | Some j \<Rightarrow> Some j)"
  unfolding get_job_def by (induction js) auto

lemma attempts_of_update:
  assumes "\<And>j. job_id (f j) = job_id j" "\<And>j. attempts (f j) = attempts j"
  shows "attempts_of i (s\<lparr>q_jobs := update_rows p f (q_jobs s)\<rparr>) = attempts_of i s"
  using assms by (simp add: attempts_of_def get_job_update split: option.split)

lemma attempts_accounted:
  assumes "queue_ok s" "queue_step s e t"
  shows "attempts_of i t = attempts_of i s + claim_weight i e"
  using assms(2)
proof (cases rule: queue_step.cases)
  case (step_enqueue now cfg k q r js)
  have "attempts_of i (s\<lparr>q_jobs := q_jobs s @ [j]\<rparr>) = attempts_of i s" if "fresh_row (q_jobs s) j" for j
    using that by (simp add: attempts_of_def get_job_append fresh_row_def split: option.split) (simp add: get_job_def)
  with step_enqueue(1,2) enqueue_job_Inr [OF step_enqueue(3,4)] show ?thesis by (auto simp: claim_weight_def)
next
  case (step_claim now lease token locked c js)
  from step_claim(3) obtain j where j: "j \<in> set (q_jobs s)" "c = claim_of token (claim_row now lease token j)"
    "js = update_rows (\<lambda>r. job_id r = job_id j) (claim_row now lease token) (q_jobs s)"
    by (rule claim_job_Some)
  have g: "get_job (job_id j) (q_jobs s) = Some j"
    using get_job_member [OF _ j(1)] assms(1) by (simp add: queue_ok_def)
  have u: "get_job i (q_jobs t) = map_option (\<lambda>r. if job_id r = job_id j then claim_row now lease token r else r) (get_job i (q_jobs s))"
    by (simp add: step_claim(2) j(3)) (rule get_job_update, simp add: claim_row_def)
  have w: "claim_weight i e = (if job_id j = i then 1 else 0)"
    by (simp add: step_claim(1) j(2) claim_weight_def claim_of_def claim_row_def)
  show ?thesis
  proof (cases "job_id j = i")
    case True
    with g u w show ?thesis by (simp add: attempts_of_def claim_row_def)
  next
    case False
    then show ?thesis using u w get_job_Some [of i "q_jobs s"] by (cases "get_job i (q_jobs s)") (auto simp: attempts_of_def)
  qed
qed (auto simp: claim_weight_def complete_job_def fail_job_def release_leases_def advance_due_now_def settle_row_def
    attempts_of_update split: if_splits)

subsection \<open>A small run\<close>

definition sample_request :: enqueue_request where
  "sample_request = \<lparr>eq_kind = RunPipeline, eq_dedup_key = ''run_pipeline:1'', eq_run_id = Some 9, eq_email_id = None,
     eq_resolution_id = None, eq_event_id = None, eq_business_id = None, eq_max_attempts = Some 1,
     eq_delay = DelayNumber 0, eq_last_error = None\<rparr>"

definition sample_job :: job where
  "sample_job = \<lparr>job_id = 1, job_kind_of = RunPipeline, dedup_key = ''run_pipeline:1'', job_run_id = Some 9,
     job_email_id = None, job_resolution_id = None, job_event_id = None, job_business_id = None, priority = 100,
     job_state = Pending, attempts = 0, max_attempts = 1, available_at = 0, lease_token = None, leased_until = None,
     last_error = None, job_updated_at = 0\<rparr>"

definition empty_queue :: queue where
  "empty_queue = \<lparr>q_jobs = [], q_issued = []\<rparr>"

definition sample_leased :: queue where
  "sample_leased = \<lparr>q_jobs = [claim_row 0 (seconds 900) 11 sample_job], q_issued = [11]\<rparr>"

lemma sample_enqueue: "enqueue_job 0 5 1 sample_request [] = Inr (Some 1, [sample_job])"
  by (simp add: enqueue_job_def bad_context_def delay_micros_def attempt_ceiling_def sample_request_def sample_job_def)

lemma sample_claim: "claim_job 0 (seconds 900) 11 [] [sample_job] =
    (Some (claim_of 11 (claim_row 0 (seconds 900) 11 sample_job)), [claim_row 0 (seconds 900) 11 sample_job])"
  by (simp add: claim_job_def claim_candidates_def claimable_def due_def sample_job_def update_rows_def)

lemma sample_run_to_leased:
  "run_of queue_step empty_queue [Enqueued (Some 1), Claimed (claim_of 11 (claim_row 0 (seconds 900) 11 sample_job))] sample_leased"
proof -
  have a: "queue_step empty_queue (Enqueued (Some 1)) \<lparr>q_jobs = [sample_job], q_issued = []\<rparr>"
    using step_enqueue [of 0 5 1 sample_request empty_queue "Some 1" "[sample_job]"] sample_enqueue by (simp add: empty_queue_def)
  have b: "queue_step \<lparr>q_jobs = [sample_job], q_issued = []\<rparr> (Claimed (claim_of 11 (claim_row 0 (seconds 900) 11 sample_job))) sample_leased"
    using step_claim [of 0 "seconds 900" 11 "[]" "\<lparr>q_jobs = [sample_job], q_issued = []\<rparr>"] sample_claim by (simp add: sample_leased_def)
  show ?thesis using run_of_snoc [OF run_of_single [of queue_step, OF a] b] by simp
qed

lemma sample_released: "queue_step sample_leased (Released 1)
    \<lparr>q_jobs = [(settle_row 0 Pending (claim_row 0 (seconds 900) 11 sample_job))\<lparr>available_at := 0\<rparr>], q_issued = [11]\<rparr>"
  using step_release [of 0 "[11]" sample_leased]
  by (simp add: sample_leased_def release_leases_def holds_any_def claim_row_def update_rows_def)

lemma empty_ok: "queue_ok empty_queue"
  by (simp add: empty_queue_def empty_queue_ok)

subsection \<open>Properties\<close>

text \<open>A settled job is history for these calls: a row that is done or dead is the same row, to the last
  column, after any further ones, and its dedup key stays taken.\<close>

theorem settled_rows_are_frozen:
  assumes "run_of queue_step empty_queue es s" "run_of queue_step s fs s'" "j \<in> set (q_jobs s)" "job_state j \<in> {Done, Dead}"
  shows "j \<in> set (q_jobs s') \<and>
    (eq_dedup_key q = dedup_key j \<longrightarrow> (\<forall>r js. enqueue_job now cfg i q (q_jobs s') = Inr (r, js) \<longrightarrow> r = None \<and> js = q_jobs s'))"
proof -
  have "queue_ok s" using qi.along_run [OF assms(1)] empty_ok by simp
  then have j: "j \<in> set (q_jobs s')"
    using settled.along_run [OF assms(2), of j] assms(3,4) by (simp add: settled_row_def)
  have "dedup_key j \<in> dedup_key ` set (q_jobs s')" using j by simp
  with j show ?thesis by (auto simp: enqueue_job_def res_simps split: if_splits)
qed

theorem settled_rows_are_frozen_witness:
  "\<exists>js. enqueue_job 9 5 2 sample_request [settle_row 3 Done (claim_row 0 (seconds 900) 11 sample_job)] = Inr (None, js)"
proof -
  let ?row = "settle_row 3 Done (claim_row 0 (seconds 900) 11 sample_job)"
  let ?s = "\<lparr>q_jobs = [?row], q_issued = [11]\<rparr>"
  have "queue_step sample_leased (Completed 1 11 True) ?s"
    using step_complete [of 3 1 11 sample_leased]
    by (simp add: sample_leased_def complete_job_def update_rows_def held_def claim_row_def sample_job_def)
  note frozen = settled_rows_are_frozen [OF run_of_snoc [OF sample_run_to_leased this] run_of_nil, of ?row sample_request 9 5 2]
  have "\<exists>r js. enqueue_job 9 5 2 sample_request [?row] = Inr (r, js)"
    by (simp add: enqueue_job_def bad_context_def delay_micros_def attempt_ceiling_def sample_request_def)
  then obtain r js where r: "enqueue_job 9 5 2 sample_request [?row] = Inr (r, js)" by blast
  have "eq_dedup_key sample_request = dedup_key ?row"
    by (simp add: sample_request_def settle_row_def claim_row_def sample_job_def)
  with frozen r have "r = None" by (auto simp: settle_row_def)
  with r show ?thesis by blast
qed

text \<open>A lease handed back at shutdown on its last attempt is lost: \<open>release_leases\<close> makes the row
  pending with no attempt left, and from then on no sequence of these calls ever leases it, ends it
  or frees its dedup key, although it still counts as open work.\<close>

theorem final_attempt_release_strands:
  assumes "queue_ok s" "held i t j" "j \<in> set (q_jobs s)" "max_attempts j \<le> attempts j" "t \<in> set ts"
    "run_of queue_step (s\<lparr>q_jobs := snd (release_leases now ts (q_jobs s))\<rparr>) es s'"
  shows "\<exists>k \<in> set (q_jobs s'). job_id k = i \<and> job_state k = Pending \<and> open_job k
    \<and> \<not> claimable later k \<and> (\<forall>u. \<not> held i u k)"
proof -
  let ?s1 = "s\<lparr>q_jobs := snd (release_leases now ts (q_jobs s))\<rparr>"
  have "queue_step s (Released (fst (release_leases now ts (q_jobs s)))) ?s1" by (rule step_release [of now ts]) simp
  with assms(1) have ok: "queue_ok ?s1" by (rule queue_ok_step)
  have "holds_any ts j" "ts \<noteq> []" using assms(2,5) by (auto simp: held_def holds_any_def)
  then have "(settle_row now Pending j)\<lparr>available_at := now\<rparr> \<in> set (q_jobs ?s1)"
    using assms(3) by (simp add: release_leases_def set_update_rows)
  then have "stranded i ?s1" using assms(2,4) unfolding stranded_def by (intro bexI) (auto simp: settle_row_def held_def)
  with ok have "stranded i s'" using strand.along_run [OF assms(6), of i] by simp
  then show ?thesis by (auto simp: stranded_def claimable_def open_job_def held_def)
qed

theorem final_attempt_release_strands_witness:
  "\<exists>k \<in> set (q_jobs \<lparr>q_jobs = [(settle_row 0 Pending (claim_row 0 (seconds 900) 11 sample_job))\<lparr>available_at := 0\<rparr>], q_issued = [11]\<rparr>).
     job_id k = 1 \<and> job_state k = Pending \<and> open_job k \<and> \<not> claimable (seconds 86400) k"
proof -
  have ok: "queue_ok sample_leased" using qi.along_run [OF sample_run_to_leased] empty_ok by simp
  have r: "snd (release_leases 0 [11] (q_jobs sample_leased)) = [(settle_row 0 Pending (claim_row 0 (seconds 900) 11 sample_job))\<lparr>available_at := 0\<rparr>]"
    by (simp add: sample_leased_def release_leases_def holds_any_def claim_row_def update_rows_def)
  have "held 1 11 (claim_row 0 (seconds 900) 11 sample_job)" "max_attempts (claim_row 0 (seconds 900) 11 sample_job) \<le> attempts (claim_row 0 (seconds 900) 11 sample_job)"
    by (simp_all add: held_def claim_row_def sample_job_def)
  from final_attempt_release_strands [OF ok this(1) _ this(2) _ run_of_nil, of "[11]" 0 "seconds 86400"] show ?thesis
    unfolding r by (auto simp: sample_leased_def)
qed

text \<open>C22. The claim serves the queue: it returns nothing exactly when no unlocked row is claimable;
  otherwise it leases the row of least priority number and earliest due time among those it
  may take (a due pending row, or a leased one whose worker let the lease expire) under the
  new token, counting one attempt, and leaves every other row alone.\<close>

theorem claim_serves_the_queue:
  assumes "queue_ok \<lparr>q_jobs = js, q_issued = us\<rparr>" "claim_job now lease token locked js = (r, js')"
  shows "(r = None \<longleftrightarrow> (\<forall>j \<in> set js. claimable now j \<longrightarrow> job_id j \<in> set locked))
    \<and> (\<forall>c. r = Some c \<longrightarrow> (\<exists>j \<in> set js. claimable now j \<and> job_id j \<notin> set locked \<and> cj_id c = job_id j
          \<and> cj_attempts c = attempts j + 1 \<and> cj_token c = token
          \<and> (\<forall>k \<in> set js. claimable now k \<and> job_id k \<notin> set locked \<longrightarrow>
                priority j < priority k \<or> (priority j = priority k \<and> available_at j \<le> available_at k))
          \<and> get_job (job_id j) js' = Some (claim_row now lease token j)
          \<and> (\<forall>i. i \<noteq> job_id j \<longrightarrow> get_job i js' = get_job i js)))"
proof (cases r)
  case None
  then show ?thesis using claim_job_None [of now lease token locked js js'] assms(2) by simp
next
  case (Some c)
  from assms(2) Some obtain j where j: "j \<in> set js" "claimable now j" "job_id j \<notin> set locked"
    "c = claim_of token (claim_row now lease token j)"
    "js' = update_rows (\<lambda>r. job_id r = job_id j) (claim_row now lease token) js"
    "\<forall>k \<in> set js. claimable now k \<and> job_id k \<notin> set locked \<longrightarrow> (priority j, available_at j) \<le> (priority k, available_at k)"
    by (auto elim: claim_job_Some)
  have "get_job (job_id j) js = Some j"
    using get_job_member [OF _ j(1)] assms(1) by (simp add: queue_ok_def)
  then have g: "get_job (job_id j) js' = Some (claim_row now lease token j)"
    unfolding j(5) by (simp add: get_job_update claim_row_def)
  have o: "get_job i js' = get_job i js" if "i \<noteq> job_id j" for i
    unfolding j(5) using that get_job_Some [of i js] by (simp add: get_job_update claim_row_def split: option.split) (cases "get_job i js", auto)
  have "cj_id c = job_id j" "cj_attempts c = attempts j + 1" "cj_token c = token"
    by (simp_all add: j(4) claim_of_def claim_row_def)
  moreover have "\<forall>k \<in> set js. claimable now k \<and> job_id k \<notin> set locked \<longrightarrow>
      priority j < priority k \<or> (priority j = priority k \<and> available_at j \<le> available_at k)"
    using j(6) by (auto simp: less_eq_prod_def)
  ultimately have "\<exists>j \<in> set js. claimable now j \<and> job_id j \<notin> set locked \<and> cj_id c = job_id j
          \<and> cj_attempts c = attempts j + 1 \<and> cj_token c = token
          \<and> (\<forall>k \<in> set js. claimable now k \<and> job_id k \<notin> set locked \<longrightarrow>
                priority j < priority k \<or> (priority j = priority k \<and> available_at j \<le> available_at k))
          \<and> get_job (job_id j) js' = Some (claim_row now lease token j)
          \<and> (\<forall>i. i \<noteq> job_id j \<longrightarrow> get_job i js' = get_job i js)"
    using j(1-3) g o by blast
  then show ?thesis using Some j(1-3) by auto
qed

theorem claim_serves_the_queue_witness:
  "fst (claim_job 0 (seconds 900) 11 [] [sample_job]) \<noteq> None"
proof -
  have "queue_ok \<lparr>q_jobs = [sample_job], q_issued = []\<rparr>"
    by (simp add: queue_ok_def row_ok_def lease_coherent_def context_ok_def sample_job_def)
  from claim_serves_the_queue [OF this, of 0 "seconds 900" 11 "[]"] show ?thesis
    by (metis (no_types, lifting) claimable_def due_def empty_iff empty_set job.select_convs(10,11,12,13) less_numeral_extra(1) list.set_intros(1)
        order_refl prod.collapse sample_job_def)
qed

end
