(* ===== verification/Database.thy ===== *)
theory Database
  imports Stages JobQueue
begin

section \<open>The tables of a delivery and the provider fence\<close>

text \<open>
  The database as the settlement code sees it: jobs, runs, outbound slots (an
  \<open>email_messages\<close> row joined with its frozen \<open>outbound_email_snapshots\<close> row), provider
  handoffs, the ledger of delivery attempts and the employees. A transaction is a function of
  the database: it returns a new one, or raises and leaves the old one in place. The second
  half is \<open>app/db/repo/outbound_handoffs.py\<close>, the fence around one provider call.
\<close>

subsection \<open>Tables\<close>

datatype purpose = PurposeClarification | PurposeFieldRegression | PurposeConfirmation

datatype send_state = Reserved | MailSent | SendFailed

text \<open>The frozen envelope of \<open>outbound_email_snapshots\<close> with its attachments in order.\<close>

record envelope =
  en_from :: string
  en_to :: string
  en_reply_to :: "string option"
  en_in_reply_to :: "string option"
  en_references :: "string option"
  en_subject :: string
  en_body :: string
  en_attachments :: "(string \<times> 8 word list) list"

record outbound =
  ob_email :: uuid
  ob_run :: uuid
  ob_snapshot :: uuid
  ob_purpose :: purpose
  ob_round :: nat
  ob_epoch :: nat
  ob_state :: send_state
  ob_reserved_at :: instant
  ob_message_id :: string
  ob_envelope :: envelope
  ob_acknowledged :: "instant option"

datatype release_reason = ReleaseRetry | ReleaseFinalized | ReleaseReview

record handoff =
  ho_id :: uuid
  ho_run :: uuid
  ho_email :: uuid
  ho_snapshot :: uuid
  ho_job :: uuid
  ho_epoch :: nat
  ho_token :: uuid
  ho_owner_until :: instant
  ho_authorized_at :: instant
  ho_not_after :: instant
  ho_released :: "(instant \<times> release_reason) option"

datatype attempt_state = AttemptRetryScheduled | AttemptSent | AttemptNeedsOperator

text \<open>The other half of \<open>email_messages\<close>: rows that came in.\<close>

record inbound =
  in_id :: uuid
  in_run :: "uuid option"
  in_message_id :: string
  in_reply_to :: "string option"
  in_references :: "string option"
  in_subject :: "string option"
  in_from :: string
  in_to :: string
  in_body :: string
  in_epoch :: nat
  in_consumed :: "nat option"

text \<open>A row of \<open>operator_resume_resolutions\<close> with its rows of \<open>operator_resume_overrides\<close>:
  the employee a submitted name stands for, and whether to remember it.\<close>

record resolution =
  rs_id :: uuid
  rs_run :: uuid
  rs_authoritative :: bool
  rs_superseded :: "uuid option"
  rs_mapping :: "(string \<times> uuid \<times> bool) list"

text \<open>A received webhook; the payload is the JSON text.\<close>

record event =
  ev_id :: uuid
  ev_external :: string
  ev_payload :: string
  ev_received_at :: instant

record db =
  db_jobs :: "job list"
  db_runs :: "payroll_run list"
  db_outbound :: "outbound list"
  db_handoffs :: "handoff list"
  db_deliveries :: "(uuid \<times> attempt_state \<times> string) list"
  db_staff :: "employee list"
  db_inbox :: "inbound list"
  db_businesses :: "(uuid \<times> string) list"
  db_bindings :: "(string \<times> uuid) list"
  db_resolutions :: "resolution list"
  db_events :: "event list"

definition empty_db :: db where
  "empty_db = \<lparr>db_jobs = [], db_runs = [], db_outbound = [], db_handoffs = [], db_deliveries = [], db_staff = [],
     db_inbox = [], db_businesses = [], db_bindings = [], db_resolutions = [], db_events = []\<rparr>"

definition sample_envelope :: envelope where
  "sample_envelope = \<lparr>en_from = ''pay@x'', en_to = ''client@y'', en_reply_to = None, en_in_reply_to = None,
     en_references = None, en_subject = ''Payroll'', en_body = ''Hello'', en_attachments = []\<rparr>"

definition load_run :: "uuid \<Rightarrow> db \<Rightarrow> payroll_run option" where
  "load_run i d = first_match (\<lambda>r. run_id r = i) (db_runs d)"

definition update_run :: "uuid \<Rightarrow> (payroll_run \<Rightarrow> payroll_run) \<Rightarrow> db \<Rightarrow> db" where
  "update_run i f d = d\<lparr>db_runs := update_rows (\<lambda>r. run_id r = i) f (db_runs d)\<rparr>"

text \<open>\<open>UPDATE ... RETURNING id\<close>: whether a row matched, and the table after it.\<close>

definition cas_run :: "uuid \<Rightarrow> run_status \<Rightarrow> (payroll_run \<Rightarrow> payroll_run) \<Rightarrow> db \<Rightarrow> bool \<times> db" where
  "cas_run i s f d =
     (list_ex (\<lambda>r. run_id r = i \<and> status r = s) (db_runs d),
      d\<lparr>db_runs := update_rows (\<lambda>r. run_id r = i \<and> status r = s) f (db_runs d)\<rparr>)"

definition cas_job :: "uuid \<Rightarrow> uuid \<Rightarrow> (job \<Rightarrow> job) \<Rightarrow> db \<Rightarrow> bool \<times> db" where
  "cas_job i t f d = (list_ex (held i t) (db_jobs d), d\<lparr>db_jobs := update_rows (held i t) f (db_jobs d)\<rparr>)"

text \<open>\<open>if row is None: raise RuntimeError\<close>.\<close>

definition must :: "bool \<times> db \<Rightarrow> db res" where
  "must r = guard_res (fst r) RuntimeError (snd r)"

subsection \<open>Authorizing one provider call\<close>

record authorization =
  au_handoff :: uuid
  au_run :: uuid
  au_email :: uuid
  au_snapshot :: uuid
  au_job :: uuid
  au_token :: uuid
  au_epoch :: nat
  au_frozen :: "outbound option"
  au_not_after :: instant

datatype refusal = RefusedInvalidContext | RefusedWindowClosed | RefusedForeign | RefusedUnexpired

datatype handoff_outcome =
    Authorized authorization
  | RecordOnly uuid
  | Refused refusal "uuid option"

definition locked_send_job :: "claim \<Rightarrow> job list \<Rightarrow> (job_kind \<times> uuid option \<times> uuid option \<times> instant) option res" where
  "locked_send_job c js =
     (case first_match (held (cj_id c) (cj_token c)) js of
        None \<Rightarrow> Inr None
      | Some j \<Rightarrow>
          (case leased_until j of
             None \<Rightarrow> Inl RuntimeError
           | Some u \<Rightarrow> Inr (Some (job_kind_of j, job_run_id j, job_email_id j, u))))"

definition lock_frozen_snapshot :: "uuid \<Rightarrow> uuid \<Rightarrow> db \<Rightarrow> outbound option" where
  "lock_frozen_snapshot run email d = first_match (\<lambda>ob. ob_email ob = email \<and> ob_run ob = run) (db_outbound d)"

definition replay_window :: int where
  "replay_window = seconds (20 * 3600)"

definition replay_window_open :: "instant \<Rightarrow> outbound \<Rightarrow> bool" where
  "replay_window_open now ob \<longleftrightarrow> now < ob_reserved_at ob + replay_window"

definition expected_run_status :: "purpose \<Rightarrow> run_status" where
  "expected_run_status p = (if p = PurposeConfirmation then APPROVED else AWAITING_REPLY)"

definition active_handoff_of :: "uuid \<Rightarrow> handoff list \<Rightarrow> handoff option" where
  "active_handoff_of run hs = first_match (\<lambda>h. ho_run h = run \<and> ho_released h = None) hs"

definition authorization_for :: "uuid \<Rightarrow> claim \<Rightarrow> uuid \<Rightarrow> uuid \<Rightarrow> outbound \<Rightarrow> instant \<Rightarrow> authorization" where
  "authorization_for h c run email ob deadline =
     \<lparr>au_handoff = h, au_run = run, au_email = email, au_snapshot = ob_snapshot ob, au_job = cj_id c,
      au_token = cj_token c, au_epoch = ob_epoch ob, au_frozen = Some ob, au_not_after = deadline\<rparr>"

definition new_handoff :: "instant \<Rightarrow> uuid \<Rightarrow> claim \<Rightarrow> uuid \<Rightarrow> uuid \<Rightarrow> outbound \<Rightarrow> nat \<Rightarrow> instant \<Rightarrow> handoff" where
  "new_handoff now hid c run email ob epoch until =
     \<lparr>ho_id = hid, ho_run = run, ho_email = email, ho_snapshot = ob_snapshot ob, ho_job = cj_id c, ho_epoch = epoch,
      ho_token = cj_token c, ho_owner_until = until, ho_authorized_at = now,
      ho_not_after = ob_reserved_at ob + replay_window, ho_released = None\<rparr>"

text \<open>The handoff of this very slot, job and generation, else a foreign one.\<close>

definition same_generation :: "claim \<Rightarrow> uuid \<Rightarrow> uuid \<Rightarrow> outbound \<Rightarrow> nat \<Rightarrow> handoff \<Rightarrow> bool" where
  "same_generation c run email ob epoch h \<longleftrightarrow>
     ho_run h = run \<and> ho_email h = email \<and> ho_snapshot h = ob_snapshot ob \<and> ho_job h = cj_id c \<and> ho_epoch h = epoch"

definition adopt_row :: "claim \<Rightarrow> instant \<Rightarrow> handoff \<Rightarrow> handoff" where
  "adopt_row c until h = h\<lparr>ho_token := cj_token c, ho_owner_until := until\<rparr>"

definition grant_handoff ::
  "instant \<Rightarrow> uuid \<Rightarrow> claim \<Rightarrow> uuid \<Rightarrow> uuid \<Rightarrow> outbound \<Rightarrow> nat \<Rightarrow> instant \<Rightarrow> db \<Rightarrow> handoff_outcome \<times> db" where
  "grant_handoff now hid c run email ob epoch until d =
     (case active_handoff_of run (db_handoffs d) of
        None \<Rightarrow>
          (let h = new_handoff now hid c run email ob epoch until
           in (Authorized (authorization_for hid c run email ob (ho_not_after h)), d\<lparr>db_handoffs := db_handoffs d @ [h]\<rparr>))
      | Some h \<Rightarrow>
          if \<not> same_generation c run email ob epoch h then (Refused RefusedForeign (Some (ho_id h)), d)
          else if ho_token h = cj_token c then (Authorized (authorization_for (ho_id h) c run email ob (ho_not_after h)), d)
          else if \<not> ho_owner_until h < now then (Refused RefusedUnexpired (Some (ho_id h)), d)
          else (Authorized (authorization_for (ho_id h) c run email ob (ho_not_after h)),
                d\<lparr>db_handoffs := update_rows (\<lambda>g. ho_id g = ho_id h \<and> ho_released g = None) (adopt_row c until) (db_handoffs d)\<rparr>))"

definition authorize_outbound_provider_handoff :: "instant \<Rightarrow> uuid \<Rightarrow> claim \<Rightarrow> db \<Rightarrow> (handoff_outcome \<times> db) res" where
  "authorize_outbound_provider_handoff now hid c d =
     bind_res (locked_send_job c (db_jobs d)) (\<lambda>locked.
       Inr (case locked of
          None \<Rightarrow> (Refused RefusedInvalidContext None, d)
        | Some (kind, srun, semail, until) \<Rightarrow>
            (case (srun, semail) of
               (Some run, Some email) \<Rightarrow>
                 if kind \<noteq> SendOutbound \<or> cj_kind c \<noteq> SendOutbound \<or> cj_run_id c \<noteq> Some run \<or> cj_email_id c \<noteq> Some email
                 then (Refused RefusedInvalidContext None, d)
                 else (case lock_frozen_snapshot run email d of
                         None \<Rightarrow> (Refused RefusedInvalidContext None, d)
                       | Some ob \<Rightarrow>
                           if ob_state ob \<noteq> Reserved then (Refused RefusedInvalidContext None, d)
                           else (case load_run run d of
                                   None \<Rightarrow> (Refused RefusedInvalidContext None, d)
                                 | Some r \<Rightarrow>
                                     if record_only r then (RecordOnly run, d)
                                     else if status r \<noteq> expected_run_status (ob_purpose ob) \<or> ob_epoch ob \<noteq> reply_epoch r
                                       then (Refused RefusedInvalidContext None, d)
                                     else if \<not> replay_window_open now ob then (Refused RefusedWindowClosed None, d)
                                     else grant_handoff now hid c run email ob (reply_epoch r) until d))
             | _ \<Rightarrow> (Refused RefusedInvalidContext None, d))))"

definition adopt_outbound_provider_handoff :: "instant \<Rightarrow> uuid \<Rightarrow> claim \<Rightarrow> db \<Rightarrow> (handoff_outcome \<times> db) res" where
  "adopt_outbound_provider_handoff now hid c d =
     bind_res (authorize_outbound_provider_handoff now hid c d) (\<lambda>(out, d').
       Inr (case out of RecordOnly r \<Rightarrow> (Refused RefusedInvalidContext None, d') | _ \<Rightarrow> (out, d')))"

subsection \<open>Releasing the fence\<close>

definition owns_handoff :: "authorization \<Rightarrow> handoff \<Rightarrow> bool" where
  "owns_handoff a h \<longleftrightarrow>
     ho_id h = au_handoff a \<and> ho_run h = au_run a \<and> ho_email h = au_email a \<and> ho_snapshot h = au_snapshot a
     \<and> ho_job h = au_job a \<and> ho_epoch h = au_epoch a \<and> ho_token h = au_token a \<and> ho_released h = None"

definition release_exact_handoff :: "instant \<Rightarrow> release_reason \<Rightarrow> authorization \<Rightarrow> db \<Rightarrow> bool \<times> db" where
  "release_exact_handoff now why a d =
     (list_ex (owns_handoff a) (db_handoffs d),
      d\<lparr>db_handoffs := update_rows (owns_handoff a) (\<lambda>h. h\<lparr>ho_released := Some (now, why)\<rparr>) (db_handoffs d)\<rparr>)"

definition finalize_handoff :: "instant \<Rightarrow> authorization \<Rightarrow> db \<Rightarrow> bool \<times> db" where
  "finalize_handoff now = release_exact_handoff now ReleaseFinalized"

definition release_handoff_for_retry :: "instant \<Rightarrow> authorization \<Rightarrow> db \<Rightarrow> bool \<times> db" where
  "release_handoff_for_retry now = release_exact_handoff now ReleaseRetry"

definition release_handoff_to_review :: "instant \<Rightarrow> authorization \<Rightarrow> db \<Rightarrow> bool \<times> db" where
  "release_handoff_to_review now = release_exact_handoff now ReleaseReview"

definition resolve_handoff_for_review :: "instant \<Rightarrow> uuid \<Rightarrow> uuid \<Rightarrow> uuid \<Rightarrow> release_reason \<Rightarrow> db \<Rightarrow> (bool \<times> db) res" where
  "resolve_handoff_for_review now run email snapshot why d =
     (if why \<notin> {ReleaseFinalized, ReleaseReview} then Inl ValueError
      else Inr (case active_handoff_of run (db_handoffs d) of
                  None \<Rightarrow> (True, d)
                | Some h \<Rightarrow>
                    if ho_email h \<noteq> email \<or> ho_snapshot h \<noteq> snapshot then (False, d)
                    else (True, d\<lparr>db_handoffs := update_rows
                            (\<lambda>g. ho_id g = ho_id h \<and> ho_run g = run \<and> ho_email g = email \<and> ho_snapshot g = snapshot \<and> ho_released g = None)
                            (\<lambda>g. g\<lparr>ho_released := Some (now, why)\<rparr>) (db_handoffs d)\<rparr>)))"

definition assert_no_active_handoff :: "uuid \<Rightarrow> db \<Rightarrow> unit res" where
  "assert_no_active_handoff run d = guard_res (active_handoff_of run (db_handoffs d) = None) RuntimeError ()"

definition lock_current_handoff :: "claim \<Rightarrow> uuid \<Rightarrow> uuid \<Rightarrow> uuid \<Rightarrow> nat \<Rightarrow> db \<Rightarrow> authorization option" where
  "lock_current_handoff c run email snapshot epoch d =
     map_option (\<lambda>h. \<lparr>au_handoff = ho_id h, au_run = run, au_email = email, au_snapshot = snapshot, au_job = cj_id c,
        au_token = cj_token c, au_epoch = epoch, au_frozen = None, au_not_after = ho_not_after h\<rparr>)
       (first_match (\<lambda>h. ho_run h = run \<and> ho_email h = email \<and> ho_snapshot h = snapshot \<and> ho_job h = cj_id c
          \<and> ho_epoch h = epoch \<and> ho_token h = cj_token c \<and> ho_released h = None) (db_handoffs d))"

subsection \<open>One active handoff per run\<close>

text \<open>The partial unique index of the schema, the primary key and the deadline CHECK.\<close>

definition handoffs_ok :: "handoff list \<Rightarrow> bool" where
  "handoffs_ok hs \<longleftrightarrow> distinct (map ho_id hs) \<and> distinct (map ho_run (filter (\<lambda>h. ho_released h = None) hs))
     \<and> (\<forall>h \<in> set hs. ho_authorized_at h < ho_not_after h)"

lemma active_handoff_None: "active_handoff_of run hs = None \<longleftrightarrow> run \<notin> ho_run ` set (filter (\<lambda>h. ho_released h = None) hs)"
  unfolding active_handoff_of_def first_match_None set_filter by blast

lemma active_handoff_Some: "active_handoff_of run hs = Some h \<Longrightarrow> h \<in> set hs \<and> ho_run h = run \<and> ho_released h = None"
  unfolding active_handoff_of_def by (drule first_match_SomeD) simp

lemma handoffs_ok_unique:
  assumes "handoffs_ok hs" "h \<in> set hs" "g \<in> set hs" "ho_released h = None" "ho_released g = None" "ho_run h = ho_run g"
  shows "h = g"
  using distinct_key [of ho_run "filter (\<lambda>h. ho_released h = None) hs" h g] assms by (simp add: handoffs_ok_def)

lemma active_handoff_member:
  assumes "handoffs_ok hs" "h \<in> set hs" "ho_released h = None" "ho_run h = run"
  shows "active_handoff_of run hs = Some h"
proof (cases "active_handoff_of run hs")
  case None
  with assms(2-4) show ?thesis unfolding active_handoff_None by auto
next
  case (Some g)
  note g = active_handoff_Some [OF Some]
  have "g = h" by (rule handoffs_ok_unique [OF assms(1)]) (use g assms(2-4) in auto)
  with Some show ?thesis by simp
qed

lemma handoffs_ok_append:
  assumes "handoffs_ok hs" "active_handoff_of (ho_run h) hs = None" "ho_id h \<notin> ho_id ` set hs" "ho_authorized_at h < ho_not_after h"
  shows "handoffs_ok (hs @ [h])"
  using assms by (auto simp: handoffs_ok_def active_handoff_None)

text \<open>Changing a row keeps the table in order when it keeps the keys and reopens nothing.\<close>

lemma handoffs_ok_update:
  assumes "handoffs_ok hs" "\<And>h. ho_id (f h) = ho_id h \<and> ho_run (f h) = ho_run h \<and> ho_authorized_at (f h) = ho_authorized_at h \<and> ho_not_after (f h) = ho_not_after h"
    "\<And>h. ho_released (f h) = None \<Longrightarrow> ho_released h = None"
  shows "handoffs_ok (update_rows p f hs)"
proof -
  have ids: "map ho_id (update_rows p f hs) = map ho_id hs" by (rule map_update_rows) (simp add: assms(2))
  have sub: "\<exists>ys. map ho_run (filter (\<lambda>h. ho_released h = None) (update_rows p f hs)) = nths (map ho_run (filter (\<lambda>h. ho_released h = None) hs)) ys"
    if "True" for hs
  proof (induction hs)
    case Nil
    then show ?case by (simp add: update_rows_def)
  next
    case (Cons h hs)
    then obtain ys where ys: "map ho_run (filter (\<lambda>h. ho_released h = None) (update_rows p f hs)) = nths (map ho_run (filter (\<lambda>h. ho_released h = None) hs)) ys" by blast
    have e: "update_rows p f (h # hs) = (if p h then f h else h) # update_rows p f hs" by (simp add: update_rows_def)
    consider "ho_released h \<noteq> None" | "ho_released h = None" "ho_released (if p h then f h else h) = None"
      | "ho_released h = None" "ho_released (if p h then f h else h) \<noteq> None" by blast
    then show ?case
    proof cases
      case 1
      then have "ho_released (if p h then f h else h) \<noteq> None" using assms(3) [of h] by (cases "p h") (simp_all only: if_True if_False, blast+)
      with 1 ys show ?thesis unfolding e by auto
    next
      case 2
      have "ho_run (if p h then f h else h) = ho_run h" using assms(2) by simp
      with 2 ys show ?thesis unfolding e by (intro exI [of _ "insert 0 (Suc ` ys)"]) (simp add: nths_Cons image_iff)
    next
      case 3
      with ys show ?thesis unfolding e by (intro exI [of _ "Suc ` ys"]) (simp add: nths_Cons image_iff)
    qed
  qed
  from sub obtain ys where "map ho_run (filter (\<lambda>h. ho_released h = None) (update_rows p f hs)) = nths (map ho_run (filter (\<lambda>h. ho_released h = None) hs)) ys" by blast
  moreover have "\<forall>h \<in> set (update_rows p f hs). ho_authorized_at h < ho_not_after h"
    using assms(1,2) by (auto simp: set_update_rows handoffs_ok_def)
  ultimately show ?thesis using assms(1) ids by (simp add: handoffs_ok_def distinct_nthsI)
qed

subsection \<open>Who may call the provider\<close>

lemma grant_authorized:
  assumes "grant_handoff now hid c run email ob epoch until d = (Authorized a, d')" "handoffs_ok (db_handoffs d)"
    "hid \<notin> ho_id ` set (db_handoffs d)" "replay_window_open now ob" "epoch = ob_epoch ob"
  shows "handoffs_ok (db_handoffs d') \<and> (\<exists>h. active_handoff_of run (db_handoffs d') = Some h \<and> owns_handoff a h)
    \<and> au_run a = run \<and> au_token a = cj_token c \<and> au_job a = cj_id c
    \<and> (\<forall>h \<in> set (db_handoffs d). ho_run h = run \<and> ho_released h = None \<longrightarrow> ho_job h = cj_id c
         \<and> (ho_token h = cj_token c \<or> ho_owner_until h < now))"
proof (cases "active_handoff_of run (db_handoffs d)")
  case None
  let ?h = "new_handoff now hid c run email ob epoch until"
  have a: "a = authorization_for hid c run email ob (ho_not_after ?h)" and d': "d' = d\<lparr>db_handoffs := db_handoffs d @ [?h]\<rparr>"
    using assms(1) None by (auto simp: grant_handoff_def Let_def)
  have "handoffs_ok (db_handoffs d @ [?h])"
    using assms(2-4) None by (intro handoffs_ok_append) (simp_all add: new_handoff_def replay_window_open_def)
  moreover have "active_handoff_of run (db_handoffs d @ [?h]) = Some ?h"
    using None unfolding active_handoff_of_def find_append by (simp add: new_handoff_def)
  moreover have "owns_handoff a ?h"
    by (simp add: a owns_handoff_def authorization_for_def new_handoff_def assms(5))
  moreover have "ho_run h \<noteq> run" if "h \<in> set (db_handoffs d)" "ho_released h = None" for h
    using None that unfolding active_handoff_None by auto
  ultimately show ?thesis by (auto simp: d' a authorization_for_def)
next
  case (Some h)
  note h = active_handoff_Some [OF Some]
  have gen: "same_generation c run email ob epoch h" using assms(1) Some by (auto simp: grant_handoff_def split: if_splits)
  have only: "g = h" if "g \<in> set (db_handoffs d)" "ho_run g = run" "ho_released g = None" for g
    by (rule handoffs_ok_unique [OF assms(2)]) (use h that in auto)
  have a: "a = authorization_for (ho_id h) c run email ob (ho_not_after h)" and
    tok: "ho_token h = cj_token c \<or> ho_owner_until h < now"
    using assms(1) Some by (auto simp: grant_handoff_def split: if_splits)
  have job: "ho_job h = cj_id c" using gen by (simp add: same_generation_def)
  have others: "\<forall>g \<in> set (db_handoffs d). ho_run g = run \<and> ho_released g = None \<longrightarrow> ho_job g = cj_id c
      \<and> (ho_token g = cj_token c \<or> ho_owner_until g < now)"
  proof (intro ballI impI)
    fix g assume "g \<in> set (db_handoffs d)" "ho_run g = run \<and> ho_released g = None"
    then have "g = h" using only by blast
    then show "ho_job g = cj_id c \<and> (ho_token g = cj_token c \<or> ho_owner_until g < now)" using job tok by simp
  qed
  have keys: "au_run a = run" "au_token a = cj_token c" "au_job a = cj_id c" by (simp_all add: a authorization_for_def)
  consider "ho_token h = cj_token c" "d' = d"
    | "d' = d\<lparr>db_handoffs := update_rows (\<lambda>g. ho_id g = ho_id h \<and> ho_released g = None) (adopt_row c until) (db_handoffs d)\<rparr>"
    using assms(1) Some by (auto simp: grant_handoff_def split: if_splits)
  then show ?thesis
  proof cases
    case 1
    then have "owns_handoff a h" using h gen by (simp add: a owns_handoff_def authorization_for_def same_generation_def assms(5))
    with Some have "\<exists>h. active_handoff_of run (db_handoffs d') = Some h \<and> owns_handoff a h" unfolding 1(2) by blast
    with assms(2) others keys show ?thesis unfolding 1(2) by blast
  next
    case 2
    let ?hs = "update_rows (\<lambda>g. ho_id g = ho_id h \<and> ho_released g = None) (adopt_row c until) (db_handoffs d)"
    have ok: "handoffs_ok ?hs" using assms(2) by (rule handoffs_ok_update) (simp_all add: adopt_row_def)
    have mem: "adopt_row c until h \<in> set ?hs" using h by (intro update_rows_hit) simp_all
    have g: "active_handoff_of run ?hs = Some (adopt_row c until h)"
      by (rule active_handoff_member [OF ok mem]) (use h in \<open>simp_all add: adopt_row_def\<close>)
    have "owns_handoff a (adopt_row c until h)"
      using h gen by (simp add: a owns_handoff_def authorization_for_def same_generation_def adopt_row_def assms(5))
    with g have "\<exists>h. active_handoff_of run ?hs = Some h \<and> owns_handoff a h" by blast
    then show ?thesis using ok others keys 2 by simp
  qed
qed

lemma authorize_Authorized:
  assumes "authorize_outbound_provider_handoff now hid c d = Inr (Authorized a, d')"
  obtains run email ob r until where
    "grant_handoff now hid c run email ob (reply_epoch r) until d = (Authorized a, d')" "replay_window_open now ob"
    "load_run run d = Some r" "status r = expected_run_status (ob_purpose ob)" "\<not> record_only r" "ob_epoch ob = reply_epoch r"
    "lock_frozen_snapshot run email d = Some ob" "ob_state ob = Reserved" "list_ex (held (cj_id c) (cj_token c)) (db_jobs d)"
proof -
  obtain locked where l: "locked_send_job c (db_jobs d) = Inr locked" and
    res: "(case locked of
          None \<Rightarrow> (Refused RefusedInvalidContext None, d)
        | Some (kind, srun, semail, until) \<Rightarrow>
            (case (srun, semail) of
               (Some run, Some email) \<Rightarrow>
                 if kind \<noteq> SendOutbound \<or> cj_kind c \<noteq> SendOutbound \<or> cj_run_id c \<noteq> Some run \<or> cj_email_id c \<noteq> Some email
                 then (Refused RefusedInvalidContext None, d)
                 else (case lock_frozen_snapshot run email d of
                         None \<Rightarrow> (Refused RefusedInvalidContext None, d)
                       | Some ob \<Rightarrow>
                           if ob_state ob \<noteq> Reserved then (Refused RefusedInvalidContext None, d)
                           else (case load_run run d of
                                   None \<Rightarrow> (Refused RefusedInvalidContext None, d)
                                 | Some r \<Rightarrow>
                                     if record_only r then (RecordOnly run, d)
                                     else if status r \<noteq> expected_run_status (ob_purpose ob) \<or> ob_epoch ob \<noteq> reply_epoch r
                                       then (Refused RefusedInvalidContext None, d)
                                     else if \<not> replay_window_open now ob then (Refused RefusedWindowClosed None, d)
                                     else grant_handoff now hid c run email ob (reply_epoch r) until d))
             | _ \<Rightarrow> (Refused RefusedInvalidContext None, d))) = (Authorized a, d')"
    using assms by (auto simp: authorize_outbound_provider_handoff_def res_simps)
  obtain kind run email until where k: "locked = Some (kind, Some run, Some email, until)"
    using res by (auto split: option.splits prod.splits)
  then have "first_match (held (cj_id c) (cj_token c)) (db_jobs d) \<noteq> None"
    using l by (auto simp: locked_send_job_def split: option.splits)
  then have ex: "list_ex (held (cj_id c) (cj_token c)) (db_jobs d)" by (auto simp: first_match_None list_ex_iff)
  from res k obtain ob r where "lock_frozen_snapshot run email d = Some ob" "ob_state ob = Reserved" "load_run run d = Some r"
    "\<not> record_only r" "status r = expected_run_status (ob_purpose ob)" "ob_epoch ob = reply_epoch r" "replay_window_open now ob"
    "grant_handoff now hid c run email ob (reply_epoch r) until d = (Authorized a, d')"
    by (auto split: if_splits option.splits)
  with that ex show ?thesis by blast
qed

end
