(* ===== verification/Settlement.thy ===== *)
theory Settlement
  imports Database
begin

section \<open>Settlement\<close>

text \<open>
  \<open>app/db/repo/job_settlement.py\<close>: the transactions that settle a leased job together with
  its run. Each definition is one function of the module, in its order, with its early
  returns; a \<open>RuntimeError\<close> on a row that lost its predicate is the branch \<open>Inl\<close>, after which
  the database is the one before.
\<close>

subsection \<open>Vocabulary\<close>

datatype settlement =
    SettledDone | SettledRetried | SettledDead | SettledFenced | SettledLostLease | SettledInvalid | SettledReaped

definition FINAL_LEASE_ERROR_STATUSES :: "run_status list" where
  "FINAL_LEASE_ERROR_STATUSES = [RECEIVED, EXTRACTING, COMPUTED, APPROVED]"

definition FINAL_LEASE_PRESERVE_STATUSES :: "run_status list" where
  "FINAL_LEASE_PRESERVE_STATUSES = [SENT, AWAITING_REPLY, AWAITING_APPROVAL, NEEDS_OPERATOR, RECONCILED, REJECTED, ERROR]"

definition REPLAYABLE_DELIVERY_REASONS :: "pipeline_reason list" where
  "REPLAYABLE_DELIVERY_REASONS = [DeliveryTimeout, DeliveryConnectionFailure, DeliveryRateLimit, DeliveryServerFailure]"

fun nat_str :: "nat \<Rightarrow> string" where
  "nat_str n = (if n < 10 then [char_of (48 + n)] else nat_str (n div 10) @ [char_of (48 + n mod 10)])"

declare nat_str.simps [simp del]

definition int_str :: "int \<Rightarrow> string" where
  "int_str i = (if i < 0 then ''-'' @ nat_str (nat (- i)) else nat_str (nat i))"

definition bounded_detail :: "pipeline_result \<Rightarrow> (int \<times> int) option \<Rightarrow> string" where
  "bounded_detail r counts =
     take 200 (case counts of
        None \<Rightarrow> diagnostic_code r
      | Some (a, m) \<Rightarrow> diagnostic_code r @ '';attempts='' @ int_str a @ ''/'' @ int_str m)"

definition locked_job :: "claim \<Rightarrow> db \<Rightarrow> job option" where
  "locked_job c d = first_match (held (cj_id c) (cj_token c)) (db_jobs d)"

text \<open>The row a settlement writes: the state, the diagnostic if any, the lease gone.\<close>

definition finish_row :: "instant \<Rightarrow> job_state \<Rightarrow> string option \<Rightarrow> job \<Rightarrow> job" where
  "finish_row now st err j =
     (case err of None \<Rightarrow> settle_row now st j | Some e \<Rightarrow> (settle_row now st j)\<lparr>last_error := Some e\<rparr>)"

definition retire_invalid_outbound_lease :: "instant \<Rightarrow> uuid \<Rightarrow> uuid \<Rightarrow> job_state \<Rightarrow> db \<Rightarrow> db res" where
  "retire_invalid_outbound_lease now i t target d =
     must (cas_job i t (finish_row now target (Some ''delivery:invalid_context'')) d)"

subsection \<open>The delivery ledger\<close>

definition delivery_failure_category :: "pipeline_reason \<Rightarrow> string" where
  "delivery_failure_category r =
     (if r \<in> {DeliveryTimeout, DeliveryConnectionFailure} then ''transport''
      else if r = DeliveryServerFailure then ''provider_5xx''
      else if r = DeliveryRateLimit then ''rate_limited''
      else if r = DeliveryIdempotencyPayloadMismatch then ''payload_mismatch''
      else if r \<in> {DeliveryAuthenticationFailure, DeliveryAuthorizationFailure} then ''authorization''
      else if r = DeliveryValidationFailure then ''validation''
      else if r = DeliveryConfigurationFailure then ''configuration''
      else if r = DeliveryAuthorizationExpired then ''authorization_expired''
      else ''unknown'')"

definition all_producer_failure_categories :: "string list" where
  "all_producer_failure_categories = remdups (map delivery_failure_category all_reasons)"

definition append_delivery_attempt :: "uuid \<Rightarrow> attempt_state \<Rightarrow> string \<Rightarrow> db \<Rightarrow> db" where
  "append_delivery_attempt snapshot st category d = d\<lparr>db_deliveries := db_deliveries d @ [(snapshot, st, category)]\<rparr>"

definition lock_outbound_reservation :: "uuid \<Rightarrow> uuid \<Rightarrow> db \<Rightarrow> outbound option" where
  "lock_outbound_reservation run email d = first_match (\<lambda>ob. ob_email ob = email \<and> ob_run ob = run) (db_outbound d)"

definition mark_sent :: "uuid \<Rightarrow> uuid \<Rightarrow> db \<Rightarrow> bool \<times> db" where
  "mark_sent run email d =
     (let p = (\<lambda>ob. ob_email ob = email \<and> ob_run ob = run \<and> ob_state ob = Reserved)
      in (list_ex p (db_outbound d), d\<lparr>db_outbound := update_rows p (\<lambda>ob. ob\<lparr>ob_state := MailSent\<rparr>) (db_outbound d)\<rparr>))"

definition review_reason :: "purpose \<Rightarrow> string" where
  "review_reason p = (if p = PurposeConfirmation then ''DeliveryReview'' else ''ClarificationDeliveryReview'')"

definition to_review :: "purpose \<Rightarrow> string \<Rightarrow> payroll_run \<Rightarrow> payroll_run" where
  "to_review p category r =
     r\<lparr>status := NEEDS_OPERATOR, error_reason := Some (review_reason p), error_detail := Some (''delivery_review:'' @ category)\<rparr>"

definition settle_delivery_review ::
  "instant \<Rightarrow> claim \<Rightarrow> pipeline_result \<Rightarrow> uuid \<Rightarrow> outbound \<Rightarrow> run_status \<Rightarrow> db \<Rightarrow> (settlement \<times> db) res" where
  "settle_delivery_review now c result run ob expected d =
     (let category = delivery_failure_category (reason result)
      in bind_res (must (cas_run run expected (to_review (ob_purpose ob) category)
             (append_delivery_attempt (ob_snapshot ob) AttemptNeedsOperator category d))) (\<lambda>d1.
         bind_res (must (cas_job (cj_id c) (cj_token c) (finish_row now Done (Some (diagnostic_code result))) d1)) (\<lambda>d2.
         Inr (SettledDone, d2))))"

text \<open>The alias batch runs in a savepoint: an exception in it undoes the batch and nothing else.\<close>

definition complete_confirmation_after_send :: "unicode \<Rightarrow> uuid \<Rightarrow> db \<Rightarrow> db res" where
  "complete_confirmation_after_send u run d =
     (case load_run run d of
        None \<Rightarrow> Inl RuntimeError
      | Some r \<Rightarrow>
          bind_res (load_roster_for_business (business_id r) (db_staff d)) (\<lambda>ros.
            (let (staff, batch) = write_aliases u (business_id r)
                   (case alias_candidates r of None \<Rightarrow> [] | Some cs \<Rightarrow> cs) ros (db_staff d)
             in must (cas_run run SENT (set_status RECONCILED)
                  (case batch of Inl e \<Rightarrow> d | Inr x \<Rightarrow> d\<lparr>db_staff := staff\<rparr>)))))"

subsection \<open>Settling a delivery\<close>

text \<open>What follows an accepted mail: the slot, the run and the job, in this order.\<close>

definition mail_accepted :: "unicode \<Rightarrow> instant \<Rightarrow> claim \<Rightarrow> uuid \<Rightarrow> uuid \<Rightarrow> outbound \<Rightarrow> db \<Rightarrow> (settlement \<times> db) res" where
  "mail_accepted u now c run email ob d =
     bind_res (must (mark_sent run email d)) (\<lambda>d1.
     bind_res (if ob_purpose ob = PurposeConfirmation
               then bind_res (must (cas_run run APPROVED (set_status SENT) d1)) (complete_confirmation_after_send u run)
               else Inr d1) (\<lambda>d2.
     bind_res (must (cas_job (cj_id c) (cj_token c) (finish_row now Done None) d2)) (\<lambda>d3.
     Inr (SettledDone, d3))))"

definition settle_with_authority ::
  "unicode \<Rightarrow> instant \<Rightarrow> claim \<Rightarrow> pipeline_result \<Rightarrow> uuid \<Rightarrow> uuid \<Rightarrow> outbound \<Rightarrow> int \<Rightarrow> authorization \<Rightarrow> db \<Rightarrow> (settlement \<times> db) res" where
  "settle_with_authority u now c result run email ob tries a d =
     (if outcome result = Ok
      then bind_res (must (finalize_handoff now a d)) (\<lambda>d1.
             mail_accepted u now c run email ob (append_delivery_attempt (ob_snapshot ob) AttemptSent ''none'' d1))
      else
        bind_res (if outcome result = Retryable \<and> reason result \<in> set REPLAYABLE_DELIVERY_REASONS \<and> replay_window_open now ob
                  then next_delivery_attempt_at (ob_reserved_at ob) tries else Inr None) (\<lambda>next.
        case next of
          Some slot \<Rightarrow>
            bind_res (must (release_handoff_for_retry now a d)) (\<lambda>d1.
            bind_res (must (cas_job (cj_id c) (cj_token c)
                (\<lambda>j. (finish_row now Pending (Some (diagnostic_code result)) j)\<lparr>available_at := slot\<rparr>)
                (append_delivery_attempt (ob_snapshot ob) AttemptRetryScheduled (delivery_failure_category (reason result)) d1))) (\<lambda>d2.
            Inr (SettledRetried, d2)))
        | None \<Rightarrow>
            bind_res (must (release_handoff_to_review now a d)) (\<lambda>d1.
              settle_delivery_review now c result run ob (expected_run_status (ob_purpose ob)) d1)))"

definition pre_provider_expiry :: "instant \<Rightarrow> pipeline_result \<Rightarrow> outbound \<Rightarrow> payroll_run \<Rightarrow> bool" where
  "pre_provider_expiry now result ob r \<longleftrightarrow>
     outcome result = Terminal \<and> stage result = StageDelivery \<and> reason result = DeliveryAuthorizationExpired
     \<and> \<not> record_only r \<and> \<not> replay_window_open now ob"

text \<open>The context of a leased delivery job: its run, its slot and the run row, all in step.\<close>

definition delivery_context :: "job \<Rightarrow> claim \<Rightarrow> db \<Rightarrow> (uuid \<times> uuid \<times> outbound \<times> payroll_run) option" where
  "delivery_context j c d =
     (case (job_run_id j, cj_email_id c) of
        (Some run, Some email) \<Rightarrow>
          if job_kind_of j \<noteq> SendOutbound \<or> cj_kind c \<noteq> SendOutbound \<or> cj_run_id c \<noteq> Some run \<or> job_email_id j \<noteq> Some email
          then None
          else (case lock_outbound_reservation run email d of
                  None \<Rightarrow> None
                | Some ob \<Rightarrow>
                    if ob_state ob \<noteq> Reserved then None
                    else (case load_run run d of
                            None \<Rightarrow> None
                          | Some r \<Rightarrow>
                              if ob_epoch ob \<noteq> reply_epoch r \<or> status r \<noteq> expected_run_status (ob_purpose ob) then None
                              else Some (run, email, ob, r)))
      | _ \<Rightarrow> None)"

definition settle_outbound_delivery_job :: "unicode \<Rightarrow> instant \<Rightarrow> claim \<Rightarrow> pipeline_result \<Rightarrow> db \<Rightarrow> (settlement \<times> db) res" where
  "settle_outbound_delivery_job u now c result d =
     (let invalid = bind_res (retire_invalid_outbound_lease now (cj_id c) (cj_token c) Done d) (\<lambda>d1. Inr (SettledInvalid, d1))
      in case locked_job c d of
           None \<Rightarrow> Inr (SettledLostLease, d)
         | Some j \<Rightarrow>
             (case delivery_context j c d of
                None \<Rightarrow> invalid
              | Some (run, email, ob, r) \<Rightarrow>
                  if reason result = DeliveryRecordOnly
                  then (if \<not> record_only r then invalid else mail_accepted u now c run email ob d)
                  else if pre_provider_expiry now result ob r \<and> active_handoff_of run (db_handoffs d) = None
                  then settle_delivery_review now c result run ob (expected_run_status (ob_purpose ob)) d
                  else (case lock_current_handoff c run email (ob_snapshot ob) (ob_epoch ob) d of
                          None \<Rightarrow> invalid
                        | Some a \<Rightarrow> settle_with_authority u now c result run email ob (attempts j) a d)))"

subsection \<open>Settling an ingest or a pipeline job\<close>

definition settle_ingest_job :: "instant \<Rightarrow> claim \<Rightarrow> pipeline_result \<Rightarrow> job \<Rightarrow> int \<Rightarrow> db \<Rightarrow> (settlement \<times> db) res" where
  "settle_ingest_job now c result j backoff d =
     (let (target, out) =
            (if outcome result = Retryable \<and> attempts j < max_attempts j then (Pending, SettledRetried)
             else if outcome result = Retryable then (Dead, SettledDead) else (Done, SettledDone))
      in bind_res (must (cas_job (cj_id c) (cj_token c)
           (\<lambda>k. (finish_row now target (if outcome result = Ok then None else Some (diagnostic_code result)) k)
                  \<lparr>available_at := (if target = Pending then now + backoff else available_at k)\<rparr>) d)) (\<lambda>d1.
         Inr (out, d1)))"

definition fail_run :: "string \<Rightarrow> string \<Rightarrow> payroll_run \<Rightarrow> payroll_run" where
  "fail_run why detail r = r\<lparr>status := ERROR, error_reason := Some why, error_detail := Some detail\<rparr>"

definition set_run_error :: "uuid \<Rightarrow> string \<Rightarrow> string \<Rightarrow> run_status \<Rightarrow> db \<Rightarrow> bool \<times> db" where
  "set_run_error run why detail expected d = cas_run run expected (fail_run why detail) d"

definition rewind_run :: "uuid \<Rightarrow> db \<Rightarrow> bool \<times> db" where
  "rewind_run run d = cas_run run EXTRACTING (set_status RECEIVED) d"

definition existing_job_matches :: "string \<Rightarrow> job_kind \<Rightarrow> uuid \<Rightarrow> uuid option \<Rightarrow> uuid option \<Rightarrow> db \<Rightarrow> bool" where
  "existing_job_matches key kind run email resolution d =
     (case first_match (\<lambda>j. dedup_key j = key) (db_jobs d) of
        None \<Rightarrow> False
      | Some j \<Rightarrow> job_kind_of j = kind \<and> job_run_id j = Some run \<and> job_email_id j = email \<and> job_resolution_id j = resolution)"

definition run_generation :: "uuid \<Rightarrow> db \<Rightarrow> (run_status \<times> nat) option" where
  "run_generation run d = map_option (\<lambda>r. (status r, reply_epoch r)) (load_run run d)"

definition classified_retry_key :: "job_kind \<Rightarrow> uuid \<Rightarrow> nat \<Rightarrow> uuid option \<Rightarrow> string" where
  "classified_retry_key kind run epoch email =
     kind_value kind @ '':'' @ uuid_str run @ '':'' @ nat_str epoch @ (case email of None \<Rightarrow> [] | Some e \<Rightarrow> '':'' @ uuid_str e)"

definition retry_request :: "job_kind \<Rightarrow> string \<Rightarrow> uuid \<Rightarrow> uuid option \<Rightarrow> uuid option \<Rightarrow> delay_arg \<Rightarrow> pipeline_result \<Rightarrow> enqueue_request" where
  "retry_request kind key run email resolution delay result =
     \<lparr>eq_kind = kind, eq_dedup_key = key, eq_run_id = Some run, eq_email_id = email, eq_resolution_id = resolution,
      eq_event_id = None, eq_business_id = None, eq_max_attempts = None, eq_delay = delay,
      eq_last_error = Some (diagnostic_code result)\<rparr>"

text \<open>The rewind and the enqueue both retries share, once the generation is locked.\<close>

definition rewind_and_enqueue :: "instant \<Rightarrow> int \<Rightarrow> uuid \<Rightarrow> enqueue_request \<Rightarrow> uuid \<Rightarrow> run_status \<Rightarrow> db \<Rightarrow> (settlement \<times> db) res" where
  "rewind_and_enqueue now cfg new_id q run st d =
     (let matches = existing_job_matches (eq_dedup_key q) (eq_kind q) run (eq_email_id q) (eq_resolution_id q)
      in if st = RECEIVED then Inr (if matches d then SettledRetried else SettledFenced, d)
         else if st \<noteq> EXTRACTING \<or> \<not> fst (rewind_run run d) then Inr (SettledFenced, d)
         else (let d1 = snd (rewind_run run d)
               in bind_res (enqueue_job now cfg new_id q (db_jobs d1)) (\<lambda>(_, js).
                    let d2 = d1\<lparr>db_jobs := js\<rparr>
                    in guard_res (matches d2) RuntimeError (SettledRetried, d2))))"

definition enqueue_classified_retry ::
  "instant \<Rightarrow> int \<Rightarrow> uuid \<Rightarrow> uuid \<Rightarrow> pipeline_result \<Rightarrow> job_kind \<Rightarrow> uuid option \<Rightarrow> delay_arg \<Rightarrow> db \<Rightarrow> (settlement \<times> db) res" where
  "enqueue_classified_retry now cfg new_id run result kind email delay d =
     (if outcome result \<noteq> Retryable \<or> kind \<notin> {RunPipeline, ResumeReply} \<or> (kind = ResumeReply \<and> email = None)
         \<or> (kind = RunPipeline \<and> email \<noteq> None)
      then Inl ValueError
      else (case run_generation run d of
              None \<Rightarrow> Inr (SettledFenced, d)
            | Some (st, epoch) \<Rightarrow>
                rewind_and_enqueue now cfg new_id
                  (retry_request kind (classified_retry_key kind run epoch email) run email None delay result) run st d))"

definition settle_pipeline_job :: "instant \<Rightarrow> claim \<Rightarrow> pipeline_result \<Rightarrow> int \<Rightarrow> db \<Rightarrow> (settlement \<times> db) res" where
  "settle_pipeline_job now c result backoff d =
     (case locked_job c d of
        None \<Rightarrow> Inr (SettledFenced, d)
      | Some j \<Rightarrow>
          if job_kind_of j \<noteq> cj_kind c then Inr (SettledFenced, d)
          else if job_kind_of j = Ingest
          then (if job_run_id j \<noteq> None \<or> cj_run_id c \<noteq> None then Inr (SettledFenced, d)
                else settle_ingest_job now c result j backoff d)
          else (case job_run_id j of
                  None \<Rightarrow> Inr (SettledFenced, d)
                | Some run \<Rightarrow>
                    if cj_run_id c \<noteq> Some run then Inr (SettledFenced, d)
                    else if outcome result = Ok
                    then (let (hit, d1) = cas_job (cj_id c) (cj_token c) (finish_row now Done None) d
                          in Inr (if hit then (SettledDone, d1) else (SettledFenced, d)))
                    else if outcome result = Retryable \<and> attempts j < max_attempts j
                    then (if \<not> fst (rewind_run run d) then Inr (SettledFenced, d)
                          else bind_res (must (cas_job (cj_id c) (cj_token c)
                                 (\<lambda>k. (finish_row now Pending (Some (diagnostic_code result)) k)\<lparr>available_at := now + backoff\<rparr>)
                                 (snd (rewind_run run d)))) (\<lambda>d1. Inr (SettledRetried, d1)))
                    else (let (why, target, out) =
                                (if outcome result = Retryable then (''RetryExhausted'', Dead, SettledDead)
                                 else (reason_value (reason result), Done, SettledDone));
                              detail = bounded_detail result (if out = SettledDead then Some (attempts j, max_attempts j) else None);
                              (hit, d1) = set_run_error run why detail EXTRACTING d
                          in if \<not> hit then Inr (SettledFenced, d)
                             else bind_res (must (cas_job (cj_id c) (cj_token c)
                                    (finish_row now target (Some (diagnostic_code result))) d1)) (\<lambda>d2. Inr (out, d2)))))"

definition settle_background_terminal :: "uuid \<Rightarrow> pipeline_result \<Rightarrow> run_status \<Rightarrow> db \<Rightarrow> (settlement \<times> db) res" where
  "settle_background_terminal run result expected d =
     (if outcome result \<noteq> Terminal then Inl ValueError
      else (let (hit, d1) = set_run_error run (reason_value (reason result)) (bounded_detail result None) expected d
            in Inr (if hit then (SettledDone, d1) else (SettledFenced, d))))"

definition settle_infrastructure_failure :: "instant \<Rightarrow> claim \<Rightarrow> int \<Rightarrow> pipeline_stage \<Rightarrow> pipeline_reason \<Rightarrow> db \<Rightarrow> (settlement \<times> db) res" where
  "settle_infrastructure_failure now c backoff st why d =
     settle_pipeline_job now c \<lparr>outcome = Retryable, stage = st, reason = why\<rparr> backoff d"

subsection \<open>Reaping the lease of a final attempt\<close>

definition reapable :: "instant \<Rightarrow> job \<Rightarrow> bool" where
  "reapable now j \<longleftrightarrow> expired now j \<and> attempts j = max_attempts j"

definition reap_candidates :: "instant \<Rightarrow> uuid list \<Rightarrow> db \<Rightarrow> job list" where
  "reap_candidates now locked d =
     sort_key (\<lambda>j. case leased_until j of None \<Rightarrow> 0 | Some u \<Rightarrow> u)
       (filter (\<lambda>j. reapable now j \<and> job_id j \<notin> set locked) (db_jobs d))"

definition reap_row :: "instant \<Rightarrow> job \<Rightarrow> db \<Rightarrow> (settlement option \<times> db) res" where
  "reap_row now j d =
     (let p = (\<lambda>k. job_id k = job_id j \<and> reapable now k)
      in bind_res (must (list_ex p (db_jobs d), d\<lparr>db_jobs := update_rows p (settle_row now Dead) (db_jobs d)\<rparr>)) (\<lambda>d1.
         Inr (Some SettledReaped, d1)))"

definition reap_delivery :: "instant \<Rightarrow> job \<Rightarrow> claim \<Rightarrow> db \<Rightarrow> (settlement option \<times> db) res" where
  "reap_delivery now j c d =
     (let invalid = bind_res (retire_invalid_outbound_lease now (cj_id c) (cj_token c) Dead d) (\<lambda>d1. Inr (Some SettledInvalid, d1))
      in case delivery_context j c d of
           None \<Rightarrow> invalid
         | Some (run, email, ob, r) \<Rightarrow>
             (case lock_current_handoff c run email (ob_snapshot ob) (ob_epoch ob) d of
                None \<Rightarrow> invalid
              | Some a \<Rightarrow>
                  bind_res (must (release_handoff_to_review now a d)) (\<lambda>d1.
                  bind_res (must (cas_run run (expected_run_status (ob_purpose ob)) (to_review (ob_purpose ob) ''final_attempt_lease_expired'')
                      (append_delivery_attempt (ob_snapshot ob) AttemptNeedsOperator ''final_attempt_lease_expired'' d1))) (reap_row now j))))"

definition reap_expired_final_attempt :: "instant \<Rightarrow> uuid list \<Rightarrow> db \<Rightarrow> (settlement option \<times> db) res" where
  "reap_expired_final_attempt now locked d =
     (case reap_candidates now locked d of
        [] \<Rightarrow> Inr (None, d)
      | j # _ \<Rightarrow>
          (case lease_token j of
             None \<Rightarrow> Inl ValueError
           | Some token \<Rightarrow>
               if job_kind_of j = Ingest
               then (if job_run_id j \<noteq> None then Inr (Some SettledFenced, d) else reap_row now j d)
               else if job_kind_of j = SendOutbound then reap_delivery now j (claim_of token j) d
               else (case Option.bind (job_run_id j) (\<lambda>i. load_run i d) of
                       None \<Rightarrow> Inr (Some SettledFenced, d)
                     | Some r \<Rightarrow>
                         bind_res (if status r \<in> set FINAL_LEASE_ERROR_STATUSES
                                   then must (set_run_error (run_id r) ''FinalAttemptLeaseExpired''
                                          (take 200 (''unknown:final_attempt_lease_expired;attempts='' @ int_str (attempts j) @ ''/'' @ int_str (max_attempts j)))
                                          (status r) d)
                                   else Inr d) (reap_row now j))))"

subsection \<open>Rows under a fence\<close>

definition db_ok :: "db \<Rightarrow> bool" where
  "db_ok d \<longleftrightarrow> distinct (map job_id (db_jobs d)) \<and> distinct (map run_id (db_runs d))
     \<and> distinct (map ob_email (db_outbound d)) \<and> (\<forall>j \<in> set (db_jobs d). row_ok j)"

lemma locked_job_Some: "locked_job c d = Some j \<Longrightarrow> j \<in> set (db_jobs d) \<and> held (cj_id c) (cj_token c) j"
  unfolding locked_job_def by (rule first_match_SomeD)

lemma locked_job_id: "locked_job c d = Some j \<Longrightarrow> job_id j = cj_id c"
  using locked_job_Some by (force simp: held_def)

lemma finish_row_simps [simp]:
  "job_id (finish_row now st err j) = job_id j" "job_state (finish_row now st err j) = st"
  "lease_token (finish_row now st err j) = None" "leased_until (finish_row now st err j) = None"
  "attempts (finish_row now st err j) = attempts j" "max_attempts (finish_row now st err j) = max_attempts j"
  "job_updated_at (finish_row now st err j) = now" "job_run_id (finish_row now st err j) = job_run_id j"
  by (simp_all add: finish_row_def settle_row_def split: option.split)

lemma must_Inr [simp]: "must r = Inr d \<longleftrightarrow> fst r \<and> snd r = d"
  by (simp add: must_def)

lemma must_True [simp]: "fst r \<Longrightarrow> must r = Inr (snd r)"
  by (simp add: must_def)

lemma cas_job_fst: "fst (cas_job i t f d) \<longleftrightarrow> (\<exists>j \<in> set (db_jobs d). held i t j)"
  by (simp add: cas_job_def list_ex_iff)

lemma cas_job_snd: "snd (cas_job i t f d) = d\<lparr>db_jobs := update_rows (held i t) f (db_jobs d)\<rparr>"
  by (simp add: cas_job_def)

lemma cas_run_fst: "fst (cas_run i s f d) \<longleftrightarrow> (\<exists>r \<in> set (db_runs d). run_id r = i \<and> status r = s)"
  by (simp add: cas_run_def list_ex_iff)

lemma cas_run_snd: "snd (cas_run i s f d) = d\<lparr>db_runs := update_rows (\<lambda>r. run_id r = i \<and> status r = s) f (db_runs d)\<rparr>"
  by (simp add: cas_run_def)

lemma load_run_Some: "load_run i d = Some r \<Longrightarrow> r \<in> set (db_runs d) \<and> run_id r = i"
  unfolding load_run_def by (rule first_match_SomeD)

lemma load_run_cong: "db_runs d = db_runs e \<Longrightarrow> load_run i d = load_run i e"
  by (simp add: load_run_def)

lemma cas_run_iff:
  assumes "db_ok d" "load_run i d = Some r"
  shows "fst (cas_run i s f d) \<longleftrightarrow> status r = s"
  using load_run_Some [OF assms(2)] distinct_key [of run_id "db_runs d" _ r] assms(1)
  by (auto simp: cas_run_fst db_ok_def)

lemma first_match_update:
  "(\<And>x. p (f x) = p x) \<Longrightarrow> first_match p (update_rows q f xs) = map_option (\<lambda>x. if q x then f x else x) (first_match p xs)"
  unfolding update_rows_def by (induction xs) auto

lemma first_match_other:
  "(\<And>x. p (f x) = p x) \<Longrightarrow> (\<And>x. q x \<Longrightarrow> \<not> p x) \<Longrightarrow> first_match p (update_rows q f xs) = first_match p xs"
  unfolding update_rows_def by (induction xs) auto

lemma load_run_cas:
  assumes "load_run i d = Some r" "\<And>r. run_id (f r) = run_id r"
  shows "load_run i (snd (cas_run i s f d)) = Some (if status r = s then f r else r)"
  using load_run_Some [OF assms(1)] assms
  by (simp add: load_run_def cas_run_snd first_match_update)

lemma get_job_cas:
  assumes "locked_job c d = Some j" "db_ok d" "\<And>k. job_id (f k) = job_id k"
  shows "get_job (cj_id c) (update_rows (held (cj_id c) (cj_token c)) f (db_jobs d)) = Some (f j)"
proof -
  note j = locked_job_Some [OF assms(1)]
  have "get_job (cj_id c) (db_jobs d) = Some j"
    using get_job_member [of "db_jobs d" j] j assms(2) by (simp add: db_ok_def held_def)
  then show ?thesis using get_job_update [of f "cj_id c" "held (cj_id c) (cj_token c)" "db_jobs d"] assms(3) j by simp
qed

lemma locked_cas_job:
  assumes "locked_job c d = Some j" "db_jobs e = db_jobs d"
  shows "must (cas_job (cj_id c) (cj_token c) f e) = Inr (e\<lparr>db_jobs := update_rows (held (cj_id c) (cj_token c)) f (db_jobs d)\<rparr>)"
  using locked_job_Some [OF assms(1)] assms(2) by (auto simp: must_def cas_job_def list_ex_iff)

lemma released:
  assumes "\<And>k. lease_token (f k) = None" "k \<in> set (update_rows (held i t) f js)"
  shows "\<not> held i t k"
  using assms by (auto simp: update_rows_def held_def)

subsection \<open>The table of a pipeline settlement\<close>

definition others_kept :: "uuid \<Rightarrow> uuid \<Rightarrow> db \<Rightarrow> db \<Rightarrow> bool" where
  "others_kept i run d d' \<longleftrightarrow>
     (\<forall>k. k \<noteq> i \<longrightarrow> get_job k (db_jobs d') = get_job k (db_jobs d)) \<and> (\<forall>k. k \<noteq> run \<longrightarrow> load_run k d' = load_run k d)
     \<and> db_outbound d' = db_outbound d \<and> db_handoffs d' = db_handoffs d \<and> db_deliveries d' = db_deliveries d \<and> db_staff d' = db_staff d"

lemma others_kept_update:
  assumes "\<And>k. job_id (f k) = job_id k" "\<And>r. run_id (g r) = run_id r"
  shows "others_kept i run d (d\<lparr>db_jobs := update_rows (held i t) f (db_jobs d),
           db_runs := update_rows (\<lambda>r. run_id r = run \<and> status r = s) g (db_runs d)\<rparr>)"
proof -
  have "get_job k (update_rows (held i t) f (db_jobs d)) = get_job k (db_jobs d)" if "k \<noteq> i" for k
    unfolding get_job_def by (rule first_match_other) (use assms(1) that in \<open>auto simp: held_def\<close>)
  moreover have "first_match (\<lambda>r. run_id r = k) (update_rows (\<lambda>r. run_id r = run \<and> status r = s) g (db_runs d)) =
      first_match (\<lambda>r. run_id r = k) (db_runs d)" if "k \<noteq> run" for k
    by (rule first_match_other) (use assms(2) that in auto)
  ultimately show ?thesis by (simp add: others_kept_def load_run_def)
qed

lemma others_kept_job:
  assumes "\<And>k. job_id (f k) = job_id k"
  shows "others_kept i run d (d\<lparr>db_jobs := update_rows (held i t) f (db_jobs d)\<rparr>)"
  using others_kept_update [of f "\<lambda>r. r", OF assms, where i = i and run = run and d = d and t = t and s = ERROR] by (simp add: update_rows_def map_idI)

lemma others_kept_refl [simp]: "others_kept i run d d"
  by (simp add: others_kept_def)

text \<open>What the settlement of a pipeline job comes to: the outcome, the state of the job, the status of the run.\<close>

definition pipeline_verdict :: "pipeline_outcome \<Rightarrow> bool \<Rightarrow> run_status \<Rightarrow> settlement \<times> job_state \<times> run_status" where
  "pipeline_verdict res attempts_left st =
     (if res = Ok then (SettledDone, Done, st)
      else if st \<noteq> EXTRACTING then (SettledFenced, Leased, st)
      else if res = Retryable \<and> attempts_left then (SettledRetried, Pending, RECEIVED)
      else if res = Retryable then (SettledDead, Dead, ERROR)
      else (SettledDone, Done, ERROR))"

lemma settle_pipeline_ok:
  assumes "locked_job c d = Some j" "job_kind_of j = cj_kind c" "job_kind_of j \<noteq> Ingest" "job_run_id j = Some run"
    "cj_run_id c = Some run" "outcome result = Ok"
  shows "settle_pipeline_job now c result backoff d =
    Inr (SettledDone, d\<lparr>db_jobs := update_rows (held (cj_id c) (cj_token c)) (finish_row now Done None) (db_jobs d)\<rparr>)"
  using assms locked_job_Some [OF assms(1)] by (auto simp: settle_pipeline_job_def cas_job_def list_ex_iff)

lemma settle_pipeline_fenced:
  assumes "db_ok d" "locked_job c d = Some j" "job_kind_of j = cj_kind c" "job_kind_of j \<noteq> Ingest" "job_run_id j = Some run"
    "cj_run_id c = Some run" "load_run run d = Some r" "outcome result \<noteq> Ok" "status r \<noteq> EXTRACTING"
  shows "settle_pipeline_job now c result backoff d = Inr (SettledFenced, d)"
  using assms(2-6,8,9) cas_run_iff [OF assms(1,7), of EXTRACTING]
  by (simp add: settle_pipeline_job_def rewind_run_def set_run_error_def case_prod_beta Let_def)

lemma settle_pipeline_retry:
  assumes "db_ok d" "locked_job c d = Some j" "job_kind_of j = cj_kind c" "job_kind_of j \<noteq> Ingest" "job_run_id j = Some run"
    "cj_run_id c = Some run" "load_run run d = Some r" "outcome result = Retryable" "attempts j < max_attempts j" "status r = EXTRACTING"
  shows "settle_pipeline_job now c result backoff d =
    Inr (SettledRetried, d\<lparr>db_jobs := update_rows (held (cj_id c) (cj_token c))
           (\<lambda>k. (finish_row now Pending (Some (diagnostic_code result)) k)\<lparr>available_at := now + backoff\<rparr>) (db_jobs d),
         db_runs := update_rows (\<lambda>r. run_id r = run \<and> status r = EXTRACTING) (set_status RECEIVED) (db_runs d)\<rparr>)"
  using assms(2-6,8,9,10) cas_run_iff [OF assms(1,7), of EXTRACTING] locked_cas_job [OF assms(2)]
  by (simp add: settle_pipeline_job_def rewind_run_def cas_run_snd)

lemma settle_pipeline_final:
  assumes "db_ok d" "locked_job c d = Some j" "job_kind_of j = cj_kind c" "job_kind_of j \<noteq> Ingest" "job_run_id j = Some run"
    "cj_run_id c = Some run" "load_run run d = Some r" "outcome result \<noteq> Ok" "outcome result = Retryable \<longrightarrow> max_attempts j \<le> attempts j"
    "status r = EXTRACTING"
  shows "settle_pipeline_job now c result backoff d =
    Inr (if outcome result = Retryable then SettledDead else SettledDone,
      d\<lparr>db_jobs := update_rows (held (cj_id c) (cj_token c))
          (finish_row now (if outcome result = Retryable then Dead else Done) (Some (diagnostic_code result))) (db_jobs d),
        db_runs := update_rows (\<lambda>r. run_id r = run \<and> status r = EXTRACTING)
          (fail_run (if outcome result = Retryable then ''RetryExhausted'' else reason_value (reason result))
             (bounded_detail result (if outcome result = Retryable then Some (attempts j, max_attempts j) else None))) (db_runs d)\<rparr>)"
  using assms(2-6,8,9,10) cas_run_iff [OF assms(1,7), of EXTRACTING] locked_cas_job [OF assms(2)]
  by (cases "outcome result = Retryable")
    (simp_all add: settle_pipeline_job_def set_run_error_def cas_run_snd case_prod_beta Let_def not_less)

lemma load_run_update:
  assumes "load_run run d = Some r" "status r = s" "\<And>r. run_id (g r) = run_id r"
  shows "load_run run (d\<lparr>db_jobs := js, db_runs := update_rows (\<lambda>r. run_id r = run \<and> status r = s) g (db_runs d)\<rparr>) = Some (g r)"
  using first_match_update [of "\<lambda>r. run_id r = run" g "\<lambda>r. run_id r = run \<and> status r = s" "db_runs d"] assms load_run_Some [OF assms(1)]
  by (simp add: load_run_def)

text \<open>A failure that ends the job: job and run are closed by one write each.\<close>

lemma pipeline_failure_closes:
  assumes "db_ok d" "locked_job c d = Some j" "job_kind_of j = cj_kind c" "job_kind_of j \<noteq> Ingest" "job_run_id j = Some run"
    "cj_run_id c = Some run" "load_run run d = Some r" "outcome result \<noteq> Ok" "outcome result = Retryable \<longrightarrow> max_attempts j \<le> attempts j"
    "status r = EXTRACTING"
  shows "\<exists>out d' k q. settle_pipeline_job now c result backoff d = Inr (out, d')
    \<and> get_job (cj_id c) (db_jobs d') = Some k \<and> load_run run d' = Some q \<and> others_kept (cj_id c) run d d'
    \<and> (out, job_state k, status q) = pipeline_verdict (outcome result) (attempts j < max_attempts j) (status r)
    \<and> out \<notin> {SettledFenced, SettledRetried}"
proof -
  let ?st = "if outcome result = Retryable then Dead else Done"
  let ?f = "finish_row now ?st (Some (diagnostic_code result))"
  obtain why detail where s: "settle_pipeline_job now c result backoff d =
    Inr (if outcome result = Retryable then SettledDead else SettledDone,
      d\<lparr>db_jobs := update_rows (held (cj_id c) (cj_token c)) ?f (db_jobs d),
        db_runs := update_rows (\<lambda>r. run_id r = run \<and> status r = EXTRACTING) (fail_run why detail) (db_runs d)\<rparr>)"
    using settle_pipeline_final [OF assms] by blast
  have "get_job (cj_id c) (update_rows (held (cj_id c) (cj_token c)) ?f (db_jobs d)) = Some (?f j)"
    by (rule get_job_cas [OF assms(2,1)]) simp
  moreover have "load_run run (d\<lparr>db_jobs := js, db_runs := update_rows (\<lambda>r. run_id r = run \<and> status r = EXTRACTING) (fail_run why detail) (db_runs d)\<rparr>)
      = Some (fail_run why detail r)" for js
    by (rule load_run_update [OF assms(7,10)]) (simp add: fail_run_def)
  moreover have "others_kept (cj_id c) run d (d\<lparr>db_jobs := update_rows (held (cj_id c) (cj_token c)) ?f (db_jobs d),
        db_runs := update_rows (\<lambda>r. run_id r = run \<and> status r = EXTRACTING) (fail_run why detail) (db_runs d)\<rparr>)"
    by (rule others_kept_update) (simp_all add: fail_run_def)
  ultimately show ?thesis unfolding s using assms(8-10)
    by (cases "outcome result = Retryable") (simp_all add: pipeline_verdict_def fail_run_def)
qed


text \<open>One leased job of an extracting run, on its last attempt.\<close>

definition sample_claim_rec :: claim where
  "sample_claim_rec = claim_of 11 (claim_row 0 (seconds 900) 11 sample_job)"

definition sample_db :: db where
  "sample_db = empty_db\<lparr>db_jobs := [claim_row 0 (seconds 900) 11 sample_job], db_runs := [sample_run]\<rparr>"

lemma sample_db_facts:
  "db_ok sample_db" "locked_job sample_claim_rec sample_db = Some (claim_row 0 (seconds 900) 11 sample_job)"
  "load_run 9 sample_db = Some sample_run"
  by (simp_all add: db_ok_def sample_db_def empty_db_def sample_claim_rec_def row_ok_def lease_coherent_def context_ok_def claim_row_def
      claim_of_def sample_job_def sample_run_def locked_job_def held_def load_run_def)


subsection \<open>The table of a delivery settlement\<close>

definition mail_sent :: "uuid \<Rightarrow> db \<Rightarrow> bool" where
  "mail_sent email d \<longleftrightarrow> (\<exists>ob \<in> set (db_outbound d). ob_email ob = email \<and> ob_state ob = MailSent)"

lemma mail_sent_cong: "db_outbound d = db_outbound e \<Longrightarrow> mail_sent email d = mail_sent email e"
  by (simp add: mail_sent_def)

lemma reservation_not_sent:
  assumes "db_ok d" "lock_outbound_reservation run email d = Some ob" "ob_state ob = Reserved"
  shows "\<not> mail_sent email d" "ob \<in> set (db_outbound d)" "ob_email ob = email" "ob_run ob = run"
proof -
  have ob: "ob \<in> set (db_outbound d) \<and> ob_email ob = email \<and> ob_run ob = run"
    using assms(2) unfolding lock_outbound_reservation_def by (rule first_match_SomeD)
  then show "ob \<in> set (db_outbound d)" "ob_email ob = email" "ob_run ob = run" by simp_all
  have "x = ob" if "x \<in> set (db_outbound d)" "ob_email x = email" for x
    by (rule distinct_key [of ob_email "db_outbound d"]) (use assms(1) ob that in \<open>auto simp: db_ok_def\<close>)
  then show "\<not> mail_sent email d" unfolding mail_sent_def using assms(3) by fastforce
qed

lemma mark_sent_ok:
  assumes "db_ok d" "lock_outbound_reservation run email d = Some ob" "ob_state ob = Reserved"
  obtains obs where "must (mark_sent run email d) = Inr (d\<lparr>db_outbound := obs\<rparr>)"
    "\<exists>x \<in> set obs. ob_email x = email \<and> ob_state x = MailSent" "map ob_email obs = map ob_email (db_outbound d)"
proof -
  note ob = reservation_not_sent(2-4) [OF assms]
  let ?p = "\<lambda>x. ob_email x = email \<and> ob_run x = run \<and> ob_state x = Reserved"
  let ?obs = "update_rows ?p (\<lambda>x. x\<lparr>ob_state := MailSent\<rparr>) (db_outbound d)"
  have "must (mark_sent run email d) = Inr (d\<lparr>db_outbound := ?obs\<rparr>)"
    using ob assms(3) by (auto simp: must_def mark_sent_def list_ex_iff Let_def)
  moreover have "ob\<lparr>ob_state := MailSent\<rparr> \<in> set ?obs" using ob assms(3) by (intro update_rows_hit) auto
  moreover have "map ob_email ?obs = map ob_email (db_outbound d)" by (rule map_update_rows) simp
  ultimately show ?thesis using that ob(2) by force
qed

lemma complete_confirmation_ok:
  assumes "load_run run d = Some r" "status r = SENT" "load_roster_for_business (business_id r) (db_staff d) = Inr ros"
  obtains d' q where "complete_confirmation_after_send u run d = Inr d'" "load_run run d' = Some q" "status q = RECONCILED"
    "db_jobs d' = db_jobs d" "db_outbound d' = db_outbound d"
proof -
  obtain staff batch where w: "write_aliases u (business_id r) (case alias_candidates r of None \<Rightarrow> [] | Some cs \<Rightarrow> cs) ros (db_staff d) = (staff, batch)"
    by fastforce
  define d1 where "d1 = (case batch of Inl e \<Rightarrow> d | Inr (x :: unit) \<Rightarrow> d\<lparr>db_staff := staff\<rparr>)"
  have same: "db_runs d1 = db_runs d" "db_jobs d1 = db_jobs d" "db_outbound d1 = db_outbound d"
    by (simp_all add: d1_def split: sum.split)
  have l: "load_run run d1 = Some r" using assms(1) same(1) by (simp add: load_run_def)
  let ?d' = "snd (cas_run run SENT (set_status RECONCILED) d1)"
  have "complete_confirmation_after_send u run d = must (cas_run run SENT (set_status RECONCILED) d1)"
    by (simp add: complete_confirmation_after_send_def assms(1,3) w d1_def)
  moreover have "fst (cas_run run SENT (set_status RECONCILED) d1)"
    using load_run_Some [OF l] assms(2) by (auto simp: cas_run_fst)
  moreover have "load_run run ?d' = Some (set_status RECONCILED r)"
    using load_run_cas [OF l, of "set_status RECONCILED" SENT] assms(2) by (simp add: set_status_def)
  ultimately show ?thesis using that [of ?d' "set_status RECONCILED r"] same by (simp add: set_status_def cas_run_snd)
qed

lemma mail_accepted_ok:
  assumes "db_ok d" "locked_job c d = Some j" "lock_outbound_reservation run email d = Some ob" "ob_state ob = Reserved"
    "load_run run d = Some r" "status r = expected_run_status (ob_purpose ob)"
    "load_roster_for_business (business_id r) (db_staff d) = Inr ros"
  obtains d' q where "mail_accepted u now c run email ob d = Inr (SettledDone, d')"
    "db_jobs d' = update_rows (held (cj_id c) (cj_token c)) (finish_row now Done None) (db_jobs d)"
    "load_run run d' = Some q" "status q = (if ob_purpose ob = PurposeConfirmation then RECONCILED else status r)" "mail_sent email d'"
proof -
  obtain obs where m: "must (mark_sent run email d) = Inr (d\<lparr>db_outbound := obs\<rparr>)"
    "\<exists>x \<in> set obs. ob_email x = email \<and> ob_state x = MailSent"
    using mark_sent_ok [OF assms(1,3,4)] by metis
  let ?d1 = "d\<lparr>db_outbound := obs\<rparr>"
  have l1: "load_run run ?d1 = Some r" using assms(5) by (simp add: load_run_def)
  have "\<exists>d2 q. (if ob_purpose ob = PurposeConfirmation
               then bind_res (must (cas_run run APPROVED (set_status SENT) ?d1)) (complete_confirmation_after_send u run)
               else Inr ?d1) = Inr d2 \<and> load_run run d2 = Some q
      \<and> status q = (if ob_purpose ob = PurposeConfirmation then RECONCILED else status r) \<and> db_jobs d2 = db_jobs d \<and> db_outbound d2 = obs"
  proof (cases "ob_purpose ob = PurposeConfirmation")
    case True
    let ?d2 = "snd (cas_run run APPROVED (set_status SENT) ?d1)"
    have st: "status r = APPROVED" using assms(6) True by (simp add: expected_run_status_def)
    have f: "fst (cas_run run APPROVED (set_status SENT) ?d1)" using load_run_Some [OF l1] st by (auto simp: cas_run_fst)
    have l2: "load_run run ?d2 = Some (set_status SENT r)"
      using load_run_cas [OF l1, of "set_status SENT" APPROVED] st by (simp add: set_status_def)
    have ros: "load_roster_for_business (business_id (set_status SENT r)) (db_staff ?d2) = Inr ros"
      using assms(7) by (simp add: set_status_def cas_run_snd)
    obtain d3 q where "complete_confirmation_after_send u run ?d2 = Inr d3" "load_run run d3 = Some q" "status q = RECONCILED"
      "db_jobs d3 = db_jobs ?d2" "db_outbound d3 = db_outbound ?d2"
      by (rule complete_confirmation_ok [OF l2 _ ros, of u]) (simp add: set_status_def)
    then show ?thesis using True f by (simp add: cas_run_snd)
  qed (use l1 in simp)
  then obtain d2 q where d2: "(if ob_purpose ob = PurposeConfirmation
               then bind_res (must (cas_run run APPROVED (set_status SENT) ?d1)) (complete_confirmation_after_send u run)
               else Inr ?d1) = Inr d2" "load_run run d2 = Some q"
      "status q = (if ob_purpose ob = PurposeConfirmation then RECONCILED else status r)" "db_jobs d2 = db_jobs d" "db_outbound d2 = obs"
    by blast
  let ?d3 = "d2\<lparr>db_jobs := update_rows (held (cj_id c) (cj_token c)) (finish_row now Done None) (db_jobs d)\<rparr>"
  have "mail_accepted u now c run email ob d = Inr (SettledDone, ?d3)"
    using m(1) d2(1) locked_cas_job [OF assms(2) d2(4), of "finish_row now Done None"] by (simp add: mail_accepted_def)
  moreover have "load_run run ?d3 = Some q" using d2(2) by (simp add: load_run_def)
  moreover have "mail_sent email ?d3" using m(2) d2(5) by (simp add: mail_sent_def)
  ultimately show ?thesis using that [of ?d3 q] d2(3) by simp
qed

lemma settle_delivery_review_ok:
  assumes "db_ok d" "locked_job c d = Some j" "load_run run d = Some r" "status r = expected"
  obtains d' q where "settle_delivery_review now c result run ob expected d = Inr (SettledDone, d')"
    "db_jobs d' = update_rows (held (cj_id c) (cj_token c)) (finish_row now Done (Some (diagnostic_code result))) (db_jobs d)"
    "load_run run d' = Some q" "status q = NEEDS_OPERATOR" "db_outbound d' = db_outbound d"
proof -
  let ?cat = "delivery_failure_category (reason result)"
  let ?d1 = "append_delivery_attempt (ob_snapshot ob) AttemptNeedsOperator ?cat d"
  let ?d2 = "snd (cas_run run expected (to_review (ob_purpose ob) ?cat) ?d1)"
  let ?d3 = "?d2\<lparr>db_jobs := update_rows (held (cj_id c) (cj_token c)) (finish_row now Done (Some (diagnostic_code result))) (db_jobs d)\<rparr>"
  have l1: "load_run run ?d1 = Some r" using assms(3) by (simp add: load_run_def append_delivery_attempt_def)
  have f: "fst (cas_run run expected (to_review (ob_purpose ob) ?cat) ?d1)" using load_run_Some [OF l1] assms(4) by (auto simp: cas_run_fst)
  have l2: "load_run run ?d2 = Some (to_review (ob_purpose ob) ?cat r)"
    using load_run_cas [OF l1, of "to_review (ob_purpose ob) ?cat" expected] assms(4) by (simp add: to_review_def)
  have js: "db_jobs ?d2 = db_jobs d" by (simp add: cas_run_snd append_delivery_attempt_def)
  have "settle_delivery_review now c result run ob expected d = Inr (SettledDone, ?d3)"
    using f locked_cas_job [OF assms(2) js] by (simp add: settle_delivery_review_def Let_def)
  moreover have "load_run run ?d3 = Some (to_review (ob_purpose ob) ?cat r)" using l2 by (simp add: load_run_def)
  ultimately show ?thesis using that by (simp add: to_review_def cas_run_snd append_delivery_attempt_def)
qed

lemma lock_current_owns:
  assumes "lock_current_handoff c run email s e d = Some a"
  shows "fst (release_exact_handoff now why a d)"
proof -
  from assms obtain h where h: "first_match (\<lambda>h. ho_run h = run \<and> ho_email h = email \<and> ho_snapshot h = s \<and> ho_job h = cj_id c
          \<and> ho_epoch h = e \<and> ho_token h = cj_token c \<and> ho_released h = None) (db_handoffs d) = Some h"
    "a = \<lparr>au_handoff = ho_id h, au_run = run, au_email = email, au_snapshot = s, au_job = cj_id c,
        au_token = cj_token c, au_epoch = e, au_frozen = None, au_not_after = ho_not_after h\<rparr>"
    by (auto simp: lock_current_handoff_def)
  from first_match_SomeD [OF h(1)] have "h \<in> set (db_handoffs d)" "owns_handoff a h"
    by (simp_all add: h(2) owns_handoff_def)
  then show ?thesis by (auto simp: release_exact_handoff_def list_ex_iff)
qed

lemma release_same:
  "db_jobs (snd (release_exact_handoff now why a d)) = db_jobs d" "db_runs (snd (release_exact_handoff now why a d)) = db_runs d"
  "db_outbound (snd (release_exact_handoff now why a d)) = db_outbound d" "db_staff (snd (release_exact_handoff now why a d)) = db_staff d"
  by (simp_all add: release_exact_handoff_def)

lemma append_same [simp]:
  "db_jobs (append_delivery_attempt s st x d) = db_jobs d" "db_runs (append_delivery_attempt s st x d) = db_runs d"
  "db_outbound (append_delivery_attempt s st x d) = db_outbound d" "db_staff (append_delivery_attempt s st x d) = db_staff d"
  by (simp_all add: append_delivery_attempt_def)

definition delivery_verdict ::
  "instant \<Rightarrow> pipeline_result \<Rightarrow> outbound \<Rightarrow> payroll_run \<Rightarrow> int \<Rightarrow> bool \<Rightarrow> bool \<Rightarrow> settlement \<times> job_state \<times> run_status \<times> bool" where
  "delivery_verdict now result ob r tries active authority =
     (let accepted = (SettledDone, Done, if ob_purpose ob = PurposeConfirmation then RECONCILED else AWAITING_REPLY, True);
          invalid = (SettledInvalid, Done, status r, False);
          review = (SettledDone, Done, NEEDS_OPERATOR, False)
      in if reason result = DeliveryRecordOnly then (if record_only r then accepted else invalid)
         else if pre_provider_expiry now result ob r \<and> \<not> active then review
         else if \<not> authority then invalid
         else if outcome result = Ok then accepted
         else if outcome result = Retryable \<and> reason result \<in> set REPLAYABLE_DELIVERY_REASONS \<and> replay_window_open now ob \<and> tries < 8
           then (SettledRetried, Pending, status r, False)
         else review)"

lemma delivery_context_Some:
  assumes "delivery_context j c d = Some (run, email, ob, r)"
  shows "lock_outbound_reservation run email d = Some ob" "ob_state ob = Reserved" "load_run run d = Some r"
    "status r = expected_run_status (ob_purpose ob)" "ob_epoch ob = reply_epoch r" "cj_email_id c = Some email" "job_run_id j = Some run"
    "job_kind_of j = SendOutbound"
  using assms by (auto simp: delivery_context_def split: option.splits if_splits)

lemma settle_outbound_unfold:
  assumes "locked_job c d = Some j" "delivery_context j c d = Some (run, email, ob, r)"
  shows "settle_outbound_delivery_job u now c result d =
    (let invalid = Inr (SettledInvalid, d\<lparr>db_jobs := update_rows (held (cj_id c) (cj_token c))
           (finish_row now Done (Some ''delivery:invalid_context'')) (db_jobs d)\<rparr>)
     in if reason result = DeliveryRecordOnly then (if \<not> record_only r then invalid else mail_accepted u now c run email ob d)
        else if pre_provider_expiry now result ob r \<and> active_handoff_of run (db_handoffs d) = None
        then settle_delivery_review now c result run ob (expected_run_status (ob_purpose ob)) d
        else (case lock_current_handoff c run email (ob_snapshot ob) (ob_epoch ob) d of
                None \<Rightarrow> invalid
              | Some a \<Rightarrow> settle_with_authority u now c result run email ob (attempts j) a d))"
  using assms locked_cas_job [OF assms(1) refl]
  by (simp add: settle_outbound_delivery_job_def retire_invalid_outbound_lease_def Let_def split: option.split)

lemma load_run_jobs [simp]: "load_run i (d\<lparr>db_jobs := js\<rparr>) = load_run i d"
  by (simp add: load_run_def)

lemma mail_sent_jobs [simp]: "mail_sent e (d\<lparr>db_jobs := js\<rparr>) = mail_sent e d"
  by (simp add: mail_sent_def)

lemma next_attempt:
  assumes "0 \<le> tries"
  shows "next_delivery_attempt_at t tries = Inr (if tries < 8 then Some (t + DELIVERY_REPLAY_OFFSETS ! nat tries) else None)"
proof (cases "tries < 8")
  case True
  with assms ladder_at [of "nat tries" t] show ?thesis by simp
next
  case False
  then show ?thesis by (simp add: next_delivery_attempt_at_def)
qed

text \<open>One branch of the table: the call returns, and the rows are as the verdict says.\<close>

definition delivers :: "claim \<Rightarrow> uuid \<Rightarrow> uuid \<Rightarrow> (settlement \<times> db) res \<Rightarrow> settlement \<times> job_state \<times> run_status \<times> bool \<Rightarrow> bool" where
  "delivers c run email res verdict \<longleftrightarrow>
     (\<exists>out d' k q. res = Inr (out, d') \<and> get_job (cj_id c) (db_jobs d') = Some k \<and> load_run run d' = Some q
        \<and> (\<forall>x \<in> set (db_jobs d'). \<not> held (cj_id c) (cj_token c) x)
        \<and> (out, job_state k, status q, mail_sent email d') = verdict)"

lemma deliversI:
  assumes "res = Inr (out, d')" "locked_job c d = Some j" "db_ok d" "load_run run d' = Some q"
    "db_jobs d' = update_rows (held (cj_id c) (cj_token c)) f (db_jobs d)"
    "\<And>k. job_id (f k) = job_id k" "\<And>k. lease_token (f k) = None" "(out, job_state (f j), status q, mail_sent email d') = verdict"
  shows "delivers c run email res verdict"
  unfolding delivers_def
  using assms(1,4,5,8) get_job_cas [OF assms(2,3,6)] released [of f _ "cj_id c" "cj_token c" "db_jobs d", OF assms(7)] by auto

lemma with_authority_ok:
  assumes "db_ok d" "locked_job c d = Some j" "delivery_context j c d = Some (run, email, ob, r)"
    "load_roster_for_business (business_id r) (db_staff d) = Inr ros"
    "lock_current_handoff c run email (ob_snapshot ob) (ob_epoch ob) d = Some a"
  shows "delivers c run email (settle_with_authority u now c result run email ob (attempts j) a d)
    (if outcome result = Ok then (SettledDone, Done, if ob_purpose ob = PurposeConfirmation then RECONCILED else AWAITING_REPLY, True)
     else if outcome result = Retryable \<and> reason result \<in> set REPLAYABLE_DELIVERY_REASONS \<and> replay_window_open now ob \<and> attempts j < 8
       then (SettledRetried, Pending, status r, False)
     else (SettledDone, Done, NEEDS_OPERATOR, False))"
proof -
  note ctx = delivery_context_Some [OF assms(3)]
  have unsent: "\<not> mail_sent email d" by (rule reservation_not_sent(1) [OF assms(1) ctx(1,2)])
  let ?rel = "\<lambda>why. snd (release_exact_handoff now why a d)"
  have own: "fst (release_exact_handoff now why a d)" for why by (rule lock_current_owns [OF assms(5)])
  have ok: "db_ok (append_delivery_attempt s st x (?rel why))" "db_ok (?rel why)" for s st x why
    using assms(1) by (simp_all add: db_ok_def release_same)
  have lj: "locked_job c (append_delivery_attempt s st x (?rel why)) = Some j" "locked_job c (?rel why) = Some j" for s st x why
    using assms(2) by (simp_all add: locked_job_def release_same)
  have lr: "load_run run (append_delivery_attempt s st x (?rel why)) = Some r" "load_run run (?rel why) = Some r" for s st x why
    using ctx(3) by (simp_all add: load_run_def release_same)
  have tries: "0 \<le> attempts j" using assms(1) locked_job_Some [OF assms(2)] by (simp add: db_ok_def row_ok_def)
  consider "outcome result = Ok"
    | "outcome result = Retryable" "reason result \<in> set REPLAYABLE_DELIVERY_REASONS" "replay_window_open now ob" "attempts j < 8"
    | "outcome result \<noteq> Ok" "\<not> (outcome result = Retryable \<and> reason result \<in> set REPLAYABLE_DELIVERY_REASONS \<and> replay_window_open now ob \<and> attempts j < 8)"
    by fastforce
  then show ?thesis
  proof cases
    case 1
    let ?d1 = "append_delivery_attempt (ob_snapshot ob) AttemptSent ''none'' (?rel ReleaseFinalized)"
    have lo: "lock_outbound_reservation run email ?d1 = Some ob" using ctx(1) by (simp add: lock_outbound_reservation_def release_same)
    have ros: "load_roster_for_business (business_id r) (db_staff ?d1) = Inr ros" using assms(4) by (simp add: release_same)
    obtain d' q where m: "mail_accepted u now c run email ob ?d1 = Inr (SettledDone, d')"
      "db_jobs d' = update_rows (held (cj_id c) (cj_token c)) (finish_row now Done None) (db_jobs ?d1)"
      "load_run run d' = Some q" "status q = (if ob_purpose ob = PurposeConfirmation then RECONCILED else status r)" "mail_sent email d'"
      by (rule mail_accepted_ok [OF ok(1) lj(1) lo ctx(2) lr(1) ctx(4) ros])
    have "settle_with_authority u now c result run email ob (attempts j) a d = Inr (SettledDone, d')"
      using 1 own m(1) by (simp add: settle_with_authority_def finalize_handoff_def)
    then have "delivers c run email (settle_with_authority u now c result run email ob (attempts j) a d)
        (SettledDone, Done, if ob_purpose ob = PurposeConfirmation then RECONCILED else AWAITING_REPLY, True)"
      by (rule deliversI [where f = "finish_row now Done None", OF _ lj(1) ok(1) m(3,2)])
        (use m(4,5) ctx(4) in \<open>simp_all add: expected_run_status_def\<close>)
    then show ?thesis using 1 by simp
  next
    case 2
    let ?d1 = "append_delivery_attempt (ob_snapshot ob) AttemptRetryScheduled (delivery_failure_category (reason result)) (?rel ReleaseRetry)"
    let ?slot = "ob_reserved_at ob + DELIVERY_REPLAY_OFFSETS ! nat (attempts j)"
    let ?f = "\<lambda>k. (finish_row now Pending (Some (diagnostic_code result)) k)\<lparr>available_at := ?slot\<rparr>"
    let ?d2 = "?d1\<lparr>db_jobs := update_rows (held (cj_id c) (cj_token c)) ?f (db_jobs ?d1)\<rparr>"
    have "settle_with_authority u now c result run email ob (attempts j) a d = Inr (SettledRetried, ?d2)"
      using 2 own next_attempt [OF tries] locked_cas_job [OF lj(1) refl]
      by (simp add: settle_with_authority_def release_handoff_for_retry_def)
    moreover have "load_run run ?d2 = Some r" using lr(1) by simp
    moreover have "\<not> mail_sent email ?d2" using unsent by (simp add: mail_sent_def release_same)
    ultimately have "delivers c run email (settle_with_authority u now c result run email ob (attempts j) a d)
        (SettledRetried, Pending, status r, False)"
      by (intro deliversI [where f = ?f and d = ?d1 and d' = ?d2, OF _ lj(1) ok(1)]) simp_all
    then show ?thesis using 2 by simp
  next
    case 3
    obtain d' q where s: "settle_delivery_review now c result run ob (expected_run_status (ob_purpose ob)) (?rel ReleaseReview) = Inr (SettledDone, d')"
      "db_jobs d' = update_rows (held (cj_id c) (cj_token c)) (finish_row now Done (Some (diagnostic_code result))) (db_jobs (?rel ReleaseReview))"
      "load_run run d' = Some q" "status q = NEEDS_OPERATOR" "db_outbound d' = db_outbound (?rel ReleaseReview)"
      by (rule settle_delivery_review_ok [OF ok(2) lj(2) lr(2) ctx(4)])
    have "settle_with_authority u now c result run email ob (attempts j) a d = Inr (SettledDone, d')"
      using 3 own next_attempt [OF tries] s(1)
      by (auto simp: settle_with_authority_def release_handoff_to_review_def)
    moreover have "\<not> mail_sent email d'" using unsent s(5) by (simp add: mail_sent_def release_same)
    ultimately have "delivers c run email (settle_with_authority u now c result run email ob (attempts j) a d)
        (SettledDone, Done, NEEDS_OPERATOR, False)"
      by (intro deliversI [where f = "finish_row now Done (Some (diagnostic_code result))", OF _ lj(2) ok(2) s(3,2)]) (use s in simp_all)
    then show ?thesis using 3 by auto
  qed
qed

text \<open>The settlement follows the verdict when its three building blocks do: retiring an invalid context, accepting the
  mail and opening a review.\<close>

lemma settlement_follows_verdict:
  assumes "db_ok d" "locked_job c d = Some j" "delivery_context j c d = Some (run, email, ob, r)"
    "load_roster_for_business (business_id r) (db_staff d) = Inr ros"
    "delivers c run email (Inr (SettledInvalid, d\<lparr>db_jobs := update_rows (held (cj_id c) (cj_token c))
        (finish_row now Done (Some ''delivery:invalid_context'')) (db_jobs d)\<rparr>)) (SettledInvalid, Done, status r, False)"
    "delivers c run email (mail_accepted u now c run email ob d)
      (SettledDone, Done, if ob_purpose ob = PurposeConfirmation then RECONCILED else AWAITING_REPLY, True)"
    "delivers c run email (settle_delivery_review now c result run ob (expected_run_status (ob_purpose ob)) d)
      (SettledDone, Done, NEEDS_OPERATOR, False)"
  shows "delivers c run email (settle_outbound_delivery_job u now c result d)
      (delivery_verdict now result ob r (attempts j) (active_handoff_of run (db_handoffs d) \<noteq> None)
          (lock_current_handoff c run email (ob_snapshot ob) (ob_epoch ob) d \<noteq> None))"
proof -
  note unf = settle_outbound_unfold [OF assms(2,3)] delivery_verdict_def Let_def
  consider "reason result = DeliveryRecordOnly"
    | "reason result \<noteq> DeliveryRecordOnly" "pre_provider_expiry now result ob r \<and> active_handoff_of run (db_handoffs d) = None"
    | "reason result \<noteq> DeliveryRecordOnly" "\<not> (pre_provider_expiry now result ob r \<and> active_handoff_of run (db_handoffs d) = None)"
      "lock_current_handoff c run email (ob_snapshot ob) (ob_epoch ob) d = None"
    | a where "reason result \<noteq> DeliveryRecordOnly" "\<not> (pre_provider_expiry now result ob r \<and> active_handoff_of run (db_handoffs d) = None)"
      "lock_current_handoff c run email (ob_snapshot ob) (ob_epoch ob) d = Some a"
    by blast
  then show ?thesis
  proof cases
    case 1
    then show ?thesis using assms(5,6) by (cases "record_only r") (simp_all add: unf)
  next
    case 2
    then show ?thesis using assms(7) by (simp add: unf)
  next
    case 3
    then have "\<not> (pre_provider_expiry now result ob r \<and> \<not> active_handoff_of run (db_handoffs d) \<noteq> None)" by simp
    with 3 assms(5) show ?thesis unfolding unf by (simp only: if_True if_False if_not_P option.case simp_thms refl)
  next
    case 4
    then have "\<not> (pre_provider_expiry now result ob r \<and> \<not> active_handoff_of run (db_handoffs d) \<noteq> None)" by simp
    with 4 with_authority_ok [OF assms(1-4) 4(3), of u now result] show ?thesis
      unfolding unf by (simp only: if_True if_False if_not_P option.case option.distinct simp_thms refl)
  qed
qed

text \<open>C12. The delivery table: when the leased job, the reserved slot and the run are in step, the
  settlement returns, gives up the lease and leaves exactly the state the outcome of the
  provider call asks for. The mail is marked sent, and a confirmed run reconciled, only on an
  accepted call under the exact fence or on a record-only run; a replayable failure keeps the
  run and schedules the next slot; everything else goes to an operator; a result whose fence
  is gone retires the job and touches nothing else.\<close>

theorem delivery_settlement_table:
  assumes "db_ok d" "locked_job c d = Some j" "delivery_context j c d = Some (run, email, ob, r)"
    "load_roster_for_business (business_id r) (db_staff d) = Inr ros"
  shows "\<exists>out d' k q. settle_outbound_delivery_job u now c result d = Inr (out, d')
    \<and> get_job (cj_id c) (db_jobs d') = Some k \<and> load_run run d' = Some q
    \<and> (\<forall>x \<in> set (db_jobs d'). \<not> held (cj_id c) (cj_token c) x)
    \<and> (out, job_state k, status q, mail_sent email d') =
        delivery_verdict now result ob r (attempts j) (active_handoff_of run (db_handoffs d) \<noteq> None)
          (lock_current_handoff c run email (ob_snapshot ob) (ob_epoch ob) d \<noteq> None)"
proof -
  note ctx = delivery_context_Some [OF assms(3)]
  have unsent: "\<not> mail_sent email d" by (rule reservation_not_sent(1) [OF assms(1) ctx(1,2)])
  let ?inv = "d\<lparr>db_jobs := update_rows (held (cj_id c) (cj_token c)) (finish_row now Done (Some ''delivery:invalid_context'')) (db_jobs d)\<rparr>"
  have invalid: "delivers c run email (Inr (SettledInvalid, ?inv)) (SettledInvalid, Done, status r, False)"
    by (rule deliversI [where f = "finish_row now Done (Some ''delivery:invalid_context'')", OF refl assms(2,1)])
      (use unsent ctx(3) in simp_all)
  obtain d1 q1 where m: "mail_accepted u now c run email ob d = Inr (SettledDone, d1)"
      "db_jobs d1 = update_rows (held (cj_id c) (cj_token c)) (finish_row now Done None) (db_jobs d)"
      "load_run run d1 = Some q1" "status q1 = (if ob_purpose ob = PurposeConfirmation then RECONCILED else status r)" "mail_sent email d1"
    by (rule mail_accepted_ok [OF assms(1,2) ctx(1,2,3,4) assms(4)])
  have accepted: "delivers c run email (mail_accepted u now c run email ob d)
      (SettledDone, Done, if ob_purpose ob = PurposeConfirmation then RECONCILED else AWAITING_REPLY, True)"
    by (rule deliversI [where f = "finish_row now Done None", OF m(1) assms(2,1) m(3,2)])
      (use m ctx(4) in \<open>simp_all add: expected_run_status_def\<close>)
  obtain d2 q2 where s: "settle_delivery_review now c result run ob (expected_run_status (ob_purpose ob)) d = Inr (SettledDone, d2)"
      "db_jobs d2 = update_rows (held (cj_id c) (cj_token c)) (finish_row now Done (Some (diagnostic_code result))) (db_jobs d)"
      "load_run run d2 = Some q2" "status q2 = NEEDS_OPERATOR" "db_outbound d2 = db_outbound d"
    by (rule settle_delivery_review_ok [OF assms(1,2) ctx(3,4)])
  have review: "delivers c run email (settle_delivery_review now c result run ob (expected_run_status (ob_purpose ob)) d)
      (SettledDone, Done, NEEDS_OPERATOR, False)"
    by (rule deliversI [where f = "finish_row now Done (Some (diagnostic_code result))", OF s(1) assms(2,1) s(3,2)])
      (use s unsent mail_sent_cong [OF s(5)] in simp_all)
  from settlement_follows_verdict [OF assms invalid accepted review] show ?thesis by (auto simp: delivers_def)
qed

text \<open>A confirmation of an approved run, reserved at the epoch of the run.\<close>

definition mail_job :: job where
  "mail_job = \<lparr>job_id = 1, job_kind_of = SendOutbound, dedup_key = send_outbound_dedup_key 3, job_run_id = Some 9,
     job_email_id = Some 3, job_resolution_id = None, job_event_id = None, job_business_id = None, priority = 100,
     job_state = Leased, attempts = 1, max_attempts = 8, available_at = 0, lease_token = Some 11,
     leased_until = Some (seconds 900), last_error = None, job_updated_at = 0\<rparr>"

definition mail_slot :: outbound where
  "mail_slot = \<lparr>ob_email = 3, ob_run = 9, ob_snapshot = 4, ob_purpose = PurposeConfirmation, ob_round = 0, ob_epoch = 0,
     ob_state = Reserved, ob_reserved_at = 0, ob_message_id = ''<m@x>'',
     ob_envelope = sample_envelope, ob_acknowledged = None\<rparr>"

definition mail_db :: db where
  "mail_db = empty_db\<lparr>db_jobs := [mail_job], db_runs := [sample_run\<lparr>status := APPROVED\<rparr>], db_outbound := [mail_slot]\<rparr>"

lemma mail_facts:
  "db_ok mail_db" "locked_job (claim_of 11 mail_job) mail_db = Some mail_job"
  "delivery_context mail_job (claim_of 11 mail_job) mail_db = Some (9, 3, mail_slot, sample_run\<lparr>status := APPROVED\<rparr>)"
  "load_roster_for_business (business_id (sample_run\<lparr>status := APPROVED\<rparr>)) (db_staff mail_db) = Inr \<lparr>roster_business = 7, roster_employees = []\<rparr>"
  by (simp_all add: db_ok_def mail_db_def empty_db_def mail_job_def mail_slot_def row_ok_def lease_coherent_def context_ok_def sample_run_def
      claim_of_def locked_job_def held_def delivery_context_def lock_outbound_reservation_def load_run_def expected_run_status_def
      load_roster_for_business_def roster_valid_def Let_def)

theorem delivery_settlement_table_witness:
  "\<exists>d'. settle_outbound_delivery_job ascii (seconds (21 * 3600)) (claim_of 11 mail_job) (delivery_terminal DeliveryAuthorizationExpired) mail_db
     = Inr (SettledDone, d') \<and> \<not> mail_sent 3 d'"
  using delivery_settlement_table [OF mail_facts, of ascii "seconds (21 * 3600)" "delivery_terminal DeliveryAuthorizationExpired"]
  by (auto simp: delivery_verdict_def delivery_terminal_def default_result_def pre_provider_expiry_def sample_run_def
      replay_window_open_def mail_slot_def replay_window_def mail_db_def empty_db_def active_handoff_of_def Let_def)

subsection \<open>Expired leases\<close>

lemma expired_is_taken_up:
  assumes "row_ok j" "expired now j" "0 < max_attempts j"
  shows "claimable now j \<noteq> reapable now j"
  using assms by (auto simp: claimable_def reapable_def row_ok_def)

lemma reap_row_Inr:
  assumes "reap_row now j d = Inr (out, d')"
  shows "out = Some SettledReaped" "db_runs d' = db_runs d"
    "db_jobs d' = update_rows (\<lambda>k. job_id k = job_id j \<and> reapable now k) (settle_row now Dead) (db_jobs d)"
  using assms by (auto simp: reap_row_def res_simps Let_def)

lemma reap_candidate:
  assumes "reap_candidates now locked d = j # rest"
  shows "j \<in> set (db_jobs d)" "reapable now j" "job_id j \<notin> set locked"
proof -
  have "j \<in> set (reap_candidates now locked d)" using assms by simp
  then show "j \<in> set (db_jobs d)" "reapable now j" "job_id j \<notin> set locked" by (simp_all add: reap_candidates_def)
qed

lemma release_handoff_Inr:
  assumes "must (release_handoff_to_review now a d) = Inr d1"
  shows "db_jobs d1 = db_jobs d" "db_runs d1 = db_runs d"
  using assms release_same(1,2) [of now ReleaseReview a d] by (auto simp: release_handoff_to_review_def)

lemma load_run_set_status:
  assumes "load_run i d = Some r" "must (cas_run i s f e) = Inr e'" "db_runs e = db_runs d" "\<And>r. run_id (f r) = run_id r" "status r = s"
  shows "load_run i e' = Some (f r)"
proof -
  have l: "load_run i e = Some r" using assms(1,3) by (simp add: load_run_def)
  have "snd (cas_run i s f e) = e'" using assms(2) by simp
  then show ?thesis using load_run_cas [OF l assms(4), of s] assms(5) by simp
qed

lemma cas_run_jobs: "must (cas_run i s f d) = Inr e \<Longrightarrow> db_jobs e = db_jobs d"
  by (auto simp: cas_run_def)

lemma reaped_run_is_settled:
  assumes "reap_expired_final_attempt now locked d = Inr (Some SettledReaped, d')" "db_ok d"
  obtains j k where "j \<in> set (db_jobs d)" "reapable now j" "get_job (job_id j) (db_jobs d') = Some k" "job_state k = Dead" "lease_token k = None"
    "\<And>run. job_run_id j = Some run \<Longrightarrow> \<exists>q. load_run run d' = Some q \<and> status q \<notin> set FINAL_LEASE_ERROR_STATUSES"
proof -
  obtain j rest where c: "reap_candidates now locked d = j # rest"
    using assms(1) by (cases "reap_candidates now locked d") (auto simp: reap_expired_final_attempt_def)
  note j = reap_candidate [OF c]
  obtain token where tok: "lease_token j = Some token"
    using j assms(2) by (auto simp: db_ok_def row_ok_def lease_coherent_def reapable_def expired_def)
  have "\<exists>e. reap_row now j e = Inr (Some SettledReaped, d') \<and> db_jobs e = db_jobs d
      \<and> (\<forall>run. job_run_id j = Some run \<longrightarrow> (\<exists>q. load_run run e = Some q \<and> status q \<notin> set FINAL_LEASE_ERROR_STATUSES))"
  proof (cases "job_kind_of j = Ingest \<or> job_kind_of j = SendOutbound")
    case True
    then consider "job_kind_of j = Ingest" | "job_kind_of j = SendOutbound" by blast
    then show ?thesis
    proof cases
      case 1
      with assms(1) tok c show ?thesis by (auto simp: reap_expired_final_attempt_def split: if_splits)
    next
      case 2
      then have r: "reap_delivery now j (claim_of token j) d = Inr (Some SettledReaped, d')"
        using assms(1) tok c by (simp add: reap_expired_final_attempt_def)
      then obtain run email ob r where ctx: "delivery_context j (claim_of token j) d = Some (run, email, ob, r)"
        by (auto simp: reap_delivery_def res_simps Let_def split: option.splits)
      then obtain a d1 d2 where s: "must (release_handoff_to_review now a d) = Inr d1"
        "must (cas_run run (expected_run_status (ob_purpose ob)) (to_review (ob_purpose ob) ''final_attempt_lease_expired'')
           (append_delivery_attempt (ob_snapshot ob) AttemptNeedsOperator ''final_attempt_lease_expired'' d1)) = Inr d2"
        "reap_row now j d2 = Inr (Some SettledReaped, d')"
        using r by (auto simp: reap_delivery_def res_simps Let_def simp del: must_Inr split: option.splits)
      note same = release_handoff_Inr [OF s(1)]
      have "load_run run d2 = Some (to_review (ob_purpose ob) ''final_attempt_lease_expired'' r)"
        by (rule load_run_set_status [OF delivery_context_Some(3) [OF ctx] s(2)])
          (use same delivery_context_Some(4) [OF ctx] in \<open>simp_all add: to_review_def\<close>)
      moreover have "db_jobs d2 = db_jobs d" using cas_run_jobs [OF s(2)] same by simp
      ultimately show ?thesis using s(3) delivery_context_Some(7) [OF ctx] by (auto simp: to_review_def FINAL_LEASE_ERROR_STATUSES_def)
    qed
  next
    case False
    then obtain r where "Option.bind (job_run_id j) (\<lambda>i. load_run i d) = Some r"
      using assms(1) tok c by (auto simp: reap_expired_final_attempt_def split: option.splits)
    then obtain run where r: "job_run_id j = Some run" "load_run run d = Some r" by (auto simp: Option.bind_eq_Some_conv)
    show ?thesis
    proof (cases "status r \<in> set FINAL_LEASE_ERROR_STATUSES")
      case True
      then obtain why detail e where e: "must (cas_run run (status r) (fail_run why detail) d) = Inr e" "reap_row now j e = Inr (Some SettledReaped, d')"
        using assms(1) tok c False r load_run_Some [OF r(2)]
        by (auto simp: reap_expired_final_attempt_def res_simps set_run_error_def simp del: must_Inr)
      have "load_run run e = Some (fail_run why detail r)"
        by (rule load_run_set_status [OF r(2) e(1)]) (simp_all add: fail_run_def)
      with e(2) cas_run_jobs [OF e(1)] r(1) show ?thesis by (auto simp: fail_run_def FINAL_LEASE_ERROR_STATUSES_def)
    next
      case kept: False
      then have "reap_row now j d = Inr (Some SettledReaped, d')"
        using assms(1) tok c False r by (auto simp: reap_expired_final_attempt_def)
      with kept r show ?thesis by auto
    qed
  qed
  then obtain e where e: "reap_row now j e = Inr (Some SettledReaped, d')" "db_jobs e = db_jobs d"
    "\<And>run. job_run_id j = Some run \<Longrightarrow> \<exists>q. load_run run e = Some q \<and> status q \<notin> set FINAL_LEASE_ERROR_STATUSES" by blast
  have g: "get_job (job_id j) (db_jobs d) = Some j" using get_job_member j(1) assms(2) by (simp add: db_ok_def)
  have "get_job (job_id j) (db_jobs d') = Some (settle_row now Dead j)"
    unfolding reap_row_Inr(3) [OF e(1)] e(2)
    using get_job_update [of "settle_row now Dead" "job_id j" "\<lambda>k. job_id k = job_id j \<and> reapable now k" "db_jobs d"] g j(2)
    by (simp add: settle_row_def)
  moreover have "load_run run d' = load_run run e" for run using reap_row_Inr(2) [OF e(1)] by (simp add: load_run_def)
  ultimately show ?thesis using that [OF j(1,2)] e(3) by (simp add: settle_row_def)
qed

text \<open>C23. No lease is forgotten when its worker dies: an expired lease of a coherent row is either
  claimable again (attempts are left) or reapable (it was the last one), never both; when the
  reaper takes a row, the job ends dead without a lease, and the run it carried is no longer
  in a status that only a worker could move (received, extracting, computed, approved).\<close>

theorem expired_leases_are_resolved:
  assumes "db_ok d" "reap_expired_final_attempt now locked d = Inr (Some SettledReaped, d')"
  shows "(\<forall>j \<in> set (db_jobs d). expired now j \<and> 0 < max_attempts j \<longrightarrow> claimable now j \<noteq> reapable now j)
    \<and> (\<exists>j \<in> set (db_jobs d). reapable now j \<and> (\<exists>k. get_job (job_id j) (db_jobs d') = Some k \<and> job_state k = Dead \<and> lease_token k = None)
        \<and> (\<forall>run. job_run_id j = Some run \<longrightarrow>
             (\<exists>q. load_run run d' = Some q \<and> status q \<notin> {RECEIVED, EXTRACTING, COMPUTED, APPROVED})))"
proof -
  obtain j k where j: "j \<in> set (db_jobs d)" "reapable now j" "get_job (job_id j) (db_jobs d') = Some k" "job_state k = Dead" "lease_token k = None"
    "\<And>run. job_run_id j = Some run \<Longrightarrow> \<exists>q. load_run run d' = Some q \<and> status q \<notin> set FINAL_LEASE_ERROR_STATUSES"
    by (rule reaped_run_is_settled [OF assms(2,1)]) blast
  have "\<forall>run. job_run_id j = Some run \<longrightarrow>
             (\<exists>q. load_run run d' = Some q \<and> status q \<notin> {RECEIVED, EXTRACTING, COMPUTED, APPROVED})"
    using j(6) by (simp add: FINAL_LEASE_ERROR_STATUSES_def)
  moreover have "\<forall>j \<in> set (db_jobs d). expired now j \<and> 0 < max_attempts j \<longrightarrow> claimable now j \<noteq> reapable now j"
    using assms(1) expired_is_taken_up by (auto simp: db_ok_def)
  ultimately show ?thesis using j(1-5) by blast
qed

lemma sample_reap:
  "\<exists>d'. reap_expired_final_attempt (seconds 901) [] sample_db = Inr (Some SettledReaped, d')"
  by (simp add: reap_expired_final_attempt_def reap_candidates_def reapable_def expired_def sample_db_def empty_db_def claim_row_def sample_job_def
      sample_run_def load_run_def FINAL_LEASE_ERROR_STATUSES_def set_run_error_def cas_run_def must_def fail_run_def reap_row_def
      update_rows_def Let_def)

theorem expired_leases_are_resolved_witness:
  "\<exists>d' q. reap_expired_final_attempt (seconds 901) [] sample_db = Inr (Some SettledReaped, d') \<and> load_run 9 d' = Some q \<and> status q \<noteq> EXTRACTING"
proof -
  obtain d' where d': "reap_expired_final_attempt (seconds 901) [] sample_db = Inr (Some SettledReaped, d')" using sample_reap by blast
  have "db_jobs sample_db = [claim_row 0 (seconds 900) 11 sample_job]" "job_run_id (claim_row 0 (seconds 900) 11 sample_job) = Some 9"
    by (simp_all add: sample_db_def empty_db_def claim_row_def sample_job_def)
  with expired_leases_are_resolved [OF sample_db_facts(1) d'] show ?thesis using d' by auto
qed

end
