(* ===== verification/Worker.thy ===== *)
theory Worker
  imports Settlement
begin

section \<open>Handlers, the drain step and the worker's shutdown\<close>

text \<open>
  \<open>app/queue/drain.py\<close>, \<open>dispatch.py\<close>, the handlers \<open>send_outbound.py\<close> and \<open>pipeline.py\<close>,
  the provider call of \<open>app/email/gateway.py\<close> and \<open>stop\<close> of \<open>worker.py\<close>. The provider
  (Resend) and the pipeline body are arguments; a handler that raises is \<open>Inl\<close> with the
  database its committed transactions left behind.
\<close>

subsection \<open>The provider call\<close>

definition SEND_TIMEOUT :: int where
  "SEND_TIMEOUT = seconds 10"

definition SEND_SAFETY_MARGIN :: int where
  "SEND_SAFETY_MARGIN = seconds 5"

definition send_reserved_outbound_snapshot :: "instant \<Rightarrow> (authorization \<Rightarrow> exc option) \<Rightarrow> authorization \<Rightarrow> pipeline_result" where
  "send_reserved_outbound_snapshot clock provider a =
     (if au_not_after a \<le> clock + SEND_TIMEOUT + SEND_SAFETY_MARGIN
      then default_result\<lparr>stage := StageDelivery, reason := DeliveryAuthorizationExpired\<rparr>
      else (case provider a of
              Some e \<Rightarrow> classify_pipeline_exception StageDelivery e
            | None \<Rightarrow> default_result\<lparr>outcome := Ok, stage := StageDelivery\<rparr>))"

subsection \<open>Handlers\<close>

text \<open>\<open>now\<close> is the clock of the authorization, \<open>clock\<close> the one read before the provider call.\<close>

definition handle_send_outbound ::
  "instant \<Rightarrow> uuid \<Rightarrow> instant \<Rightarrow> (authorization \<Rightarrow> exc option) \<Rightarrow> claim \<Rightarrow> db \<Rightarrow> pipeline_result res \<times> db" where
  "handle_send_outbound now hid clock provider c d =
     (if cj_kind c \<noteq> SendOutbound \<or> cj_run_id c = None \<or> cj_email_id c = None
         \<or> cj_resolution_id c \<noteq> None \<or> cj_event_id c \<noteq> None
      then (Inl ValueError, d)
      else (case authorize_outbound_provider_handoff now hid c d of
              Inl e \<Rightarrow> (Inl e, d)
            | Inr (Refused RefusedWindowClosed h, d1) \<Rightarrow>
                (Inr \<lparr>outcome = Terminal, stage = StageDelivery, reason = DeliveryAuthorizationExpired\<rparr>, d1)
            | Inr (Refused why h, d1) \<Rightarrow> (Inr bounded_noop, d1)
            | Inr (RecordOnly run, d1) \<Rightarrow>
                (Inr (if cj_run_id c = Some run then \<lparr>outcome = Ok, stage = StageDelivery, reason = DeliveryRecordOnly\<rparr>
                      else bounded_noop), d1)
            | Inr (Authorized a, d1) \<Rightarrow> (Inr (send_reserved_outbound_snapshot clock provider a), d1)))"

definition handle_run_pipeline :: "(uuid \<Rightarrow> db \<Rightarrow> pipeline_result \<times> db) \<Rightarrow> claim \<Rightarrow> db \<Rightarrow> pipeline_result res \<times> db" where
  "handle_run_pipeline body c d =
     (case cj_run_id c of
        None \<Rightarrow> (Inl ValueError, d)
      | Some run \<Rightarrow>
          (let d1 = (if 1 < cj_attempts c then update_run run (\<lambda>r. snd (rewind_for_reclaim r)) d else d);
               (claimed, d2) = cas_run run RECEIVED (set_status EXTRACTING) d1
           in if \<not> claimed then (Inr bounded_noop, d1)
              else (let (r, d3) = body run d2 in (Inr r, d3))))"

subsection \<open>The drain step\<close>

text \<open>\<open>jitter\<close> is the draw of \<open>random.uniform(0.5, 1.5)\<close>; the delay is in microseconds.\<close>

definition BACKOFF_BASE :: int where
  "BACKOFF_BASE = seconds 5"

definition BACKOFF_CAP :: int where
  "BACKOFF_CAP = seconds 300"

definition backoff_seconds :: "rat \<Rightarrow> int \<Rightarrow> int" where
  "backoff_seconds jitter tries = \<lfloor>of_int (min BACKOFF_CAP (BACKOFF_BASE * 2 ^ nat (max (tries - 1) 0))) * jitter\<rfloor>"

datatype drain_outcome =
    DrainEmpty | DrainDone | DrainRetried | DrainDead | DrainFenced | DrainLostLease | DrainInvalidContext | DrainReaped

fun map_settlement_outcome :: "settlement \<Rightarrow> drain_outcome" where
  "map_settlement_outcome SettledDone = DrainDone"
| "map_settlement_outcome SettledRetried = DrainRetried"
| "map_settlement_outcome SettledDead = DrainDead"
| "map_settlement_outcome SettledFenced = DrainFenced"
| "map_settlement_outcome SettledLostLease = DrainLostLease"
| "map_settlement_outcome SettledInvalid = DrainInvalidContext"
| "map_settlement_outcome SettledReaped = DrainReaped"

definition lease_is_settled :: "job_kind \<Rightarrow> settlement \<Rightarrow> bool" where
  "lease_is_settled kind out \<longleftrightarrow>
     (if out \<in> {SettledDone, SettledRetried, SettledDead, SettledLostLease, SettledInvalid} then True
      else kind \<noteq> SendOutbound \<and> out = SettledFenced)"

definition settle_dispatch ::
  "unicode \<Rightarrow> instant \<Rightarrow> rat \<Rightarrow> claim \<Rightarrow> pipeline_result res \<Rightarrow> db \<Rightarrow> (settlement \<times> db) res" where
  "settle_dispatch u now jitter c res d =
     (case res of
        Inl e \<Rightarrow>
          if cj_kind c = SendOutbound then settle_outbound_delivery_job u now c (default_result\<lparr>stage := StageDelivery\<rparr>) d
          else settle_infrastructure_failure now c (backoff_seconds jitter (cj_attempts c)) StageUnknown Unclassified d
      | Inr r \<Rightarrow>
          if cj_kind c = SendOutbound then settle_outbound_delivery_job u now c r d
          else settle_pipeline_job now c r (backoff_seconds jitter (cj_attempts c)) d)"

text \<open>
  \<open>claims\<close> gives the arguments of the claim (clock, lease, new token, rows locked elsewhere);
  \<open>held_tokens\<close> are the tokens this process remembers, which a shutdown hands back.
\<close>

record drain_clock =
  dc_now :: instant
  dc_lease :: int
  dc_token :: uuid
  dc_locked :: "uuid list"
  dc_settle :: instant
  dc_jitter :: rat

definition drain_once ::
  "unicode \<Rightarrow> drain_clock \<Rightarrow> (claim \<Rightarrow> db \<Rightarrow> pipeline_result res \<times> db) \<Rightarrow> uuid list \<Rightarrow> db \<Rightarrow> drain_outcome res \<times> uuid list \<times> db" where
  "drain_once u k handle held_tokens d =
     (case claim_job (dc_now k) (dc_lease k) (dc_token k) (dc_locked k) (db_jobs d) of
        (None, _) \<Rightarrow>
          (case reap_expired_final_attempt (dc_now k) (dc_locked k) d of
             Inl e \<Rightarrow> (Inl e, held_tokens, d)
           | Inr (None, d1) \<Rightarrow> (Inr DrainEmpty, held_tokens, d1)
           | Inr (Some s, d1) \<Rightarrow> (Inr (map_settlement_outcome s), held_tokens, d1))
      | (Some c, js) \<Rightarrow>
          (let tokens = List.insert (cj_token c) held_tokens; (res, d2) = handle c (d\<lparr>db_jobs := js\<rparr>)
           in (case settle_dispatch u (dc_settle k) (dc_jitter k) c res d2 of
                 Inl e \<Rightarrow> (Inl e, tokens, d2)
               | Inr (out, d3) \<Rightarrow>
                   (Inr (map_settlement_outcome out),
                    if lease_is_settled (cj_kind c) out then removeAll (cj_token c) tokens else tokens, d3))))"

definition dispatch_handle ::
  "(claim \<Rightarrow> db \<Rightarrow> pipeline_result res \<times> db) \<Rightarrow> (claim \<Rightarrow> db \<Rightarrow> pipeline_result res \<times> db) \<Rightarrow> (claim \<Rightarrow> db \<Rightarrow> pipeline_result res \<times> db)
   \<Rightarrow> (claim \<Rightarrow> db \<Rightarrow> pipeline_result res \<times> db) \<Rightarrow> (claim \<Rightarrow> db \<Rightarrow> pipeline_result res \<times> db) \<Rightarrow> claim \<Rightarrow> db \<Rightarrow> pipeline_result res \<times> db" where
  "dispatch_handle run_pipeline resume_reply operator_resume ingest send_outbound c d =
     (case cj_kind c of
        RunPipeline \<Rightarrow> run_pipeline c d
      | ResumeReply \<Rightarrow> resume_reply c d
      | OperatorResume \<Rightarrow> operator_resume c d
      | Ingest \<Rightarrow> ingest c d
      | SendOutbound \<Rightarrow> send_outbound c d)"

text \<open>\<open>worker.stop\<close>: the leases of all remembered tokens go back, also when a thread still runs.\<close>

definition worker_stop :: "instant \<Rightarrow> uuid list \<Rightarrow> db \<Rightarrow> db" where
  "worker_stop now held_tokens d = d\<lparr>db_jobs := snd (release_leases now held_tokens (db_jobs d))\<rparr>"

subsection \<open>The jittered delay\<close>

lemma backoff_bounds:
  assumes "1 / 2 \<le> jitter" "jitter \<le> 3 / 2"
  shows "seconds 5 div 2 \<le> backoff_seconds jitter tries \<and> backoff_seconds jitter tries \<le> seconds 450"
proof -
  let ?b = "min BACKOFF_CAP (BACKOFF_BASE * 2 ^ nat (max (tries - 1) 0))"
  have "(1 :: int) \<le> 2 ^ nat (max (tries - 1) 0)" by simp
  then have lo: "5000000 \<le> ?b" and hi: "?b \<le> 300000000" by (simp_all add: BACKOFF_CAP_def BACKOFF_BASE_def seconds_def)
  have rlo: "(5000000 :: rat) \<le> of_int ?b" and rhi: "of_int ?b \<le> (300000000 :: rat)"
    using lo hi of_int_le_iff [of 5000000 ?b, where ?'a = rat] of_int_le_iff [of ?b 300000000, where ?'a = rat] by simp_all
  have "(5000000 :: rat) * (1 / 2) \<le> of_int ?b * jitter" using rlo assms(1) by (intro mult_mono) simp_all
  then have "(2500000 :: rat) \<le> of_int ?b * jitter" by simp
  moreover have "of_int ?b * jitter \<le> (300000000 :: rat) * (3 / 2)" using rlo rhi assms by (intro mult_mono) simp_all
  then have "of_int ?b * jitter \<le> (450000000 :: rat)" by simp
  ultimately show ?thesis
    unfolding backoff_seconds_def by (simp add: seconds_def le_floor_iff floor_le_iff)
qed

subsection \<open>The row a claim leaves\<close>

lemma db_ok_jobs:
  assumes "db_ok d" "distinct (map job_id js)" "\<forall>j \<in> set js. row_ok j"
  shows "db_ok (d\<lparr>db_jobs := js\<rparr>)"
  using assms by (simp add: db_ok_def)

lemma locked_job_row:
  assumes "distinct (map job_id (db_jobs d))" "k \<in> set (db_jobs d)" "held (cj_id c) (cj_token c) k"
  shows "locked_job c d = Some k"
proof (cases "locked_job c d")
  case None
  with assms(2,3) show ?thesis by (auto simp: locked_job_def first_match_None)
next
  case (Some x)
  note x = locked_job_Some [OF Some]
  have "x = k" by (rule distinct_key [OF assms(1)]) (use x assms(2,3) in \<open>auto simp: held_def\<close>)
  with Some show ?thesis by simp
qed

lemma claim_locked:
  assumes "db_ok d" "claim_job now lease token locked (db_jobs d) = (Some c, js)"
  obtains j where "j \<in> set (db_jobs d)" "claimable now j" "c = claim_of token (claim_row now lease token j)"
    "locked_job c (d\<lparr>db_jobs := js\<rparr>) = Some (claim_row now lease token j)" "db_ok (d\<lparr>db_jobs := js\<rparr>)"
proof -
  from assms(2) obtain j where j: "j \<in> set (db_jobs d)" "claimable now j" "job_id j \<notin> set locked"
    "c = claim_of token (claim_row now lease token j)"
    "js = update_rows (\<lambda>r. job_id r = job_id j) (claim_row now lease token) (db_jobs d)"
    by (rule claim_job_Some) blast
  have ids: "map job_id js = map job_id (db_jobs d)" unfolding j(5) by (rule map_update_rows) (simp add: claim_row_def)
  have "row_ok x" if "x \<in> set js" for x
    using that unfolding j(5)
  proof (rule update_rowsE)
    fix y assume y: "y \<in> set (db_jobs d)" "job_id y = job_id j" "x = claim_row now lease token y"
    then have "y = j" using distinct_key [of job_id "db_jobs d" y j] j(1) assms(1) by (simp add: db_ok_def)
    then have "row_move {} y (claim_row now lease token y)" using j(2) by (intro move_claim) simp_all
    from row_move_ok [OF this] y assms(1) show "row_ok x" by (simp add: db_ok_def)
  next
    assume "x \<in> set (db_jobs d)"
    with assms(1) show "row_ok x" by (simp add: db_ok_def)
  qed
  then have ok: "db_ok (d\<lparr>db_jobs := js\<rparr>)" using assms(1) ids by (intro db_ok_jobs) (simp_all add: db_ok_def)
  have "claim_row now lease token j \<in> set js" unfolding j(5) using j(1) by (intro update_rows_hit) simp_all
  then have "locked_job c (d\<lparr>db_jobs := js\<rparr>) = Some (claim_row now lease token j)"
    using ok by (intro locked_job_row) (simp_all add: db_ok_def held_def j(4) claim_of_def claim_row_def)
  with that j ok show ?thesis by blast
qed

lemma drain_claimed:
  assumes "claim_job (dc_now k) (dc_lease k) (dc_token k) (dc_locked k) (db_jobs d) = (Some c, js)"
    "handle c (d\<lparr>db_jobs := js\<rparr>) = (res, d2)" "settle_dispatch u (dc_settle k) (dc_jitter k) c res d2 = Inr (out, d3)"
  shows "drain_once u k handle ts d = (Inr (map_settlement_outcome out),
    if lease_is_settled (cj_kind c) out then removeAll (cj_token c) (List.insert (cj_token c) ts) else List.insert (cj_token c) ts, d3)"
  using assms by (simp add: drain_once_def)

text \<open>A failure before the pipeline starts leaves the lease behind: when the handler of a
  pipeline job raises while its run is not extracting (it could not even claim it), the
  settlement is fenced out by the status of the run, not by the lease. The step reports a
  fenced job and forgets the token, but the row is still leased to this worker, so neither a
  retry delay nor a shutdown gives it back: the job waits for the lease to expire.\<close>

theorem early_failure_forgets_a_held_lease:
  assumes "db_ok d" "claim_job (dc_now k) (dc_lease k) (dc_token k) (dc_locked k) (db_jobs d) = (Some c, js)"
    "cj_kind c \<notin> {SendOutbound, Ingest}" "cj_run_id c = Some run" "load_run run d = Some r" "status r \<noteq> EXTRACTING"
    "handle c (d\<lparr>db_jobs := js\<rparr>) = (Inl e, d\<lparr>db_jobs := js\<rparr>)"
  shows "drain_once u k handle ts d = (Inr DrainFenced, removeAll (dc_token k) (List.insert (dc_token k) ts), d\<lparr>db_jobs := js\<rparr>)
    \<and> dc_token k \<notin> set (removeAll (dc_token k) (List.insert (dc_token k) ts)) \<and> (\<exists>j \<in> set js. held (cj_id c) (dc_token k) j)"
proof -
  let ?d = "d\<lparr>db_jobs := js\<rparr>"
  obtain j where j: "c = claim_of (dc_token k) (claim_row (dc_now k) (dc_lease k) (dc_token k) j)"
    "locked_job c ?d = Some (claim_row (dc_now k) (dc_lease k) (dc_token k) j)" "db_ok ?d"
    by (rule claim_locked [OF assms(1,2)]) blast
  let ?row = "claim_row (dc_now k) (dc_lease k) (dc_token k) j"
  have row: "job_kind_of ?row = cj_kind c" "job_run_id ?row = Some run" "cj_token c = dc_token k"
    using assms(4) by (simp_all add: j(1) claim_of_def)
  have "settle_pipeline_job now c \<lparr>outcome = Retryable, stage = StageUnknown, reason = Unclassified\<rparr> b ?d = Inr (SettledFenced, ?d)" for now b
    by (rule settle_pipeline_fenced [OF j(3,2) row(1) _ row(2) assms(4)]) (use assms(3,5,6) row(1) in simp_all)
  then have "settle_dispatch u (dc_settle k) (dc_jitter k) c (Inl e) ?d = Inr (SettledFenced, ?d)"
    using assms(3) by (simp add: settle_dispatch_def settle_infrastructure_failure_def)
  from drain_claimed [where handle = handle, OF assms(2,7) this] show ?thesis
    using assms(3) row(3) locked_job_Some [OF j(2)] by (auto simp: lease_is_settled_def)
qed

definition fresh_clock :: drain_clock where
  "fresh_clock = \<lparr>dc_now = 0, dc_lease = seconds 900, dc_token = 11, dc_locked = [], dc_settle = seconds 1, dc_jitter = 1\<rparr>"

definition waiting_db :: db where
  "waiting_db = empty_db\<lparr>db_jobs := [sample_job], db_runs := [sample_run\<lparr>status := RECEIVED\<rparr>]\<rparr>"

theorem early_failure_forgets_a_held_lease_witness:
  "fst (drain_once ascii fresh_clock (\<lambda>c d. (Inl RuntimeError, d)) [] waiting_db) = Inr DrainFenced"
proof -
  have ok: "db_ok waiting_db"
    by (simp add: db_ok_def waiting_db_def empty_db_def row_ok_def lease_coherent_def context_ok_def sample_job_def)
  have c: "claim_job (dc_now fresh_clock) (dc_lease fresh_clock) (dc_token fresh_clock) (dc_locked fresh_clock) (db_jobs waiting_db) =
      (Some (claim_of 11 (claim_row 0 (seconds 900) 11 sample_job)), [claim_row 0 (seconds 900) 11 sample_job])"
    using sample_claim by (simp add: fresh_clock_def waiting_db_def empty_db_def)
  have "load_run 9 waiting_db = Some (sample_run\<lparr>status := RECEIVED\<rparr>)" by (simp add: load_run_def waiting_db_def empty_db_def sample_run_def)
  from early_failure_forgets_a_held_lease [OF ok c _ _ this, of "\<lambda>c d. (Inl RuntimeError, d)" RuntimeError ascii "[]"]
  show ?thesis by (simp add: claim_of_def claim_row_def sample_job_def)
qed

subsection \<open>A shutdown during a provider call\<close>

text \<open>A slot whose active handoff belongs to another token that has not expired.\<close>

lemma foreign_owner_refuses:
  assumes "locked_job c d = Some k" "leased_until k = Some until" "cj_kind c = SendOutbound" "cj_run_id c = Some run" "cj_resolution_id c = None"
    "cj_event_id c = None" "delivery_context k c d = Some (run, email, ob, r)" "\<not> record_only r" "replay_window_open now ob"
    "active_handoff_of run (db_handoffs d) = Some h" "ho_token h \<noteq> cj_token c" "now \<le> ho_owner_until h"
  shows "handle_send_outbound now hid clock provider c d = (Inr bounded_noop, d)"
proof -
  note ctx = delivery_context_Some [OF assms(7)]
  have k: "job_kind_of k = SendOutbound" "job_run_id k = Some run" "job_email_id k = Some email" "cj_email_id c = Some email"
    using assms(7) by (auto simp: delivery_context_def split: option.splits if_splits)
  have "locked_send_job c (db_jobs d) = Inr (Some (SendOutbound, Some run, Some email, until))"
    using assms(1,2) k by (simp add: locked_send_job_def locked_job_def)
  moreover have "lock_frozen_snapshot run email d = Some ob"
    using ctx(1) by (simp add: lock_frozen_snapshot_def lock_outbound_reservation_def)
  moreover have "\<exists>why. why \<noteq> RefusedWindowClosed \<and> grant_handoff now hid c run email ob (reply_epoch r) until d = (Refused why (Some (ho_id h)), d)"
    using assms(10-12) by (simp add: grant_handoff_def)
  then obtain why where "why \<noteq> RefusedWindowClosed" "grant_handoff now hid c run email ob (reply_epoch r) until d = (Refused why (Some (ho_id h)), d)"
    by blast
  ultimately have "\<exists>why. why \<noteq> RefusedWindowClosed \<and>
      authorize_outbound_provider_handoff now hid c d = Inr (Refused why (Some (ho_id h)), d)"
    using assms(3,4,8,9) ctx k by (simp add: authorize_outbound_provider_handoff_def)
  then obtain why where "why \<noteq> RefusedWindowClosed"
    "authorize_outbound_provider_handoff now hid c d = Inr (Refused why (Some (ho_id h)), d)" by blast
  then show ?thesis using assms(3-6) k by (cases why) (simp_all add: handle_send_outbound_def)
qed

lemma foreign_owner_retires:
  assumes "handoffs_ok (db_handoffs d)" "locked_job c d = Some k" "delivery_context k c d = Some (run, email, ob, r)"
    "active_handoff_of run (db_handoffs d) = Some h" "ho_token h \<noteq> cj_token c"
  shows "settle_outbound_delivery_job u now c bounded_noop d = Inr (SettledInvalid,
    d\<lparr>db_jobs := update_rows (held (cj_id c) (cj_token c)) (finish_row now Done (Some ''delivery:invalid_context'')) (db_jobs d)\<rparr>)"
proof -
  note h = active_handoff_Some [OF assms(4)]
  have "lock_current_handoff c run email s e d = None" for s e
  proof (rule ccontr)
    assume "lock_current_handoff c run email s e d \<noteq> None"
    then obtain a where "lock_current_handoff c run email s e d = Some a" by blast
    then obtain g where "first_match (\<lambda>h. ho_run h = run \<and> ho_email h = email \<and> ho_snapshot h = s \<and> ho_job h = cj_id c
          \<and> ho_epoch h = e \<and> ho_token h = cj_token c \<and> ho_released h = None) (db_handoffs d) = Some g"
      by (auto simp: lock_current_handoff_def)
    note g = first_match_SomeD [OF this]
    have "g = h" by (rule handoffs_ok_unique [OF assms(1)]) (use g h in auto)
    with g assms(5) show False by simp
  qed
  then show ?thesis
    by (simp add: settle_outbound_unfold [OF assms(2,3)] bounded_noop_def default_result_def pre_provider_expiry_def Let_def)
qed

text \<open>Handing back the lease of a row and claiming it again.\<close>

lemma stopped_then_claimed:
  assumes "db_ok d" "j \<in> set (db_jobs d)" "held i t j" "t \<in> set ts"
    "claim_job now2 lease t2 locked (db_jobs (worker_stop now1 ts d)) = (Some c, js)" "cj_id c = i"
  obtains k where "locked_job c (d\<lparr>db_jobs := js\<rparr>) = Some k" "leased_until k = Some (now2 + lease)" "db_ok (d\<lparr>db_jobs := js\<rparr>)" "cj_token c = t2"
    "job_kind_of k = job_kind_of j" "job_run_id k = job_run_id j" "job_email_id k = job_email_id j" "row_ok k"
    "cj_kind c = job_kind_of j" "cj_run_id c = job_run_id j" "cj_email_id c = job_email_id j" "cj_resolution_id c = job_resolution_id j"
    "cj_event_id c = job_event_id j"
proof -
  let ?f = "\<lambda>j. (settle_row now1 Pending j)\<lparr>available_at := now1\<rparr>"
  have ne: "ts \<noteq> []" using assms(4) by auto
  have js1: "db_jobs (worker_stop now1 ts d) = update_rows (holds_any ts) ?f (db_jobs d)"
    using ne by (simp add: worker_stop_def release_leases_def)
  have ids: "map job_id (update_rows (holds_any ts) ?f (db_jobs d)) = map job_id (db_jobs d)"
    by (rule map_update_rows) (simp add: settle_row_def)
  have ok_row: "row_ok x" if x: "x \<in> set (update_rows (holds_any ts) ?f (db_jobs d))" for x
  proof -
    from x consider y where "y \<in> set (db_jobs d)" "holds_any ts y" "x = ?f y" | "x \<in> set (db_jobs d)" by (rule update_rowsE)
    then show ?thesis
    proof cases
      case 1
      then have "row_move {} y ((settle_row now1 Pending y)\<lparr>available_at := now1, last_error := last_error y\<rparr>)"
        by (intro move_settle) (simp_all add: holds_any_def)
      then have "row_move {} y (?f y)" by (simp add: settle_row_def)
      from row_move_ok [OF this] 1 assms(1) show ?thesis by (simp add: db_ok_def)
    qed (use assms(1) in \<open>simp add: db_ok_def\<close>)
  qed
  have ok1: "db_ok (worker_stop now1 ts d)"
    using assms(1) ids ok_row js1 by (simp add: db_ok_def worker_stop_def)
  have eq: "(worker_stop now1 ts d)\<lparr>db_jobs := js\<rparr> = d\<lparr>db_jobs := js\<rparr>" by (simp add: worker_stop_def)
  obtain x where x: "x \<in> set (db_jobs (worker_stop now1 ts d))" "c = claim_of t2 (claim_row now2 lease t2 x)"
    "locked_job c (d\<lparr>db_jobs := js\<rparr>) = Some (claim_row now2 lease t2 x)" "db_ok (d\<lparr>db_jobs := js\<rparr>)"
    using claim_locked [OF ok1 assms(5)] unfolding eq by metis
  have "job_id x = i" using x(2) assms(6) by (simp add: claim_of_def claim_row_def)
  moreover have "?f j \<in> set (db_jobs (worker_stop now1 ts d))"
    unfolding js1 using assms(2-4) by (intro update_rows_hit) (auto simp: holds_any_def held_def)
  moreover have "job_id (?f j) = i" using assms(3) by (simp add: settle_row_def held_def)
  ultimately have xj: "x = ?f j"
    using distinct_key [of job_id "db_jobs (worker_stop now1 ts d)" x "?f j"] x(1) ok1 by (simp add: db_ok_def)
  have "claim_row now2 lease t2 x \<in> set js" using locked_job_Some [OF x(3)] by simp
  then have "row_ok (claim_row now2 lease t2 x)" using x(4) by (simp add: db_ok_def)
  with that [OF x(3) _ x(4)] x(2) xj show ?thesis
    by (simp add: claim_of_def claim_row_def settle_row_def)
qed

text \<open>C37. A shutdown in the middle of a provider call loses the delivery: the job goes back to pending
  at once, but the handoff of the stopped worker stays active until its lease would have
  expired. Whoever claims the job before that is refused the handoff, reports a no-op, and
  the settlement retires the job as done: the provider is not asked again, the mail stays
  reserved, the run stays where it was and the handoff stays active, with no open job left to
  move them.\<close>

theorem shutdown_release_loses_delivery:
  assumes "db_ok d" "handoffs_ok (db_handoffs d)" "j \<in> set (db_jobs d)" "held i t j" "t \<in> set ts" "job_kind_of j = SendOutbound"
    "job_run_id j = Some run" "job_email_id j = Some email" "lock_outbound_reservation run email d = Some ob" "ob_state ob = Reserved"
    "load_run run d = Some r" "ob_epoch ob = reply_epoch r" "status r = expected_run_status (ob_purpose ob)" "\<not> record_only r"
    "active_handoff_of run (db_handoffs d) = Some h" "ho_token h = t" "dc_now k \<le> ho_owner_until h" "replay_window_open (dc_now k) ob"
    "claim_job (dc_now k) (dc_lease k) (dc_token k) (dc_locked k) (db_jobs (worker_stop now1 ts d)) = (Some c, js)" "cj_id c = i"
    "dc_token k \<noteq> t"
  shows "\<exists>ts' d'. drain_once u k (handle_send_outbound (dc_now k) hid clock provider) [] (worker_stop now1 ts d) = (Inr DrainInvalidContext, ts', d')
    \<and> (\<exists>x. get_job i (db_jobs d') = Some x \<and> job_state x = Done)
    \<and> load_run run d' = Some r \<and> db_outbound d' = db_outbound d \<and> active_handoff_of run (db_handoffs d') = Some h"
proof -
  let ?d = "d\<lparr>db_jobs := js\<rparr>"
  have eq: "(worker_stop now1 ts d)\<lparr>db_jobs := js\<rparr> = ?d" by (simp add: worker_stop_def)
  obtain x where x: "locked_job c ?d = Some x" "leased_until x = Some (dc_now k + dc_lease k)" "db_ok ?d" "cj_token c = dc_token k"
    "job_kind_of x = job_kind_of j" "job_run_id x = job_run_id j" "job_email_id x = job_email_id j" "row_ok x"
    "cj_kind c = job_kind_of j" "cj_run_id c = job_run_id j" "cj_email_id c = job_email_id j" "cj_resolution_id c = job_resolution_id j"
    "cj_event_id c = job_event_id j"
    using stopped_then_claimed [OF assms(1,3,4,5,19,20)] by metis
  have j: "job_resolution_id j = None" "job_event_id j = None"
    using assms(1,3,6) by (auto simp: db_ok_def row_ok_def context_ok_def split: job_kind.splits)
  have ctx: "delivery_context x c ?d = Some (run, email, ob, r)"
    using assms(6-13) x by (simp add: delivery_context_def lock_outbound_reservation_def)
  have act: "active_handoff_of run (db_handoffs ?d) = Some h" using assms(15) by simp
  have tok: "ho_token h \<noteq> cj_token c" using assms(16,21) x(4) by simp
  have handle: "handle_send_outbound (dc_now k) hid clock provider c ?d = (Inr bounded_noop, ?d)"
    by (rule foreign_owner_refuses [OF x(1,2) _ _ _ _ ctx assms(14,18) act tok assms(17)]) (use x assms(6,7) j in simp_all)
  let ?f = "finish_row (dc_settle k) Done (Some ''delivery:invalid_context'')"
  let ?d' = "?d\<lparr>db_jobs := update_rows (held (cj_id c) (cj_token c)) ?f (db_jobs ?d)\<rparr>"
  have "settle_dispatch u (dc_settle k) (dc_jitter k) c (Inr bounded_noop) ?d = Inr (SettledInvalid, ?d')"
    using foreign_owner_retires [OF _ x(1) ctx act tok, of u "dc_settle k"] assms(2,6) x(9) by (simp add: settle_dispatch_def)
  from drain_claimed [where handle = "handle_send_outbound (dc_now k) hid clock provider" and d = "worker_stop now1 ts d" and ts = "[]",
      OF assms(19) _ this] handle
  have "\<exists>ts'. drain_once u k (handle_send_outbound (dc_now k) hid clock provider) [] (worker_stop now1 ts d) = (Inr DrainInvalidContext, ts', ?d')"
    unfolding eq by simp
  moreover have "get_job i (db_jobs ?d') = Some (?f x)"
    using get_job_cas [OF x(1,3), of ?f] assms(20) by simp
  ultimately show ?thesis using assms(11,15) by (auto simp: load_run_def)
qed

text \<open>The slot of \<open>mail_db\<close> under a handoff of token 11, then a stop and a second worker.\<close>

definition mail_handoff :: handoff where
  "mail_handoff = \<lparr>ho_id = 21, ho_run = 9, ho_email = 3, ho_snapshot = 4, ho_job = 1, ho_epoch = 0, ho_token = 11,
     ho_owner_until = seconds 900, ho_authorized_at = 0, ho_not_after = replay_window, ho_released = None\<rparr>"

definition sending_db :: db where
  "sending_db = mail_db\<lparr>db_handoffs := [mail_handoff]\<rparr>"

definition second_clock :: drain_clock where
  "second_clock = \<lparr>dc_now = seconds 20, dc_lease = seconds 900, dc_token = 12, dc_locked = [], dc_settle = seconds 21, dc_jitter = 1\<rparr>"

lemma sending_facts:
  "db_ok sending_db" "handoffs_ok (db_handoffs sending_db)" "mail_job \<in> set (db_jobs sending_db)" "held 1 11 mail_job"
  "lock_outbound_reservation 9 3 sending_db = Some mail_slot" "load_run 9 sending_db = Some (sample_run\<lparr>status := APPROVED\<rparr>)"
  "active_handoff_of 9 (db_handoffs sending_db) = Some mail_handoff" "dc_now second_clock \<le> ho_owner_until mail_handoff"
  "replay_window_open (dc_now second_clock) mail_slot"
  using mail_facts(1)
  by (simp_all add: sending_db_def db_ok_def handoffs_ok_def mail_handoff_def replay_window_def mail_db_def empty_db_def held_def mail_job_def
      lock_outbound_reservation_def mail_slot_def load_run_def sample_run_def active_handoff_of_def second_clock_def replay_window_open_def)

lemma sending_claim:
  "\<exists>c js. claim_job (dc_now second_clock) (dc_lease second_clock) (dc_token second_clock) (dc_locked second_clock)
     (db_jobs (worker_stop (seconds 15) [11] sending_db)) = (Some c, js) \<and> cj_id c = 1"
  by (simp add: sending_db_def mail_db_def empty_db_def mail_job_def worker_stop_def release_leases_def update_rows_def holds_any_def settle_row_def
      claim_job_def claim_candidates_def claimable_def due_def second_clock_def claim_of_def claim_row_def)

theorem shutdown_release_loses_delivery_witness:
  "fst (drain_once ascii second_clock (handle_send_outbound (seconds 20) 22 (seconds 20) (\<lambda>a. None)) []
     (worker_stop (seconds 15) [11] sending_db)) = Inr DrainInvalidContext"
proof -
  obtain c js where c: "claim_job (dc_now second_clock) (dc_lease second_clock) (dc_token second_clock) (dc_locked second_clock)
     (db_jobs (worker_stop (seconds 15) [11] sending_db)) = (Some c, js)" "cj_id c = 1"
    using sending_claim by blast
  have "dc_now second_clock = seconds 20" by (simp add: second_clock_def)
  with shutdown_release_loses_delivery [OF sending_facts(1-4) _ _ _ _ sending_facts(5) _ sending_facts(6) _ _ _ sending_facts(7) _ sending_facts(8,9) c,
      of ascii 22 "seconds 20" "\<lambda>a. None"]
  show ?thesis by (auto simp: mail_job_def mail_slot_def sample_run_def mail_handoff_def second_clock_def expected_run_status_def)
qed

text \<open>C7. One provider call at a time: whoever is authorized owns the one active handoff of the run,
  bound to its job, slot, generation and token; before that the run had no active handoff, or
  one of the same job that was its own or whose owner's lease had expired. Only a live
  approved or awaiting-reply run is ever authorized.\<close>

theorem provider_fence_is_exclusive:
  assumes "handoffs_ok (db_handoffs d)" "hid \<notin> ho_id ` set (db_handoffs d)"
    "authorize_outbound_provider_handoff now hid c d = Inr (Authorized a, d')"
  shows "handoffs_ok (db_handoffs d') \<and> (\<exists>h. active_handoff_of (au_run a) (db_handoffs d') = Some h \<and> owns_handoff a h)
    \<and> (\<forall>h \<in> set (db_handoffs d). ho_run h = au_run a \<and> ho_released h = None \<longrightarrow>
         ho_job h = cj_id c \<and> (ho_token h = cj_token c \<or> ho_owner_until h < now))
    \<and> (\<exists>r. load_run (au_run a) d = Some r \<and> \<not> record_only r \<and> status r \<in> {APPROVED, AWAITING_REPLY})"
proof -
  from assms(3) obtain run email ob r until where g:
    "grant_handoff now hid c run email ob (reply_epoch r) until d = (Authorized a, d')" "replay_window_open now ob"
    "load_run run d = Some r" "status r = expected_run_status (ob_purpose ob)" "\<not> record_only r" "ob_epoch ob = reply_epoch r"
    by (rule authorize_Authorized) blast
  have st: "status r \<in> {APPROVED, AWAITING_REPLY}" using g(4) by (auto simp: expected_run_status_def)
  from grant_authorized [OF g(1) assms(1,2) g(2)] g(6) have
    "handoffs_ok (db_handoffs d')" "\<exists>h. active_handoff_of run (db_handoffs d') = Some h \<and> owns_handoff a h" "au_run a = run"
    "\<forall>h \<in> set (db_handoffs d). ho_run h = run \<and> ho_released h = None \<longrightarrow> ho_job h = cj_id c
         \<and> (ho_token h = cj_token c \<or> ho_owner_until h < now)" by auto
  with g(3,5) st show ?thesis by blast
qed

theorem provider_fence_is_exclusive_witness:
  "\<exists>a d'. authorize_outbound_provider_handoff 0 21 (claim_of 11 mail_job) mail_db = Inr (Authorized a, d') \<and> handoffs_ok (db_handoffs d')"
proof -
  have ok: "handoffs_ok (db_handoffs mail_db)" "21 \<notin> ho_id ` set (db_handoffs mail_db)" by (simp_all add: mail_db_def empty_db_def handoffs_ok_def)
  have "\<exists>a d'. authorize_outbound_provider_handoff 0 21 (claim_of 11 mail_job) mail_db = Inr (Authorized a, d')"
    by (simp add: authorize_outbound_provider_handoff_def locked_send_job_def mail_db_def empty_db_def held_def mail_job_def claim_of_def
        lock_frozen_snapshot_def mail_slot_def load_run_def sample_run_def expected_run_status_def replay_window_open_def
        replay_window_def grant_handoff_def active_handoff_of_def Let_def)
  then obtain a d' where "authorize_outbound_provider_handoff 0 21 (claim_of 11 mail_job) mail_db = Inr (Authorized a, d')" by blast
  with provider_fence_is_exclusive [OF ok this] show ?thesis by blast
qed

end
