(* ===== verification/Outbox.thy ===== *)
theory Outbox
  imports Settlement
begin

section \<open>Reserving, reading and delivering outbound mail\<close>

text \<open>
  The outbound half of \<open>app/db/repo/emails.py\<close>, \<open>app/pipeline/send_guard.py\<close> and
  \<open>app/pipeline/delivery.py\<close>. A logical slot is (run, purpose, round, epoch); the table is in
  creation order, so \<open>ORDER BY created_at DESC LIMIT 1\<close> is the last match. Identifiers the
  database or \<open>uuid4\<close> make up are arguments.
\<close>

subsection \<open>Slots\<close>

definition run_epoch :: "uuid \<Rightarrow> db \<Rightarrow> nat option" where
  "run_epoch run d = map_option reply_epoch (load_run run d)"

definition latest :: "('a \<Rightarrow> bool) \<Rightarrow> 'a list \<Rightarrow> 'a option" where
  "latest p xs = first_match p (rev xs)"

definition in_slot :: "uuid \<Rightarrow> purpose \<Rightarrow> nat \<Rightarrow> nat \<Rightarrow> outbound \<Rightarrow> bool" where
  "in_slot run p n e ob \<longleftrightarrow> ob_run ob = run \<and> ob_purpose ob = p \<and> ob_round ob = n \<and> ob_epoch ob = e"

definition of_epoch :: "uuid \<Rightarrow> purpose \<Rightarrow> db \<Rightarrow> outbound \<Rightarrow> bool" where
  "of_epoch run p d ob \<longleftrightarrow> ob_run ob = run \<and> ob_purpose ob = p \<and> run_epoch run d = Some (ob_epoch ob)"

definition get_outbound_message_id :: "uuid \<Rightarrow> purpose \<Rightarrow> db \<Rightarrow> string option" where
  "get_outbound_message_id run p d =
     map_option ob_message_id (latest (\<lambda>ob. of_epoch run p d ob \<and> ob_state ob = MailSent) (db_outbound d))"

definition get_outbound_for_round :: "uuid \<Rightarrow> purpose \<Rightarrow> nat \<Rightarrow> db \<Rightarrow> (string \<times> nat) option" where
  "get_outbound_for_round run p n d =
     map_option (\<lambda>ob. (ob_message_id ob, ob_round ob))
       (latest (\<lambda>ob. of_epoch run p d ob \<and> ob_state ob = MailSent \<and> ob_round ob = n) (db_outbound d))"

definition get_unconfirmed_outbound :: "uuid \<Rightarrow> purpose \<Rightarrow> nat \<Rightarrow> db \<Rightarrow> outbound option" where
  "get_unconfirmed_outbound run p n d =
     latest (\<lambda>ob. of_epoch run p d ob \<and> ob_round ob = n \<and> ob_state ob \<in> {Reserved, SendFailed}) (db_outbound d)"

definition get_operator_acknowledged_message_id :: "uuid \<Rightarrow> purpose \<Rightarrow> db \<Rightarrow> string option" where
  "get_operator_acknowledged_message_id run p d =
     map_option ob_message_id (latest (\<lambda>ob. of_epoch run p d ob \<and> ob_acknowledged ob \<noteq> None) (db_outbound d))"

definition mark_outbound_operator_acknowledged :: "instant \<Rightarrow> uuid \<Rightarrow> uuid \<Rightarrow> db \<Rightarrow> bool \<times> db" where
  "mark_outbound_operator_acknowledged now run email d =
     (let p = (\<lambda>ob. ob_email ob = email \<and> ob_run ob = run \<and> ob_acknowledged ob = None)
      in (list_ex p (db_outbound d), d\<lparr>db_outbound := update_rows p (\<lambda>ob. ob\<lparr>ob_acknowledged := Some now\<rparr>) (db_outbound d)\<rparr>))"

definition get_outbound_references_chain :: "uuid \<Rightarrow> db \<Rightarrow> string option" where
  "get_outbound_references_chain run d =
     Option.bind (latest (\<lambda>ob. ob_run ob = run \<and> ob_state ob = MailSent) (db_outbound d)) (en_references \<circ> ob_envelope)"

definition update_email_message_sent :: "string \<Rightarrow> db \<Rightarrow> db res" where
  "update_email_message_sent mid d =
     (let p = (\<lambda>ob. ob_message_id ob = mid \<and> ob_state ob = Reserved)
      in guard_res (list_ex p (db_outbound d)) ValueError
           (d\<lparr>db_outbound := update_rows p (\<lambda>ob. ob\<lparr>ob_state := MailSent\<rparr>) (db_outbound d)\<rparr>))"

subsection \<open>Reserving a slot\<close>

text \<open>\<open>btrim(x) <> ''\<close> and the unique \<open>message_id\<close> of the schema.\<close>

definition nonblank :: "string \<Rightarrow> bool" where
  "nonblank s \<longleftrightarrow> list_ex (\<lambda>c. c \<noteq> CHR '' '') s"

definition envelope_ok :: "envelope \<Rightarrow> bool" where
  "envelope_ok en \<longleftrightarrow> nonblank (en_from en) \<and> nonblank (en_to en) \<and> list_all (nonblank \<circ> fst) (en_attachments en)"

definition message_ids :: "db \<Rightarrow> string list" where
  "message_ids d = map ob_message_id (db_outbound d) @ map in_message_id (db_inbox d)"

record slot_ids =
  sl_email :: uuid
  sl_snapshot :: uuid
  sl_message_id :: string
  sl_job :: uuid

definition new_slot :: "instant \<Rightarrow> slot_ids \<Rightarrow> uuid \<Rightarrow> purpose \<Rightarrow> nat \<Rightarrow> nat \<Rightarrow> envelope \<Rightarrow> outbound" where
  "new_slot now ids run p n e en =
     \<lparr>ob_email = sl_email ids, ob_run = run, ob_snapshot = sl_snapshot ids, ob_purpose = p, ob_round = n, ob_epoch = e,
      ob_state = Reserved, ob_reserved_at = now, ob_message_id = sl_message_id ids, ob_envelope = en, ob_acknowledged = None\<rparr>"

definition reserve_outbound_snapshot ::
  "instant \<Rightarrow> slot_ids \<Rightarrow> uuid \<Rightarrow> purpose \<Rightarrow> int \<Rightarrow> envelope \<Rightarrow> db \<Rightarrow> (outbound \<times> db) res" where
  "reserve_outbound_snapshot now ids run p rnd en d =
     (if rnd < 0 then Inl ValueError
      else (case run_epoch run d of
              None \<Rightarrow> Inl DatabaseError
            | Some e \<Rightarrow>
                (case first_match (in_slot run p (nat rnd) e) (db_outbound d) of
                   Some ob \<Rightarrow> Inr (ob, d)
                 | None \<Rightarrow>
                     if sl_message_id ids \<in> set (message_ids d) \<or> \<not> envelope_ok en then Inl DatabaseError
                     else (let ob = new_slot now ids run p (nat rnd) e en in Inr (ob, d\<lparr>db_outbound := db_outbound d @ [ob]\<rparr>)))))"

text \<open>\<open>OutboundReplayPolicy\<close>: the slot an unconfirmed send already occupies.\<close>

definition outbound_replay_policy :: "uuid \<Rightarrow> purpose \<Rightarrow> nat \<Rightarrow> db \<Rightarrow> uuid option" where
  "outbound_replay_policy run p n d = map_option ob_email (get_unconfirmed_outbound run p n d)"

definition assert_no_unconfirmed_send :: "uuid \<Rightarrow> purpose \<Rightarrow> nat \<Rightarrow> db \<Rightarrow> unit res" where
  "assert_no_unconfirmed_send run p n d = guard_res (get_unconfirmed_outbound run p n d = None) RuntimeError ()"

text \<open>The enqueue the producers share: no delay, no error, the kind's own ceiling.\<close>

definition plain_request :: "job_kind \<Rightarrow> string \<Rightarrow> uuid \<Rightarrow> uuid option \<Rightarrow> uuid option \<Rightarrow> enqueue_request" where
  "plain_request kind key run email resolution =
     \<lparr>eq_kind = kind, eq_dedup_key = key, eq_run_id = Some run, eq_email_id = email, eq_resolution_id = resolution,
      eq_event_id = None, eq_business_id = None, eq_max_attempts = None, eq_delay = DelayNumber 0, eq_last_error = None\<rparr>"

definition enqueue_on :: "instant \<Rightarrow> int \<Rightarrow> uuid \<Rightarrow> enqueue_request \<Rightarrow> db \<Rightarrow> (uuid option \<times> db) res" where
  "enqueue_on now cfg jid q d =
     bind_res (enqueue_job now cfg jid q (db_jobs d)) (\<lambda>(i, js). Inr (i, d\<lparr>db_jobs := js\<rparr>))"

definition enqueue_send :: "instant \<Rightarrow> int \<Rightarrow> uuid \<Rightarrow> uuid \<Rightarrow> uuid \<Rightarrow> db \<Rightarrow> db res" where
  "enqueue_send now cfg jid run email d =
     bind_res (enqueue_on now cfg jid (plain_request SendOutbound (send_outbound_dedup_key email) run (Some email) None) d)
       (\<lambda>(i, d'). Inr d')"

subsection \<open>The slots stay unique\<close>

definition slot_key :: "outbound \<Rightarrow> uuid \<times> purpose \<times> nat \<times> nat" where
  "slot_key ob = (ob_run ob, ob_purpose ob, ob_round ob, ob_epoch ob)"

definition outbox_ok :: "db \<Rightarrow> bool" where
  "outbox_ok d \<longleftrightarrow> distinct (map ob_email (db_outbound d)) \<and> distinct (map slot_key (db_outbound d)) \<and> distinct (message_ids d)"

lemma in_slot_key: "in_slot run p n e ob \<longleftrightarrow> slot_key ob = (run, p, n, e)"
  by (auto simp: in_slot_def slot_key_def)

lemma slot_key_new [simp]: "slot_key (new_slot now ids run p n e en) = (run, p, n, e)"
  by (simp add: slot_key_def new_slot_def)

lemma new_slot_simps [simp]:
  "ob_email (new_slot now ids run p n e en) = sl_email ids" "ob_run (new_slot now ids run p n e en) = run"
  "ob_state (new_slot now ids run p n e en) = Reserved" "ob_purpose (new_slot now ids run p n e en) = p"
  "ob_round (new_slot now ids run p n e en) = n" "ob_epoch (new_slot now ids run p n e en) = e"
  "ob_envelope (new_slot now ids run p n e en) = en" "ob_message_id (new_slot now ids run p n e en) = sl_message_id ids"
  "ob_snapshot (new_slot now ids run p n e en) = sl_snapshot ids" "ob_reserved_at (new_slot now ids run p n e en) = now"
  "ob_acknowledged (new_slot now ids run p n e en) = None"
  by (simp_all add: new_slot_def)

lemma latest_Some: "latest p xs = Some x \<Longrightarrow> x \<in> set xs \<and> p x"
  unfolding latest_def by (drule first_match_SomeD) simp

lemma latest_None: "latest p xs = None \<longleftrightarrow> (\<forall>x \<in> set xs. \<not> p x)"
  by (simp add: latest_def first_match_None)

lemma run_epoch_cong: "db_runs d = db_runs e \<Longrightarrow> run_epoch i d = run_epoch i e"
  by (simp add: run_epoch_def load_run_def)

lemma reserve_cases [consumes 1, case_names found new]:
  assumes "reserve_outbound_snapshot now ids run p rnd en d = Inr (ob, d')"
  obtains e where "0 \<le> rnd" "run_epoch run d = Some e" "d' = d" "ob \<in> set (db_outbound d)" "in_slot run p (nat rnd) e ob"
  | e where "0 \<le> rnd" "run_epoch run d = Some e" "\<forall>o' \<in> set (db_outbound d). \<not> in_slot run p (nat rnd) e o'"
      "sl_message_id ids \<notin> set (message_ids d)" "envelope_ok en"
      "ob = new_slot now ids run p (nat rnd) e en" "d' = d\<lparr>db_outbound := db_outbound d @ [ob]\<rparr>"
proof -
  obtain e where r: "0 \<le> rnd" and e: "run_epoch run d = Some e"
    using assms by (cases "run_epoch run d") (auto simp: reserve_outbound_snapshot_def split: if_splits)
  show thesis
  proof (cases "first_match (in_slot run p (nat rnd) e) (db_outbound d)")
    case None
    have free: "\<forall>o' \<in> set (db_outbound d). \<not> in_slot run p (nat rnd) e o'" using None unfolding first_match_None .
    have "(if sl_message_id ids \<in> set (message_ids d) \<or> \<not> envelope_ok en then Inl DatabaseError
        else (let o' = new_slot now ids run p (nat rnd) e en in Inr (o', d\<lparr>db_outbound := db_outbound d @ [o']\<rparr>))) = Inr (ob, d')"
      using assms r by (simp add: reserve_outbound_snapshot_def e None)
    then show thesis using that(2) [OF r e free] by (auto simp: Let_def split: if_splits)
  next
    case (Some o')
    then show thesis using that(1) [OF r e] assms r e first_match_SomeD [OF Some]
      by (auto simp: reserve_outbound_snapshot_def)
  qed
qed

lemma reserve_kept:
  assumes "reserve_outbound_snapshot now ids run p rnd en d = Inr (ob, d')" "outbox_ok d" "sl_email ids \<notin> ob_email ` set (db_outbound d)"
  shows "outbox_ok d'"
  using assms(1)
proof (cases rule: reserve_cases)
  case (found e)
  then show ?thesis using assms(2) by simp
next
  case (new e)
  have "(run, p, nat rnd, e) \<notin> slot_key ` set (db_outbound d)" using new(3) by (auto simp: in_slot_key)
  then show ?thesis using new assms(2,3) by (auto simp: outbox_ok_def message_ids_def)
qed

lemma reserve_slot:
  assumes "reserve_outbound_snapshot now ids run p rnd en d = Inr (ob, d')"
  shows "ob \<in> set (db_outbound d') \<and> ob_run ob = run \<and> ob_purpose ob = p \<and> int (ob_round ob) = rnd \<and> run_epoch run d = Some (ob_epoch ob)
    \<and> db_runs d' = db_runs d \<and> db_jobs d' = db_jobs d"
  using assms by (cases rule: reserve_cases) (auto simp: in_slot_def)

text \<open>Whoever reserves the slot again, with whatever text, gets the first envelope back.\<close>

lemma reserve_again:
  assumes "reserve_outbound_snapshot now ids run p rnd en d = Inr (ob, d')" "outbox_ok d" "sl_email ids \<notin> ob_email ` set (db_outbound d)"
  shows "reserve_outbound_snapshot now' ids' run p rnd en' d' = Inr (ob, d')"
proof -
  have r: "0 \<le> rnd" using assms(1) by (auto simp: reserve_outbound_snapshot_def split: if_splits)
  note ob = reserve_slot [OF assms(1)]
  have e: "run_epoch run d' = Some (ob_epoch ob)" using ob run_epoch_cong [of d' d run] by simp
  have key: "distinct (map slot_key (db_outbound d'))" using reserve_kept [OF assms] by (simp add: outbox_ok_def)
  have s: "in_slot run p (nat rnd) (ob_epoch ob) ob" using ob r by (auto simp: in_slot_def)
  have only: "o' = ob" if o': "o' \<in> set (db_outbound d')" "in_slot run p (nat rnd) (ob_epoch ob) o'" for o'
    by (rule distinct_key [OF key]) (use ob s o' in \<open>auto simp: in_slot_key\<close>)
  have "first_match (in_slot run p (nat rnd) (ob_epoch ob)) (db_outbound d') = Some ob"
  proof (cases "first_match (in_slot run p (nat rnd) (ob_epoch ob)) (db_outbound d')")
    case None
    then show ?thesis using ob s by (auto simp: first_match_None)
  next
    case (Some o')
    with only first_match_SomeD [OF Some] show ?thesis by blast
  qed
  with r e show ?thesis by (simp add: reserve_outbound_snapshot_def)
qed

subsection \<open>Several transactions in a row\<close>

text \<open>
  Code that commits more than once: what an earlier transaction committed stays when a later
  step raises. The value comes with the database as it is afterwards.
\<close>

type_synonym 'a act = "db \<Rightarrow> 'a res \<times> db"

definition act_return :: "'a \<Rightarrow> 'a act" where
  "act_return x d = (Inr x, d)"

definition act_bind :: "'a act \<Rightarrow> ('a \<Rightarrow> 'b act) \<Rightarrow> 'b act" where
  "act_bind m f d = (case m d of (Inl e, d') \<Rightarrow> (Inl e, d') | (Inr x, d') \<Rightarrow> f x d')"

definition reading :: "(db \<Rightarrow> 'a res) \<Rightarrow> 'a act" where
  "reading f d = (f d, d)"

definition writing :: "(db \<Rightarrow> db) \<Rightarrow> unit act" where
  "writing f d = (Inr (), f d)"

text \<open>\<open>with repo.get_connection() as conn, conn.transaction()\<close>: all of it or nothing.\<close>

definition transaction :: "(db \<Rightarrow> db res) \<Rightarrow> unit act" where
  "transaction f d = (case f d of Inl e \<Rightarrow> (Inl e, d) | Inr d' \<Rightarrow> (Inr (), d'))"

lemma act_bind_simps [simp]:
  "act_bind (act_return x) f = f x" "act_bind (writing g) h d = h () (g d)"
  "act_bind (reading r) f d = (case r d of Inl e \<Rightarrow> (Inl e, d) | Inr x \<Rightarrow> f x d)"
  by (auto simp: act_bind_def act_return_def writing_def reading_def fun_eq_iff split: sum.split)

lemma transaction_Inr: "transaction f d = (Inr (), d') \<longleftrightarrow> f d = Inr d'"
  by (cases "f d") (simp_all add: transaction_def)

lemma transaction_Inl: "transaction f d = (Inl e, d') \<longleftrightarrow> f d = Inl e \<and> d' = d"
  by (cases "f d") (auto simp: transaction_def)

lemma act_bind_Inr: "act_bind m f d = (Inr y, d') \<longleftrightarrow> (\<exists>x d1. m d = (Inr x, d1) \<and> f x d1 = (Inr y, d'))"
  by (cases "m d") (auto simp: act_bind_def split: sum.splits)

lemma enqueue_send_Inr:
  assumes "enqueue_send now cfg jid run email d = Inr d'"
  shows "send_outbound_dedup_key email \<in> dedup_key ` set (db_jobs d') \<and> (\<exists>new. d' = d\<lparr>db_jobs := db_jobs d @ new\<rparr>)"
proof -
  have "\<exists>new. d' = d\<lparr>db_jobs := db_jobs d @ new\<rparr> \<and> send_outbound_dedup_key email \<in> dedup_key ` set (db_jobs d @ new)"
    using assms
    by (auto simp: enqueue_send_def enqueue_on_def enqueue_job_def res_simps plain_request_def image_iff
        intro: exI [of _ "[]"] split: if_splits)
  then show ?thesis by auto
qed

lemma enqueue_send_total: "\<exists>d'. enqueue_send now cfg jid run email d = Inr d'"
  by (simp add: enqueue_send_def enqueue_on_def enqueue_job_def plain_request_def bad_context_def delay_micros_def seconds_def
      attempt_ceiling_def)

text \<open>What the shared enqueue adds: the row of a send job due now, unless the mail has one.\<close>

definition send_row :: "instant \<Rightarrow> uuid \<Rightarrow> uuid \<Rightarrow> uuid \<Rightarrow> job" where
  "send_row now jid run email =
     \<lparr>job_id = jid, job_kind_of = SendOutbound, dedup_key = send_outbound_dedup_key email, job_run_id = Some run,
      job_email_id = Some email, job_resolution_id = None, job_event_id = None, job_business_id = None, priority = 100,
      job_state = Pending, attempts = 0, max_attempts = SEND_OUTBOUND_MAX_ATTEMPTS, available_at = now, lease_token = None,
      leased_until = None, last_error = None, job_updated_at = now\<rparr>"

definition with_send :: "instant \<Rightarrow> uuid \<Rightarrow> uuid \<Rightarrow> uuid \<Rightarrow> job list \<Rightarrow> job list" where
  "with_send now jid run email js =
     (if send_outbound_dedup_key email \<in> dedup_key ` set js then js else js @ [send_row now jid run email])"

lemma enqueue_send_eq: "enqueue_send now cfg jid run email d = Inr (d\<lparr>db_jobs := with_send now jid run email (db_jobs d)\<rparr>)"
  by (simp add: enqueue_send_def enqueue_on_def enqueue_job_def plain_request_def bad_context_def delay_micros_def seconds_def
      attempt_ceiling_def with_send_def send_row_def)

lemma latest_unique: "x \<in> set xs \<Longrightarrow> p x \<Longrightarrow> (\<And>y. y \<in> set xs \<Longrightarrow> p y \<Longrightarrow> y = x) \<Longrightarrow> latest p xs = Some x"
  by (metis latest_None latest_Some not_None_eq)

text \<open>The two lookups of a producer read the one slot.\<close>

lemma slot_lookups:
  assumes "outbox_ok d" "run_epoch run d = Some e"
  shows "first_match (in_slot run p n e) (db_outbound d) = None \<Longrightarrow>
      get_outbound_for_round run p n d = None \<and> outbound_replay_policy run p n d = None"
    and "first_match (in_slot run p n e) (db_outbound d) = Some ob \<Longrightarrow>
      get_outbound_for_round run p n d = (if ob_state ob = MailSent then Some (ob_message_id ob, n) else None)
      \<and> outbound_replay_policy run p n d = (if ob_state ob = MailSent then None else Some (ob_email ob))"
proof -
  have slot: "of_epoch run p d o' \<and> ob_round o' = n \<longleftrightarrow> in_slot run p n e o'" for o'
    using assms(2) by (auto simp: of_epoch_def in_slot_def)
  {
    assume "first_match (in_slot run p n e) (db_outbound d) = None"
    then have "\<forall>o' \<in> set (db_outbound d). \<not> (of_epoch run p d o' \<and> ob_round o' = n)" unfolding slot first_match_None .
    then show "get_outbound_for_round run p n d = None \<and> outbound_replay_policy run p n d = None"
      by (auto simp: get_outbound_for_round_def outbound_replay_policy_def get_unconfirmed_outbound_def latest_None)
  }
  assume "first_match (in_slot run p n e) (db_outbound d) = Some ob"
  from first_match_SomeD [OF this] have ob: "ob \<in> set (db_outbound d)" "in_slot run p n e ob" by simp_all
  have key: "distinct (map slot_key (db_outbound d))" using assms(1) by (simp add: outbox_ok_def)
  have only: "o' = ob" if "o' \<in> set (db_outbound d)" "of_epoch run p d o'" "ob_round o' = n" for o'
    by (rule distinct_key [OF key that(1) ob(1)]) (use that slot [of o'] ob(2) in \<open>simp add: in_slot_key\<close>)
  have here: "of_epoch run p d ob" "ob_round ob = n" using slot [of ob] ob(2) by simp_all
  show "get_outbound_for_round run p n d = (if ob_state ob = MailSent then Some (ob_message_id ob, n) else None)
      \<and> outbound_replay_policy run p n d = (if ob_state ob = MailSent then None else Some (ob_email ob))"
  proof (cases "ob_state ob = MailSent")
    case True
    have "latest (\<lambda>ob. of_epoch run p d ob \<and> ob_state ob = MailSent \<and> ob_round ob = n) (db_outbound d) = Some ob"
      by (rule latest_unique) (use True ob(1) here only in blast)+
    moreover have "latest (\<lambda>ob. of_epoch run p d ob \<and> ob_round ob = n \<and> ob_state ob \<in> {Reserved, SendFailed}) (db_outbound d) = None"
      unfolding latest_None using True only by fastforce
    ultimately show ?thesis using True here
      by (simp add: get_outbound_for_round_def outbound_replay_policy_def get_unconfirmed_outbound_def)
  next
    case False
    then have "ob_state ob \<in> {Reserved, SendFailed}" by (cases "ob_state ob") simp_all
    then have "latest (\<lambda>ob. of_epoch run p d ob \<and> ob_round ob = n \<and> ob_state ob \<in> {Reserved, SendFailed}) (db_outbound d) = Some ob"
      by (intro latest_unique) (use ob(1) here only in blast)+
    moreover have "latest (\<lambda>ob. of_epoch run p d ob \<and> ob_state ob = MailSent \<and> ob_round ob = n) (db_outbound d) = None"
      unfolding latest_None using False only by blast
    ultimately show ?thesis using False
      by (simp add: get_outbound_for_round_def outbound_replay_policy_def get_unconfirmed_outbound_def)
  qed
qed

lemma reserve_total:
  assumes "0 \<le> rnd" "run_epoch run d = Some e" "sl_message_id ids \<notin> set (message_ids d)" "envelope_ok en"
  shows "\<exists>ob d'. reserve_outbound_snapshot now ids run p rnd en d = Inr (ob, d')"
  using assms by (cases "first_match (in_slot run p (nat rnd) e) (db_outbound d)") (simp_all add: reserve_outbound_snapshot_def Let_def)

end
