(* ===== verification/Compose.thy ===== *)
theory Compose
  imports Decide Outcomes "HOL-Library.Sublist"
begin

section \<open>The text of a clarification\<close>

text \<open>
  \<open>app/pipeline/compose_email.py\<close> (clarifications) and \<open>app/pipeline/suggest.py\<close>. The draft of the
  language model is an argument, \<open>None\<close> when the call failed. A character outside Latin-1
  stands as its UTF-8 bytes.
\<close>

subsection \<open>Strings\<close>

definition newline :: string where
  "newline = [CHR 0x0A]"

definition quote_mark :: string where
  "quote_mark = [CHR 0x27]"

definition em_dash :: string where
  "em_dash = [CHR 0xE2, CHR 0x80, CHR 0x94]"

definition py_rstrip :: "string \<Rightarrow> string" where
  "py_rstrip s = rev (dropWhile py_space (rev s))"

definition py_strip :: "string \<Rightarrow> string" where
  "py_strip s = py_rstrip (dropWhile py_space s)"

text \<open>\<open>s.rsplit('.', 1)\<close> when it has two parts.\<close>

definition rsplit_dot :: "string \<Rightarrow> (string \<times> string) option" where
  "rsplit_dot s =
     (if CHR ''.'' \<in> set s
      then Some (rev (tl (dropWhile (\<lambda>c. c \<noteq> CHR ''.'') (rev s))), rev (takeWhile (\<lambda>c. c \<noteq> CHR ''.'') (rev s)))
      else None)"

definition removeprefix :: "string \<Rightarrow> string \<Rightarrow> string option" where
  "removeprefix p s = (if take (length p) s = p then Some (drop (length p) s) else None)"

subsection \<open>Suggestions\<close>

text \<open>The response is the list of (submitted name, suggested name), \<open>None\<close> for a failed call.\<close>

definition suggest_employees :: "string list \<Rightarrow> roster \<Rightarrow> (string \<times> string option) list option \<Rightarrow> (string, string) dict" where
  "suggest_employees names r response =
     (if names = [] then []
      else (case response of
              None \<Rightarrow> []
            | Some ss \<Rightarrow>
                dict_of (concat (map (\<lambda>(submitted, s). case s of
                    None \<Rightarrow> []
                  | Some n \<Rightarrow> if n = [] \<or> n \<notin> full_name ` set (roster_employees r) then [] else [(submitted, n)]) ss))))"

subsection \<open>The body\<close>

definition regression_line :: "string \<Rightarrow> string \<Rightarrow> string" where
  "regression_line n f =
     ''  - Reply with the '' @ f @ '' hours for '' @ n @ '', or '' @ quote_mark @ ''none'' @ quote_mark @ '' to confirm zero.''"

definition field_regression_lines :: "string list \<Rightarrow> string list" where
  "field_regression_lines reasons =
     concat (map (\<lambda>reason. case removeprefix ''field regression: '' reason of
         None \<Rightarrow> []
       | Some q \<Rightarrow> (case rsplit_dot q of None \<Rightarrow> [] | Some (n, f) \<Rightarrow> [regression_line n f])) reasons)"

definition as_reply :: "string \<Rightarrow> string \<Rightarrow> string" where
  "as_reply subject original =
     (let base = (if py_strip original = [] then subject else py_strip original)
      in if map lower_char (take 3 base) = ''re:'' then base else ''Re: '' @ base)"

definition SUBJECT :: string where
  "SUBJECT = ''Quick question before we run your payroll''"

definition clarification_subject :: "string \<Rightarrow> string" where
  "clarification_subject original = (if original = [] then SUBJECT else as_reply SUBJECT original)"

definition suggestion_for :: "(string, string) dict \<Rightarrow> string \<Rightarrow> string option" where
  "suggestion_for sg n = (case map_of sg n of None \<Rightarrow> None | Some s \<Rightarrow> if s = [] then None else Some s)"

definition template_body :: "decision \<Rightarrow> (string, string) dict \<Rightarrow> string" where
  "template_body d sg =
     (let names = unresolved_names d;
          suggested = concat (map (\<lambda>n. case suggestion_for sg n of
              None \<Rightarrow> []
            | Some s \<Rightarrow> [''  - We could not match '' @ quote_mark @ n @ quote_mark @ '' '' @ em_dash @ '' did you mean '' @ s @ ''?'']) names);
          plain = filter (\<lambda>n. suggestion_for sg n = None) names;
          unmatched = (if plain = [] then []
             else [''  - We could not confidently match these names to an employee: '' @ py_join '', '' plain @ ''.'']);
          missing = (if missing_fields d = [] then []
             else [''  - We are missing required information for: '' @ py_join '', '' (missing_fields d) @ ''.'']);
          fr = field_regression_lines (gate_reasons d);
          other = (if names = [] \<and> missing_fields d = [] \<and> fr = [] then map (\<lambda>r. ''  - '' @ r) (gate_reasons d) else [])
      in py_join newline
           ([''Hello,'', [], ''We started processing your payroll but need to confirm a few details before we can finish:'', []]
            @ suggested @ unmatched @ missing @ fr @ other
            @ [[], ''Could you please reply with the correct details so we can complete the run? Thank you!'']))"

definition compose_clarification :: "string option \<Rightarrow> decision \<Rightarrow> (string, string) dict \<Rightarrow> string" where
  "compose_clarification draft d sg =
     (case draft of
        None \<Rightarrow> template_body d sg
      | Some body \<Rightarrow>
          if py_strip body = [] then template_body d sg
          else (let fr = field_regression_lines (gate_reasons d)
                in if fr = [] then body
                   else rev (dropWhile (\<lambda>c. c = CHR 0x0A) (rev body)) @ newline @ newline @ py_join newline fr))"

subsection \<open>Every regressed field is asked about\<close>

lemma takeWhile_whole: "\<forall>c \<in> set xs. P c \<Longrightarrow> \<not> P y \<Longrightarrow> takeWhile P (xs @ y # ys) = xs \<and> dropWhile P (xs @ y # ys) = y # ys"
  by (induction xs) auto

lemma rsplit_dot_join:
  assumes "CHR ''.'' \<notin> set f"
  shows "rsplit_dot (n @ ''.'' @ f) = Some (n, f)"
proof -
  have "\<forall>c \<in> set (rev f). c \<noteq> CHR ''.''" using assms by auto
  from takeWhile_whole [OF this, of "CHR ''.''" "rev n"] show ?thesis by (simp add: rsplit_dot_def)
qed

lemma removeprefix_append [simp]: "removeprefix p (p @ s) = Some s"
  by (simp add: removeprefix_def)

lemma sublist_tail: "sublist w s \<Longrightarrow> sublist w (p @ s)"
  by (auto simp: sublist_def) (metis append.assoc)

lemma sublist_join: "w \<in> set ws \<Longrightarrow> sublist w (py_join sep ws)"
proof (induction sep ws rule: py_join.induct)
  case (3 sep v x ws)
  show ?case
  proof (cases "w = v")
    case True
    then show ?thesis by (auto simp: sublist_def intro: exI [of _ "[]"])
  next
    case False
    with 3 have "sublist w (py_join sep (x # ws))" by simp
    then show ?thesis using sublist_tail [of w "py_join sep (x # ws)" "v @ sep"] by simp
  qed
qed auto

lemma py_join_snoc: "ls \<noteq> [] \<Longrightarrow> py_join sep (ls @ [l]) = py_join sep ls @ sep @ l"
  by (induction sep ls rule: py_join.induct) auto

lemma field_regression_lines_mem:
  assumes "''field regression: '' @ n @ ''.'' @ f \<in> set reasons" "CHR ''.'' \<notin> set f"
  shows "regression_line n f \<in> set (field_regression_lines reasons)"
proof -
  let ?r = "''field regression: '' @ n @ ''.'' @ f"
  have "regression_line n f \<in> set (case removeprefix ''field regression: '' ?r of None \<Rightarrow> []
      | Some q \<Rightarrow> (case rsplit_dot q of None \<Rightarrow> [] | Some (n, f) \<Rightarrow> [regression_line n f]))"
    using rsplit_dot_join [OF assms(2), of n] removeprefix_append [of "''field regression: ''" "n @ ''.'' @ f"]
    by (simp del: append.simps)
  then show ?thesis using assms(1) unfolding field_regression_lines_def set_concat set_map by blast
qed

lemma compose_sublist:
  assumes "l \<in> set (field_regression_lines (gate_reasons d))"
  shows "sublist l (compose_clarification draft d sg)"
proof -
  have template: "sublist l (template_body d sg)"
    unfolding template_body_def Let_def by (rule sublist_join) (use assms in simp)
  have fr: "sublist l (py_join newline (field_regression_lines (gate_reasons d)))" by (rule sublist_join [OF assms])
  have "field_regression_lines (gate_reasons d) \<noteq> []" using assms by auto
  moreover have "sublist l (body @ newline @ newline @ py_join newline (field_regression_lines (gate_reasons d)))" for body
    using sublist_tail [OF fr, of "body @ newline @ newline"] by simp
  ultimately show ?thesis using template by (auto simp: compose_clarification_def Let_def split: option.split)
qed

lemma suggestions_on_roster:
  assumes "map_of (suggest_employees names r response) n = Some s"
  shows "s \<noteq> [] \<and> s \<in> full_name ` set (roster_employees r)"
proof -
  obtain ss where "response = Some ss" and
    "(n, s) \<in> set (concat (map (\<lambda>(submitted, s). case s of None \<Rightarrow> []
        | Some n \<Rightarrow> if n = [] \<or> n \<notin> full_name ` set (roster_employees r) then [] else [(submitted, n)]) ss))"
    using assms map_of_rev_SomeD by (fastforce simp: suggest_employees_def split: if_splits option.splits)
  then show ?thesis by (auto split: option.splits if_splits)
qed

end
