(* ===== verification/Clarification.thy ===== *)
theory Clarification
  imports Outbox Compose
begin

section \<open>Asking the client\<close>

text \<open>
  \<open>app/pipeline/clarification.py\<close>: one clarification round. The suggestions and the draft of the
  language model, the clock and fresh identifiers are arguments. The round number is the key of
  the slot and the bound of the conversation.
\<close>

subsection \<open>The mail and the settings\<close>

record mail =
  ml_message_id :: string
  ml_in_reply_to :: "string option"
  ml_references :: "string option"
  ml_subject :: string
  ml_from :: string
  ml_to :: string
  ml_body :: string

record settings =
  cf_from :: string
  cf_reply_to :: string
  cf_outbound_to :: string
  cf_job_attempts :: int

definition resolve_outbound_recipient :: "settings \<Rightarrow> string \<Rightarrow> string" where
  "resolve_outbound_recipient cfg client = (if py_strip (cf_outbound_to cfg) = [] then client else py_strip (cf_outbound_to cfg))"

definition str_or_none :: "string \<Rightarrow> string option" where
  "str_or_none s = (if s = [] then None else Some s)"

subsection \<open>The context of a reply\<close>

definition render_asked_summary :: "decision option \<Rightarrow> clarified_fields \<Rightarrow> string list" where
  "render_asked_summary d c =
     map (\<lambda>n. n @ '': name could not be matched to a roster employee'') (case d of None \<Rightarrow> [] | Some dec \<Rightarrow> unresolved_names dec)
     @ concat (map (\<lambda>(i, fs). concat (map (\<lambda>(f, out). if out = Asked then [i @ '': '' @ field_name f @ '' is missing''] else []) fs)) c)"

fun prior_sections :: "nat \<Rightarrow> string list \<Rightarrow> string list" where
  "prior_sections n [] = []"
| "prior_sections n (b # bs) = [''CLARIFICATION REPLY '' @ nat_str n @ '' FROM CLIENT:'', b, []] @ prior_sections (Suc n) bs"

definition combined_context_email :: "mail \<Rightarrow> string \<Rightarrow> string list \<Rightarrow> string list \<Rightarrow> mail" where
  "combined_context_email reply original asked prior =
     reply\<lparr>ml_body := py_join newline
       ([''ORIGINAL PAYROLL EMAIL:'', original, []]
        @ (if asked = [] then [] else ''QUESTIONS WE ASKED:'' # asked @ [[]])
        @ prior_sections 1 prior
        @ [''CLARIFICATION REPLY '' @ nat_str (length prior + 1) @ '' FROM CLIENT (CURRENT):'', ml_body reply])\<rparr>"

subsection \<open>One round\<close>

definition MAX_CLARIFICATION_ROUNDS :: nat where
  "MAX_CLARIFICATION_ROUNDS = 3"

definition get_clarification_round :: "uuid \<Rightarrow> db \<Rightarrow> nat" where
  "get_clarification_round run d = (case load_run run d of None \<Rightarrow> 0 | Some r \<Rightarrow> clarification_round r)"

text \<open>The employees a token already names, by full name or by alias.\<close>

definition token_candidates :: "unicode \<Rightarrow> string \<Rightarrow> roster \<Rightarrow> uuid list" where
  "token_candidates u t r =
     map emp_id (filter (\<lambda>e. normalize_name u (full_name e) = normalize_name u t) (roster_employees r))
     @ map emp_id (filter (\<lambda>e. list_ex (\<lambda>a. normalize_name u a = normalize_name u t) (known_aliases e)) (roster_employees r))"

definition captured_token :: "unicode \<Rightarrow> decision \<Rightarrow> roster \<Rightarrow> string option" where
  "captured_token u d r =
     (case unresolved_names d of
        [t] \<Rightarrow> if token_candidates u t r = [] then Some t else None
      | _ \<Rightarrow> None)"

definition capture :: "unicode \<Rightarrow> decision \<Rightarrow> roster \<Rightarrow> (string, string) dict \<Rightarrow> (string, candidate_value) dict option" where
  "capture u d r sg =
     map_option (\<lambda>t. [(t, CandDict (Option.bind (map_of sg t)
         (\<lambda>n. map_option (uuid_str \<circ> emp_id) (first_match (\<lambda>e. full_name e = n) (roster_employees r)))) None)])
       (captured_token u d r)"

definition await_reply :: "uuid \<Rightarrow> extracted \<Rightarrow> nat \<Rightarrow> db \<Rightarrow> db" where
  "await_reply run x n =
     update_run run (\<lambda>r. set_status AWAITING_REPLY (set_clarification_round n (snd (set_pre_clarify_extracted x r))))"

text \<open>What the models and the clock answer during one round.\<close>

record round_inputs =
  rd_now :: instant
  rd_ids :: slot_ids
  rd_suggest :: "(string \<times> string option) list option"
  rd_draft :: "string option"

definition clarification_envelope :: "settings \<Rightarrow> mail \<Rightarrow> string \<Rightarrow> envelope" where
  "clarification_envelope cfg m body =
     \<lparr>en_from = cf_from cfg, en_to = resolve_outbound_recipient cfg (ml_from m), en_reply_to = str_or_none (cf_reply_to cfg),
      en_in_reply_to = Some (ml_message_id m), en_references = Some (ml_message_id m),
      en_subject = clarification_subject (ml_subject m), en_body = body, en_attachments = []\<rparr>"

text \<open>The transaction of a fresh question.\<close>

definition ask :: "unicode \<Rightarrow> settings \<Rightarrow> round_inputs \<Rightarrow> uuid \<Rightarrow> mail \<Rightarrow> decision \<Rightarrow> roster \<Rightarrow> extracted \<Rightarrow> purpose \<Rightarrow> nat \<Rightarrow> db \<Rightarrow> db res" where
  "ask u cfg ri run m dec r x p n d =
     (let sg = suggest_employees (unresolved_names dec) r (rd_suggest ri);
          body = compose_clarification (rd_draft ri) dec sg
      in bind_res (reserve_outbound_snapshot (rd_now ri) (rd_ids ri) run p (int n) (clarification_envelope cfg m body) d) (\<lambda>(ob, d1).
         bind_res (enqueue_send (rd_now ri) (cf_job_attempts cfg) (sl_job (rd_ids ri)) run (ob_email ob) d1) (\<lambda>d2.
         Inr (await_reply run x (ob_round ob + 1)
           (case capture u dec r sg of None \<Rightarrow> d2 | Some cs \<Rightarrow> update_run run (set_alias_candidates cs) d2)))))"

text \<open>The transaction on a slot that is reserved already: queue it again, if it is not.\<close>

definition ask_again :: "settings \<Rightarrow> round_inputs \<Rightarrow> uuid \<Rightarrow> uuid \<Rightarrow> extracted \<Rightarrow> db \<Rightarrow> db res" where
  "ask_again cfg ri run email x d =
     (case lock_frozen_snapshot run email d of
        None \<Rightarrow> Inl RuntimeError
      | Some ob \<Rightarrow>
          bind_res (enqueue_send (rd_now ri) (cf_job_attempts cfg) (sl_job (rd_ids ri)) run email d) (\<lambda>d1.
          Inr (await_reply run x (ob_round ob + 1) d1)))"

definition clarify :: "unicode \<Rightarrow> settings \<Rightarrow> round_inputs \<Rightarrow> uuid \<Rightarrow> mail \<Rightarrow> decision \<Rightarrow> roster \<Rightarrow> extracted \<Rightarrow> purpose \<Rightarrow> unit act" where
  "clarify u cfg ri run m dec r x p d =
     (let n = get_clarification_round run d
      in if MAX_CLARIFICATION_ROUNDS \<le> n then writing (update_run run (set_status NEEDS_OPERATOR)) d
         else (case get_outbound_for_round run p n d of
                 Some (mid, sent_round) \<Rightarrow> writing (await_reply run x (sent_round + 1)) d
               | None \<Rightarrow>
                   (case outbound_replay_policy run p n d of
                      Some email \<Rightarrow> transaction (ask_again cfg ri run email x) d
                    | None \<Rightarrow> transaction (ask u cfg ri run m dec r x p n) d)))"

subsection \<open>The round after a field regression\<close>

definition asked_field :: "(string, uuid) dict \<Rightarrow> validation_issue \<Rightarrow> (string \<times> hours_field) option" where
  "asked_field ids i =
     (if issue_kind i \<noteq> FieldRegression then None
      else Option.bind (rsplit_dot (issue_field i)) (\<lambda>(n, f).
        Option.bind (map_of ids n) (\<lambda>e.
          map_option (\<lambda>h. (uuid_str e, h)) (first_match (\<lambda>h. field_name h = f) HOURS_FIELDS))))"

definition mark_asked :: "string \<times> hours_field \<Rightarrow> clarified_fields \<Rightarrow> clarified_fields" where
  "mark_asked k c =
     (if outcome_of c k \<in> {Some ConfirmedDropped, Some ClientSupplied, Some CarriedForward} then c
      else AList.update (fst k) (AList.update (snd k) Asked (case map_of c (fst k) of None \<Rightarrow> [] | Some fs \<Rightarrow> fs)) c)"

definition mark_regressions :: "(string, uuid) dict \<Rightarrow> validation_issue list \<Rightarrow> clarified_fields \<Rightarrow> clarified_fields" where
  "mark_regressions ids issues c =
     fold (\<lambda>i c. case asked_field ids i of None \<Rightarrow> c | Some k \<Rightarrow> mark_asked k c) issues c"

definition matched_ids :: "name_match list \<Rightarrow> (string, uuid) dict" where
  "matched_ids ms = dict_of (concat (map (\<lambda>m. case matched_employee_id m of None \<Rightarrow> [] | Some i \<Rightarrow> [(match_name m, i)]) ms))"

definition defer_field_regression_clarification ::
  "unicode \<Rightarrow> settings \<Rightarrow> round_inputs \<Rightarrow> uuid \<Rightarrow> clarified_fields \<Rightarrow> validation_issue list \<Rightarrow> mail \<Rightarrow> roster \<Rightarrow> unit act" where
  "defer_field_regression_clarification u cfg ri run c issues m r =
     act_bind (reading (\<lambda>d. Inr (mark_regressions
         (case Option.bind (load_run run d) reconciliation of None \<Rightarrow> [] | Some ms \<Rightarrow> matched_ids ms) issues c))) (\<lambda>c'.
     act_bind (writing (update_run run (set_clarified_fields c'))) (\<lambda>_ d.
       (case load_run run d of
          None \<Rightarrow> act_return () d
        | Some rr \<Rightarrow>
            (case (decision_data rr, extracted_data rr) of
               (Some dec, Some x) \<Rightarrow> clarify u cfg ri run m dec r x PurposeFieldRegression d
             | _ \<Rightarrow> act_return () d))))"

subsection \<open>What a round does\<close>

lemma load_run_update_run:
  assumes "\<And>r. run_id (f r) = run_id r"
  shows "load_run i (update_run run f d) = map_option (\<lambda>r. if run_id r = run then f r else r) (load_run i d)"
  using assms by (simp add: load_run_def update_run_def first_match_update)

lemma load_run_update_same:
  assumes "\<And>r. run_id (f r) = run_id r" "load_run run d = Some r"
  shows "load_run run (update_run run f d) = Some (f r)"
  using load_run_update_run [of f run run d] load_run_Some [OF assms(2)] assms by simp

lemma update_run_frame [simp]:
  "db_outbound (update_run run f d) = db_outbound d" "db_jobs (update_run run f d) = db_jobs d"
  "db_handoffs (update_run run f d) = db_handoffs d" "db_inbox (update_run run f d) = db_inbox d"
  "db_staff (update_run run f d) = db_staff d" "db_resolutions (update_run run f d) = db_resolutions d"
  "db_businesses (update_run run f d) = db_businesses d" "db_bindings (update_run run f d) = db_bindings d"
  "db_deliveries (update_run run f d) = db_deliveries d" "db_events (update_run run f d) = db_events d"
  by (simp_all add: update_run_def)

definition waiting :: "extracted \<Rightarrow> nat \<Rightarrow> payroll_run \<Rightarrow> payroll_run" where
  "waiting x n r = set_status AWAITING_REPLY (set_clarification_round n (snd (set_pre_clarify_extracted x r)))"

lemma waiting_simps [simp]:
  "run_id (waiting x n r) = run_id r" "status (waiting x n r) = AWAITING_REPLY" "clarification_round (waiting x n r) = n"
  "reply_epoch (waiting x n r) = reply_epoch r" "alias_candidates (waiting x n r) = alias_candidates r"
  "pre_clarify_extracted (waiting x n r) = Some (case pre_clarify_extracted r of None \<Rightarrow> x | Some y \<Rightarrow> y)"
  "business_id (waiting x n r) = business_id r" "error_reason (waiting x n r) = error_reason r"
  by (auto simp: waiting_def set_status_def set_clarification_round_def set_pre_clarify_extracted_def)

lemma await_reply_alt: "await_reply run x n d = update_run run (waiting x n) d"
  by (simp add: await_reply_def waiting_def [abs_def])

lemma await_reply_frame [simp]:
  "db_outbound (await_reply run x n d) = db_outbound d" "db_jobs (await_reply run x n d) = db_jobs d"
  by (simp_all add: await_reply_alt)

lemma load_run_await: "load_run run d = Some r \<Longrightarrow> load_run run (await_reply run x n d) = Some (waiting x n r)"
  unfolding await_reply_alt by (rule load_run_update_same) simp_all

lemma set_alias_candidates_simps [simp]:
  "run_id (set_alias_candidates cs r) = run_id r" "status (set_alias_candidates cs r) = status r"
  "reply_epoch (set_alias_candidates cs r) = reply_epoch r" "clarification_round (set_alias_candidates cs r) = clarification_round r"
  by (simp_all add: set_alias_candidates_def)

text \<open>The question of a round: its envelope, and the writes of a fresh one.\<close>

definition question :: "settings \<Rightarrow> round_inputs \<Rightarrow> mail \<Rightarrow> decision \<Rightarrow> roster \<Rightarrow> envelope" where
  "question cfg ri m dec ros =
     clarification_envelope cfg m (compose_clarification (rd_draft ri) dec (suggest_employees (unresolved_names dec) ros (rd_suggest ri)))"

definition awaiting :: "uuid \<Rightarrow> nat \<Rightarrow> nat \<Rightarrow> db \<Rightarrow> bool" where
  "awaiting run n e d \<longleftrightarrow>
     (\<exists>r. load_run run d = Some r \<and> status r = AWAITING_REPLY \<and> clarification_round r = n \<and> reply_epoch r = e)"

lemma awaiting_await: "load_run run d = Some r \<Longrightarrow> awaiting run n (reply_epoch r) (await_reply run x n d)"
  by (auto simp: awaiting_def load_run_await)

lemma captured_run:
  assumes "load_run run d = Some r"
  obtains r' where "load_run run (case k of None \<Rightarrow> d | Some cs \<Rightarrow> update_run run (set_alias_candidates cs) d) = Some r'"
    "reply_epoch r' = reply_epoch r"
  using assms load_run_update_same [of "set_alias_candidates cs" run d r for cs] that by (cases k) auto

lemma ask_fresh:
  assumes "load_run run d = Some r" "first_match (in_slot run p n (reply_epoch r)) (db_outbound d) = None"
  shows "sl_message_id (rd_ids ri) \<in> set (message_ids d) \<or> \<not> envelope_ok (question cfg ri m dec ros)
      \<Longrightarrow> ask u cfg ri run m dec ros x p n d = Inl DatabaseError"
    and "\<not> (sl_message_id (rd_ids ri) \<in> set (message_ids d) \<or> \<not> envelope_ok (question cfg ri m dec ros))
      \<Longrightarrow> \<exists>d'. ask u cfg ri run m dec ros x p n d = Inr d' \<and> awaiting run (n + 1) (reply_epoch r) d'
        \<and> db_outbound d' = db_outbound d @ [new_slot (rd_now ri) (rd_ids ri) run p n (reply_epoch r) (question cfg ri m dec ros)]
        \<and> db_jobs d' = with_send (rd_now ri) (sl_job (rd_ids ri)) run (sl_email (rd_ids ri)) (db_jobs d)"
proof -
  have e: "run_epoch run d = Some (reply_epoch r)" using assms(1) by (simp add: run_epoch_def)
  let ?bad = "sl_message_id (rd_ids ri) \<in> set (message_ids d) \<or> \<not> envelope_ok (question cfg ri m dec ros)"
  let ?ob = "new_slot (rd_now ri) (rd_ids ri) run p n (reply_epoch r) (question cfg ri m dec ros)"
  have res: "reserve_outbound_snapshot (rd_now ri) (rd_ids ri) run p (int n) (question cfg ri m dec ros) d =
      (if ?bad then Inl DatabaseError else Inr (?ob, d\<lparr>db_outbound := db_outbound d @ [?ob]\<rparr>))"
    by (simp add: reserve_outbound_snapshot_def e assms(2) Let_def)
  show "?bad \<Longrightarrow> ask u cfg ri run m dec ros x p n d = Inl DatabaseError"
    using res by (simp add: ask_def Let_def question_def)
  assume ok: "\<not> ?bad"
  define d2 where "d2 = d\<lparr>db_outbound := db_outbound d @ [?ob],
      db_jobs := with_send (rd_now ri) (sl_job (rd_ids ri)) run (sl_email (rd_ids ri)) (db_jobs d)\<rparr>"
  define d3 where "d3 = (case capture u dec ros (suggest_employees (unresolved_names dec) ros (rd_suggest ri)) of None \<Rightarrow> d2
      | Some cs \<Rightarrow> update_run run (set_alias_candidates cs) d2)"
  have a: "ask u cfg ri run m dec ros x p n d = Inr (await_reply run x (n + 1) d3)"
    using res ok by (simp add: ask_def Let_def question_def enqueue_send_eq d2_def d3_def split: option.split)
  have "load_run run d2 = Some r" using assms(1) by (simp add: d2_def load_run_def)
  then obtain r' where "load_run run d3 = Some r'" "reply_epoch r' = reply_epoch r"
    unfolding d3_def by (rule captured_run)
  moreover have "db_outbound d3 = db_outbound d2" "db_jobs d3 = db_jobs d2" by (simp_all add: d3_def split: option.split)
  ultimately show "\<exists>d'. ask u cfg ri run m dec ros x p n d = Inr d' \<and> awaiting run (n + 1) (reply_epoch r) d'
        \<and> db_outbound d' = db_outbound d @ [?ob]
        \<and> db_jobs d' = with_send (rd_now ri) (sl_job (rd_ids ri)) run (sl_email (rd_ids ri)) (db_jobs d)"
    using awaiting_await [of run d3 r'] a by (auto simp: d2_def)
qed

lemma ask_again_eq:
  assumes "outbox_ok d" "load_run run d = Some r" "first_match (in_slot run p n (reply_epoch r)) (db_outbound d) = Some ob"
  shows "ask_again cfg ri run (ob_email ob) x d =
    Inr (await_reply run x (n + 1) (d\<lparr>db_jobs := with_send (rd_now ri) (sl_job (rd_ids ri)) run (ob_email ob) (db_jobs d)\<rparr>))"
proof -
  have ob: "ob \<in> set (db_outbound d)" "in_slot run p n (reply_epoch r) ob" using first_match_SomeD [OF assms(3)] by simp_all
  have only: "o' = ob" if "o' \<in> set (db_outbound d)" "ob_email o' = ob_email ob" for o'
    by (rule distinct_key [of ob_email "db_outbound d"]) (use assms(1) that ob in \<open>simp_all add: outbox_ok_def\<close>)
  have "lock_frozen_snapshot run (ob_email ob) d \<noteq> None"
    using ob unfolding lock_frozen_snapshot_def first_match_None by (auto simp: in_slot_def)
  then obtain o' where o': "lock_frozen_snapshot run (ob_email ob) d = Some o'" by blast
  then have "o' = ob" using only by (auto simp: lock_frozen_snapshot_def dest: first_match_SomeD)
  with o' ob show ?thesis by (simp add: ask_again_def enqueue_send_eq in_slot_def)
qed

lemma pending_slot:
  assumes "outbound_replay_policy run p n d = Some email"
  obtains ob where "ob \<in> set (db_outbound d)" "ob_email ob = email" "of_epoch run p d ob" "ob_round ob = n" "ob_state ob \<in> {Reserved, SendFailed}"
  using assms latest_Some that unfolding outbound_replay_policy_def get_unconfirmed_outbound_def
  by (smt (verit) map_option_eq_Some)

lemma clarify_outcome:
  assumes "load_run run d = Some r" "clarify u cfg ri run m dec ros x p d = (Inr (), d')"
  shows "\<exists>r'. load_run run d' = Some r' \<and>
    status r' = (if MAX_CLARIFICATION_ROUNDS \<le> clarification_round r then NEEDS_OPERATOR else AWAITING_REPLY)"
proof -
  have esc: "load_run run (update_run run (set_status NEEDS_OPERATOR) d) = Some (set_status NEEDS_OPERATOR r)"
    by (rule load_run_update_same) (simp_all add: set_status_def assms(1))
  have wait: "\<exists>r'. load_run run (await_reply run x n d2) = Some r' \<and> status r' = AWAITING_REPLY" if "load_run run d2 = Some r2" for n d2 r2
    using load_run_await [OF that] by simp
  have cand: "\<exists>r2. load_run run (case k of None \<Rightarrow> d2 | Some cs \<Rightarrow> update_run run (set_alias_candidates cs) d2) = Some r2"
    if "db_runs d2 = db_runs d" for d2 k
  proof -
    have "load_run run d2 = Some r" using load_run_cong [OF that] assms(1) by simp
    then show ?thesis by (rule captured_run) blast
  qed
  have a: "\<exists>r'. load_run run d' = Some r' \<and> status r' = AWAITING_REPLY" if ask: "ask u cfg ri run m dec ros x p n d = Inr d'" for n
  proof -
    obtain ob d1 k where res: "reserve_outbound_snapshot (rd_now ri) (rd_ids ri) run p (int n) (question cfg ri m dec ros) d = Inr (ob, d1)"
      and d': "d' = await_reply run x (ob_round ob + 1) (case k of None \<Rightarrow> d1\<lparr>db_jobs := with_send (rd_now ri) (sl_job (rd_ids ri)) run (ob_email ob) (db_jobs d1)\<rparr>
          | Some cs \<Rightarrow> update_run run (set_alias_candidates cs) (d1\<lparr>db_jobs := with_send (rd_now ri) (sl_job (rd_ids ri)) run (ob_email ob) (db_jobs d1)\<rparr>))"
      using ask by (auto simp: ask_def Let_def res_simps question_def enqueue_send_eq)
    show ?thesis using wait cand [of "d1\<lparr>db_jobs := with_send (rd_now ri) (sl_job (rd_ids ri)) run (ob_email ob) (db_jobs d1)\<rparr>" k]
        reserve_slot [OF res] unfolding d' by auto
  qed
  have b: "\<exists>r'. load_run run d' = Some r' \<and> status r' = AWAITING_REPLY" if "ask_again cfg ri run email x d = Inr d'" for email
    using that wait [of "d\<lparr>db_jobs := js\<rparr>" r for js] assms(1)
    by (auto simp: ask_again_def res_simps enqueue_send_eq load_run_def split: option.splits)
  show ?thesis using assms a b esc wait [OF assms(1)]
    by (auto simp: clarify_def Let_def get_clarification_round_def writing_def transaction_Inr set_status_def split: if_splits option.splits)
qed

text \<open>A failed round leaves the database as it was.\<close>

lemma clarify_error: "clarify u cfg ri run m dec ros x p d = (Inl e, d') \<Longrightarrow> d' = d"
  by (auto simp: clarify_def Let_def writing_def transaction_Inl split: if_splits option.splits)

text \<open>C10. One round, exactly. Three questions are asked, at the rounds 0, 1 and 2; a run that comes back after the third is handed to the
  operator and nothing is sent. Before that the slot of the round decides: a question that was sent is not sent
  again; one that is reserved or failed keeps its text and gets a send job, due now, unless a job for it exists; and without one
  the question is reserved with such a job. In these cases the run waits for a reply at the next round. The round fails exactly
  when a fresh question has a message id that is taken or an envelope without a sender or recipient, and
  then every table is as it was.\<close>

theorem clarify_asks_or_escalates:
  assumes "outbox_ok d" "load_run run d = Some r" "send_outbound_dedup_key (sl_email (rd_ids ri)) \<notin> dedup_key ` set (db_jobs d)"
    "clarify u cfg ri run m dec ros x p d = (q, d')"
  shows "if 3 \<le> clarification_round r
    then q = Inr () \<and> (\<exists>r'. load_run run d' = Some r' \<and> status r' = NEEDS_OPERATOR \<and> clarification_round r' = clarification_round r)
      \<and> db_outbound d' = db_outbound d \<and> db_jobs d' = db_jobs d
    else (case first_match (in_slot run p (clarification_round r) (reply_epoch r)) (db_outbound d) of
        Some ob \<Rightarrow> q = Inr () \<and> awaiting run (clarification_round r + 1) (reply_epoch r) d' \<and> db_outbound d' = db_outbound d
          \<and> db_jobs d' = (if ob_state ob = MailSent \<or> send_outbound_dedup_key (ob_email ob) \<in> dedup_key ` set (db_jobs d) then db_jobs d
                           else db_jobs d @ [send_row (rd_now ri) (sl_job (rd_ids ri)) run (ob_email ob)])
      | None \<Rightarrow>
          if sl_message_id (rd_ids ri) \<in> set (message_ids d) \<or> \<not> envelope_ok (question cfg ri m dec ros)
          then q = Inl DatabaseError \<and> d' = d
          else q = Inr () \<and> awaiting run (clarification_round r + 1) (reply_epoch r) d'
            \<and> db_outbound d' = db_outbound d
                @ [new_slot (rd_now ri) (rd_ids ri) run p (clarification_round r) (reply_epoch r) (question cfg ri m dec ros)]
            \<and> db_jobs d' = db_jobs d @ [send_row (rd_now ri) (sl_job (rd_ids ri)) run (sl_email (rd_ids ri))])"
proof (cases "3 \<le> clarification_round r")
  case True
  then have d': "q = Inr ()" "d' = update_run run (set_status NEEDS_OPERATOR) d"
    using assms(2,4) by (auto simp: clarify_def get_clarification_round_def writing_def MAX_CLARIFICATION_ROUNDS_def)
  moreover have "load_run run d' = Some (set_status NEEDS_OPERATOR r)"
    unfolding d' by (rule load_run_update_same) (simp_all add: set_status_def assms(2))
  ultimately show ?thesis using True by (simp add: set_status_def)
next
  case False
  let ?n = "clarification_round r"
  have n: "get_clarification_round run d = ?n" "\<not> MAX_CLARIFICATION_ROUNDS \<le> ?n"
    using assms(2) False by (simp_all add: get_clarification_round_def MAX_CLARIFICATION_ROUNDS_def)
  have e: "run_epoch run d = Some (reply_epoch r)" using assms(2) by (simp add: run_epoch_def)
  note body = assms(4) [unfolded clarify_def Let_def n(1) if_not_P [OF n(2)]]
  show ?thesis
  proof (cases "first_match (in_slot run p ?n (reply_epoch r)) (db_outbound d)")
    case None
    note look = slot_lookups(1) [OF assms(1) e None] and fresh = ask_fresh [OF assms(2) None, of ri cfg m dec ros u x]
    show ?thesis using body look fresh False None assms(3)
      by (cases "sl_message_id (rd_ids ri) \<in> set (message_ids d) \<or> \<not> envelope_ok (question cfg ri m dec ros)")
        (auto simp: transaction_def with_send_def)
  next
    case (Some ob)
    note look = slot_lookups(2) [OF assms(1) e Some] and again = ask_again_eq [OF assms(1,2) Some, of cfg ri x]
    have r1: "load_run run (d\<lparr>db_jobs := js\<rparr>) = Some r" for js using assms(2) by (simp add: load_run_def)
    show ?thesis using body look again False Some awaiting_await [OF assms(2), of "?n + 1" x] awaiting_await [OF r1, of "?n + 1" x]
      by (cases "ob_state ob = MailSent") (auto simp: transaction_def writing_def with_send_def)
  qed
qed

text \<open>A round fails only for a reason of the mail: a fresh message id that is taken, or an
  envelope without a sender or a recipient.\<close>

lemma ask_total:
  assumes "load_run run d = Some r" "sl_message_id (rd_ids ri) \<notin> set (message_ids d)" "nonblank (cf_from cfg)"
    "nonblank (resolve_outbound_recipient cfg (ml_from m))"
  shows "\<exists>d'. ask u cfg ri run m dec ros x p n d = Inr d'"
proof -
  let ?sg = "suggest_employees (unresolved_names dec) ros (rd_suggest ri)"
  let ?en = "clarification_envelope cfg m (compose_clarification (rd_draft ri) dec ?sg)"
  have "envelope_ok ?en" using assms(3,4) by (simp add: envelope_ok_def clarification_envelope_def)
  moreover have "run_epoch run d = Some (reply_epoch r)" using assms(1) by (simp add: run_epoch_def)
  ultimately obtain ob d1 where q: "reserve_outbound_snapshot (rd_now ri) (rd_ids ri) run p (int n) ?en d = Inr (ob, d1)"
    using reserve_total [OF _ _ assms(2)] by (metis of_nat_0_le_iff)
  obtain d2 where "enqueue_send (rd_now ri) (cf_job_attempts cfg) (sl_job (rd_ids ri)) run (ob_email ob) d1 = Inr d2"
    using enqueue_send_total by blast
  with q show ?thesis by (auto simp: ask_def Let_def res_simps)
qed

lemma clarify_returns:
  assumes "load_run run d = Some r" "sl_message_id (rd_ids ri) \<notin> set (message_ids d)" "nonblank (cf_from cfg)"
    "nonblank (resolve_outbound_recipient cfg (ml_from m))"
  shows "\<exists>d'. clarify u cfg ri run m dec ros x p d = (Inr (), d')"
proof -
  obtain d1 where a: "ask u cfg ri run m dec ros x p (get_clarification_round run d) d = Inr d1"
    using ask_total [OF assms] by blast
  have "\<exists>d'. ask_again cfg ri run email x d = Inr d'" if p: "outbound_replay_policy run p (get_clarification_round run d) d = Some email" for email
  proof -
    obtain ob where "ob \<in> set (db_outbound d)" "ob_email ob = email" "of_epoch run p d ob"
      using pending_slot [OF p] by blast
    then have "lock_frozen_snapshot run email d \<noteq> None"
      unfolding lock_frozen_snapshot_def first_match_None by (auto simp: of_epoch_def)
    then obtain o' where "lock_frozen_snapshot run email d = Some o'" by blast
    moreover obtain d2 where "enqueue_send (rd_now ri) (cf_job_attempts cfg) (sl_job (rd_ids ri)) run email d = Inr d2"
      using enqueue_send_total by blast
    ultimately show ?thesis by (auto simp: ask_again_def res_simps)
  qed
  with a show ?thesis by (fastforce simp: clarify_def Let_def writing_def transaction_def split: option.split)
qed

subsection \<open>Capturing an alias\<close>

text \<open>The token a question captures for learning is the only open name of the decision and names
  nobody on the roster, by full name or by alias.\<close>

lemma captured_token_is_unknown:
  assumes "captured_token u dec ros = Some t"
  shows "unresolved_names dec = [t] \<and> (\<forall>e \<in> set (roster_employees ros).
    normalize_name u (full_name e) \<noteq> normalize_name u t \<and> (\<forall>a \<in> set (known_aliases e). normalize_name u a \<noteq> normalize_name u t))"
  using assms by (auto simp: captured_token_def token_candidates_def filter_empty_conv list_ex_iff split: list.splits if_splits)

end
