(* ===== verification/Inbox.thy ===== *)
theory Inbox
  imports Clarification
begin

section \<open>Mail that comes in\<close>

text \<open>
  \<open>app/email/clean.py\<close>, the inbound half of \<open>app/db/repo/emails.py\<close> and \<open>runs.py\<close>,
  \<open>app/ingest.py\<close>, \<open>app/routes/pipeline_glue.py\<close>, \<open>app/db/repo/inbound_events.py\<close> and the durable
  receipt of \<open>app/routes/webhook.py\<close>: from the bytes of a webhook to the run a reply belongs to.
\<close>

subsection \<open>Cleaning a body\<close>

definition line_break :: "char \<Rightarrow> bool" where
  "line_break c \<longleftrightarrow> of_char c \<in> {10, 11, 12, 13, 28, 29, 30, 133 :: nat}"

text \<open>\<open>str.splitlines\<close>: a carriage return and the line feed after it are one break, and a last
  line without text is not a line.\<close>

fun py_splitlines_aux :: "string \<Rightarrow> string \<Rightarrow> string list" where
  "py_splitlines_aux acc [] = (if acc = [] then [] else [rev acc])"
| "py_splitlines_aux acc (c # cs) =
     (if line_break c
      then rev acc # py_splitlines_aux [] (if c = CHR 0x0D \<and> cs \<noteq> [] \<and> hd cs = CHR 0x0A then tl cs else cs)
      else py_splitlines_aux (c # acc) cs)"

definition splitlines :: "string \<Rightarrow> string list" where
  "splitlines = py_splitlines_aux []"

definition word_char :: "char \<Rightarrow> bool" where
  "word_char c \<longleftrightarrow> (let n = of_char c :: nat in (48 \<le> n \<and> n \<le> 57) \<or> (65 \<le> n \<and> n \<le> 90) \<or> n = 95 \<or> (97 \<le> n \<and> n \<le> 122)
     \<or> n \<in> {170, 178, 179, 181, 185, 186, 188, 189, 190} \<or> (192 \<le> n \<and> n \<noteq> 215 \<and> n \<noteq> 247))"

definition starts_ci :: "string \<Rightarrow> string \<Rightarrow> bool" where
  "starts_ci p s \<longleftrightarrow> map lower_char (take (length p) s) = p"

text \<open>\<open>^On .*wrote:\s*$\<close> and \<open>^(--\s*|Sent from my\b.*)$\<close> on a stripped line, ignoring case.\<close>

definition attribution :: "string \<Rightarrow> bool" where
  "attribution l \<longleftrightarrow> starts_ci ''on '' l \<and> starts_ci (rev ''wrote:'') (rev l) \<and> 9 \<le> length l"

definition signature_delimiter :: "string \<Rightarrow> bool" where
  "signature_delimiter l \<longleftrightarrow>
     take 2 l = ''--'' \<and> list_all py_space (drop 2 l)
     \<or> starts_ci ''sent from my'' l \<and> (case drop 12 l of [] \<Rightarrow> True | c # cs \<Rightarrow> \<not> word_char c)"

definition quoted_line :: "string \<Rightarrow> bool" where
  "quoted_line l \<longleftrightarrow> attribution (py_strip l) \<or> take 1 (py_strip l) = ''>''"

definition clean_body :: "string \<Rightarrow> string" where
  "clean_body text =
     (if text = [] then text
      else (let kept = takeWhile (\<lambda>l. \<not> quoted_line l) (splitlines text)
            in py_rstrip (py_join newline (takeWhile (\<lambda>l. \<not> signature_delimiter (py_strip l)) kept))))"

subsection \<open>Matching a header\<close>

text \<open>\<open>LIKE\<close> of the database: \<open>%\<close> stands for any text, \<open>_\<close> for one character, a backslash quotes.\<close>

fun like :: "string \<Rightarrow> string \<Rightarrow> bool" where
  "like s [] \<longleftrightarrow> s = []"
| "like [] (p # ps) \<longleftrightarrow> p = CHR ''%'' \<and> like [] ps"
| "like (c # s) (p # ps) \<longleftrightarrow>
     (if p = CHR ''%'' then like (c # s) ps \<or> like s (p # ps)
      else if p = CHR 0x5C then (case ps of [] \<Rightarrow> False | q # qs \<Rightarrow> c = q \<and> like s qs)
      else (p = CHR ''_'' \<or> c = p) \<and> like s ps)"

definition pad_references :: "string option \<Rightarrow> string" where
  "pad_references h =
     (case h of None \<Rightarrow> '' '' | Some s \<Rightarrow> if s = [] then '' '' else '' '' @ py_join '' '' (py_split s) @ '' '')"

definition header_match :: "string option \<Rightarrow> string option \<Rightarrow> outbound \<Rightarrow> bool" where
  "header_match in_reply references ob \<longleftrightarrow>
     in_reply = Some (ob_message_id ob) \<or> like (pad_references references) (''% '' @ ob_message_id ob @ '' %'')"

text \<open>The first row of the join; the order among several is the database's, here the runs' own.\<close>

definition find_awaiting_reply_for_header :: "string option \<Rightarrow> string option \<Rightarrow> db \<Rightarrow> uuid option" where
  "find_awaiting_reply_for_header in_reply references d =
     map_option run_id (first_match (\<lambda>r. status r = AWAITING_REPLY
         \<and> list_ex (\<lambda>ob. ob_run ob = run_id r \<and> ob_epoch ob = reply_epoch r \<and> header_match in_reply references ob) (db_outbound d))
       (db_runs d))"

definition find_any_run_for_header :: "string option \<Rightarrow> string option \<Rightarrow> db \<Rightarrow> uuid option" where
  "find_any_run_for_header in_reply references d =
     map_option run_id (first_match (\<lambda>r. list_ex (\<lambda>ob. ob_run ob = run_id r \<and> header_match in_reply references ob) (db_outbound d))
       (db_runs d))"

subsection \<open>Rows\<close>

definition insert_inbound_email :: "uuid \<Rightarrow> mail \<Rightarrow> string \<Rightarrow> db \<Rightarrow> uuid option \<times> db" where
  "insert_inbound_email i m cleaned d =
     (if ml_message_id m \<in> set (message_ids d) then (None, d)
      else (Some i, d\<lparr>db_inbox := db_inbox d @
              [\<lparr>in_id = i, in_run = None, in_message_id = ml_message_id m, in_reply_to = ml_in_reply_to m,
                in_references = ml_references m, in_subject = Some (ml_subject m), in_from = ml_from m, in_to = ml_to m,
                in_body = cleaned, in_epoch = 0, in_consumed = None\<rparr>]\<rparr>))"

definition get_inbound_by_message_id :: "string \<Rightarrow> db \<Rightarrow> inbound option" where
  "get_inbound_by_message_id mid d = first_match (\<lambda>b. in_message_id b = mid) (db_inbox d)"

definition get_inbound_email_by_id :: "uuid \<Rightarrow> db \<Rightarrow> inbound option" where
  "get_inbound_email_by_id i d = first_match (\<lambda>b. in_id b = i) (db_inbox d)"

text \<open>The epoch is stamped from the run; a run that is not there breaks the foreign key.\<close>

definition link_email_to_run :: "uuid \<Rightarrow> uuid \<Rightarrow> db \<Rightarrow> db res" where
  "link_email_to_run i run d =
     (case run_epoch run d of
        None \<Rightarrow> Inl DatabaseError
      | Some e \<Rightarrow> Inr (d\<lparr>db_inbox := update_rows (\<lambda>b. in_id b = i) (\<lambda>b. b\<lparr>in_run := Some run, in_epoch := e\<rparr>) (db_inbox d)\<rparr>))"

definition find_business_by_sender :: "string \<Rightarrow> db \<Rightarrow> uuid option" where
  "find_business_by_sender addr d =
     (case first_match (\<lambda>(b, contact). contact = addr) (db_businesses d) of
        Some (b, contact) \<Rightarrow> Some b
      | None \<Rightarrow> map_option snd (first_match (\<lambda>(operator, b). operator = addr) (db_bindings d)))"

definition fresh_run :: "uuid \<Rightarrow> uuid \<Rightarrow> uuid option \<Rightarrow> bool \<Rightarrow> payroll_run" where
  "fresh_run i b source recorded =
     \<lparr>run_id = i, business_id = b, status = RECEIVED, extracted_data = None, decision_data = None, reconciliation = None,
      line_items = [], hours_changes = None, clarified_fields = None, pre_clarify_extracted = None, clarification_round = 0,
      alias_candidates = None, reply_epoch = 0, record_only = recorded, error_reason = None, error_detail = None,
      source_email_id = source\<rparr>"

definition create_run :: "uuid \<Rightarrow> uuid \<Rightarrow> uuid option \<Rightarrow> bool \<Rightarrow> db \<Rightarrow> db" where
  "create_run i b source recorded d = d\<lparr>db_runs := db_runs d @ [fresh_run i b source recorded]\<rparr>"

definition mark_reply_consumed :: "string \<Rightarrow> nat \<Rightarrow> db \<Rightarrow> db" where
  "mark_reply_consumed mid n d =
     d\<lparr>db_inbox := update_rows (\<lambda>b. in_message_id b = mid \<and> in_consumed b = None) (\<lambda>b. b\<lparr>in_consumed := Some n\<rparr>) (db_inbox d)\<rparr>"

definition load_consumed_replies :: "uuid \<Rightarrow> db \<Rightarrow> inbound list" where
  "load_consumed_replies run d =
     sort_key (\<lambda>b. case in_consumed b of None \<Rightarrow> 0 | Some n \<Rightarrow> n)
       (filter (\<lambda>b. in_run b = Some run \<and> in_consumed b \<noteq> None \<and> run_epoch run d = Some (in_epoch b)) (db_inbox d))"

definition source_inbound :: "uuid \<Rightarrow> db \<Rightarrow> inbound option" where
  "source_inbound run d =
     Option.bind (load_run run d) (\<lambda>r. Option.bind (source_email_id r) (\<lambda>i. get_inbound_email_by_id i d))"

definition load_source_email :: "uuid \<Rightarrow> db \<Rightarrow> string option" where
  "load_source_email run d = map_option in_body (source_inbound run d)"

definition find_run_by_message_id :: "string \<Rightarrow> db \<Rightarrow> uuid option" where
  "find_run_by_message_id mid d =
     map_option run_id (first_match (\<lambda>r. list_ex (\<lambda>b. source_email_id r = Some (in_id b) \<and> in_message_id b = mid) (db_inbox d)) (db_runs d))"

definition row_to_inbound :: "inbound \<Rightarrow> mail" where
  "row_to_inbound b =
     \<lparr>ml_message_id = in_message_id b, ml_in_reply_to = in_reply_to b, ml_references = in_references b,
      ml_subject = (case in_subject b of None \<Rightarrow> [] | Some s \<Rightarrow> s), ml_from = in_from b, ml_to = in_to b, ml_body = in_body b\<rparr>"

text \<open>The source email of a run as \<open>InboundEmail\<close>: a subject that is \<open>NULL\<close> is not valid.\<close>

definition load_inbound_email :: "uuid \<Rightarrow> db \<Rightarrow> mail option res" where
  "load_inbound_email run d =
     (case source_inbound run d of
        None \<Rightarrow> Inr None
      | Some b \<Rightarrow> if in_subject b = None then Inl ValidationError else Inr (Some (row_to_inbound b)))"

subsection \<open>Authorizing a reply\<close>

definition resume_reply_key :: "uuid \<Rightarrow> uuid \<Rightarrow> string" where
  "resume_reply_key run email = ''resume_reply:'' @ uuid_str run @ '':'' @ uuid_str email"

definition reply_sender_ok :: "inbound \<Rightarrow> payroll_run \<Rightarrow> db \<Rightarrow> bool" where
  "reply_sender_ok b r d \<longleftrightarrow> find_business_by_sender (in_from b) d = Some (business_id r)"

datatype routing_outcome =
    Resumed | DuplicateNoop | SenderMismatch | AdvancedNoop | LateReply | NoHeaderMatch | InvalidContext

record job_source =
  jb_now :: instant
  jb_cfg :: int
  jb_id :: uuid

definition enqueue_reply :: "job_source \<Rightarrow> uuid \<Rightarrow> uuid \<Rightarrow> db \<Rightarrow> db res" where
  "enqueue_reply js run email d =
     bind_res (enqueue_on (jb_now js) (jb_cfg js) (jb_id js) (plain_request ResumeReply (resume_reply_key run email) run (Some email) None) d)
       (\<lambda>(i, d'). Inr d')"

definition ensure_authorized_reply_job :: "job_source \<Rightarrow> inbound \<Rightarrow> uuid \<Rightarrow> uuid \<Rightarrow> db \<Rightarrow> (routing_outcome \<times> db) res" where
  "ensure_authorized_reply_job js b run email d =
     (if in_run b \<noteq> Some run then Inr (InvalidContext, d)
      else if in_consumed b \<noteq> None then Inr (DuplicateNoop, d)
      else (case load_run run d of
              None \<Rightarrow> Inr (AdvancedNoop, d)
            | Some r \<Rightarrow>
                if status r \<noteq> AWAITING_REPLY then Inr (AdvancedNoop, d)
                else if \<not> reply_sender_ok b r d then Inr (SenderMismatch, d)
                else bind_res (enqueue_reply js run email d) (\<lambda>d'. Inr (Resumed, d'))))"

definition persist_and_enqueue_reply :: "job_source \<Rightarrow> uuid \<Rightarrow> mail \<Rightarrow> string \<Rightarrow> db \<Rightarrow> (routing_outcome \<times> db) res" where
  "persist_and_enqueue_reply js i m cleaned d =
     (case insert_inbound_email i m cleaned d of
        (None, d1) \<Rightarrow>
          (case get_inbound_by_message_id (ml_message_id m) d1 of
             None \<Rightarrow> Inr (InvalidContext, d1)
           | Some b \<Rightarrow>
               (case in_run b of
                  None \<Rightarrow> Inr (DuplicateNoop, d1)
                | Some run \<Rightarrow> ensure_authorized_reply_job js b run (in_id b) d1))
      | (Some email, d1) \<Rightarrow>
          (case find_awaiting_reply_for_header (ml_in_reply_to m) (ml_references m) d1 of
             Some run \<Rightarrow>
               bind_res (link_email_to_run email run d1) (\<lambda>d2.
                 (case get_inbound_email_by_id email d2 of
                    None \<Rightarrow> Inr (InvalidContext, d2)
                  | Some b \<Rightarrow> ensure_authorized_reply_job js b run email d2))
           | None \<Rightarrow>
               (case find_any_run_for_header (ml_in_reply_to m) (ml_references m) d1 of
                  Some run \<Rightarrow> bind_res (link_email_to_run email run d1) (\<lambda>d2. Inr (LateReply, d2))
                | None \<Rightarrow> Inr (NoHeaderMatch, d1))))"

subsection \<open>Ingest\<close>

datatype ingest_outcome = IngestDuplicate | IngestReplyCandidate | IngestLateReply | IngestUnknownSender | IngestNewRun

text \<open>The guard of the ingest path: \<open>from_addr\<close> of the row and the run it is linked to.\<close>

definition authorized_reply_job :: "job_source \<Rightarrow> uuid option \<Rightarrow> string \<Rightarrow> uuid \<Rightarrow> uuid \<Rightarrow> db \<Rightarrow> (bool \<times> db) res" where
  "authorized_reply_job js row_run sender run email d =
     (if row_run \<noteq> Some run then Inr (False, d)
      else (case load_run run d of
              None \<Rightarrow> Inr (False, d)
            | Some r \<Rightarrow>
                if status r \<noteq> AWAITING_REPLY \<or> find_business_by_sender sender d \<noteq> Some (business_id r) then Inr (False, d)
                else bind_res (enqueue_reply js run email d) (\<lambda>d'. Inr (True, d'))))"

definition truthy :: "string option \<Rightarrow> bool" where
  "truthy s \<longleftrightarrow> s \<noteq> None \<and> s \<noteq> Some []"

definition run_pipeline_key :: "uuid \<Rightarrow> nat \<Rightarrow> string" where
  "run_pipeline_key run epoch = ''run_pipeline:'' @ uuid_str run @ '':'' @ nat_str epoch"

definition start_run :: "job_source \<Rightarrow> uuid \<Rightarrow> uuid \<Rightarrow> mail \<Rightarrow> db \<Rightarrow> (ingest_outcome \<times> db) res" where
  "start_run js email rid m d =
     (case find_business_by_sender (ml_from m) d of
        None \<Rightarrow> Inr (IngestUnknownSender, d)
      | Some b \<Rightarrow>
          bind_res (enqueue_on (jb_now js) (jb_cfg js) (jb_id js) (plain_request RunPipeline (run_pipeline_key rid 0) rid None None)
              (create_run rid b (Some email) False d)) (\<lambda>(i, d'). Inr (IngestNewRun, d')))"

definition ingest_email :: "job_source \<Rightarrow> uuid \<Rightarrow> uuid \<Rightarrow> mail \<Rightarrow> string \<Rightarrow> db \<Rightarrow> (ingest_outcome \<times> db) res" where
  "ingest_email js i rid m cleaned d =
     (case insert_inbound_email i m cleaned d of
        (None, d1) \<Rightarrow>
          (case get_inbound_by_message_id (ml_message_id m) d1 of
             None \<Rightarrow> Inr (IngestDuplicate, d1)
           | Some b \<Rightarrow>
               (case in_run b of
                  None \<Rightarrow> Inr (IngestDuplicate, d1)
                | Some run \<Rightarrow>
                    if in_consumed b \<noteq> None then Inr (IngestDuplicate, d1)
                    else bind_res (authorized_reply_job js (in_run b) (in_from b) run (in_id b) d1) (\<lambda>(ok, d2). Inr (IngestDuplicate, d2))))
      | (Some email, d1) \<Rightarrow>
          if truthy (ml_in_reply_to m) \<or> truthy (ml_references m)
          then (case find_awaiting_reply_for_header (ml_in_reply_to m) (ml_references m) d1 of
                  Some run \<Rightarrow>
                    bind_res (link_email_to_run email run d1) (\<lambda>d2.
                    bind_res (authorized_reply_job js (Some run) (ml_from m) run email d2) (\<lambda>(ok, d3). Inr (IngestReplyCandidate, d3)))
                | None \<Rightarrow>
                    (case find_any_run_for_header (ml_in_reply_to m) (ml_references m) d1 of
                       Some run \<Rightarrow> bind_res (link_email_to_run email run d1) (\<lambda>d2. Inr (IngestLateReply, d2))
                     | None \<Rightarrow> start_run js email rid m d1))
          else start_run js email rid m d1)"

subsection \<open>Durable receipt\<close>

definition insert_or_get_inbound_event :: "instant \<Rightarrow> uuid \<Rightarrow> string \<Rightarrow> string \<Rightarrow> db \<Rightarrow> (uuid \<times> bool) \<times> db" where
  "insert_or_get_inbound_event now i external payload d =
     (case first_match (\<lambda>e. ev_external e = external) (db_events d) of
        Some e \<Rightarrow> ((ev_id e, False), d)
      | None \<Rightarrow> ((i, True), d\<lparr>db_events := db_events d @
                 [\<lparr>ev_id = i, ev_external = external, ev_payload = payload, ev_received_at = now\<rparr>]\<rparr>))"

definition load_inbound_event :: "uuid \<Rightarrow> db \<Rightarrow> event option" where
  "load_inbound_event i d = first_match (\<lambda>e. ev_id e = i) (db_events d)"

definition ingest_key :: "uuid \<Rightarrow> string" where
  "ingest_key ev = ''ingest:'' @ uuid_str ev"

text \<open>\<open>valid\<close> is \<open>_validated_payload\<close>: the JSON text is an object with a transport identifier.\<close>

definition persist_verified_receipt :: "(string \<Rightarrow> bool) \<Rightarrow> job_source \<Rightarrow> uuid \<Rightarrow> string \<Rightarrow> string \<Rightarrow> db \<Rightarrow> ((uuid \<times> bool) \<times> db) res" where
  "persist_verified_receipt valid js i payload external d =
     (if \<not> valid payload then Inl ValueError
      else (case insert_or_get_inbound_event (jb_now js) i external payload d of
              ((ev, False), d1) \<Rightarrow> Inr ((ev, False), d1)
            | ((ev, True), d1) \<Rightarrow>
                bind_res (enqueue_on (jb_now js) (jb_cfg js) (jb_id js)
                    \<lparr>eq_kind = Ingest, eq_dedup_key = ingest_key ev, eq_run_id = None, eq_email_id = None, eq_resolution_id = None,
                     eq_event_id = Some ev, eq_business_id = None, eq_max_attempts = None, eq_delay = DelayNumber 0, eq_last_error = None\<rparr> d1)
                  (\<lambda>(job, d2). guard_res (job \<noteq> None) RuntimeError ((ev, True), d2))))"

text \<open>\<open>parse\<close> is \<open>gateway.parse_inbound\<close> (a provider call and a schema), on the stored payload.\<close>

definition process_inbound_event :: "(string \<Rightarrow> mail res) \<Rightarrow> job_source \<Rightarrow> uuid \<Rightarrow> uuid \<Rightarrow> uuid \<Rightarrow> db \<Rightarrow> (pipeline_result \<times> db) res" where
  "process_inbound_event parse js i rid ev d =
     (case load_inbound_event ev d of
        None \<Rightarrow> Inl RuntimeError
      | Some e \<Rightarrow>
          bind_res (parse (ev_payload e)) (\<lambda>m.
          bind_res (ingest_email js i rid m (clean_body (ml_body m)) d) (\<lambda>(out, d').
          Inr (bounded_noop, d'))))"

definition handle_ingest :: "(string \<Rightarrow> mail res) \<Rightarrow> job_source \<Rightarrow> uuid \<Rightarrow> uuid \<Rightarrow> claim \<Rightarrow> db \<Rightarrow> (pipeline_result \<times> db) res" where
  "handle_ingest parse js i rid c d =
     (case (cj_kind c, cj_event_id c) of
        (Ingest, Some ev) \<Rightarrow>
          if cj_run_id c \<noteq> None \<or> cj_email_id c \<noteq> None \<or> cj_resolution_id c \<noteq> None then Inl ValueError
          else process_inbound_event parse js i rid ev d
      | _ \<Rightarrow> Inl ValueError)"

text \<open>\<open>purge_terminal_inbound_events\<close>: at most a batch of old events whose ingest job has ended. The
  foreign key of \<open>jobs.event_id\<close> is \<open>ON DELETE SET NULL\<close>.\<close>

definition purgeable :: "instant \<Rightarrow> int \<Rightarrow> db \<Rightarrow> event \<Rightarrow> bool" where
  "purgeable now days d e \<longleftrightarrow>
     ev_received_at e < now - days * seconds 86400
     \<and> list_ex (\<lambda>j. job_event_id j = Some (ev_id e) \<and> job_kind_of j = Ingest \<and> job_state j \<in> {Done, Dead}) (db_jobs d)
     \<and> \<not> list_ex (\<lambda>j. job_event_id j = Some (ev_id e) \<and> job_kind_of j = Ingest \<and> job_state j \<in> {Pending, Leased}) (db_jobs d)"

definition purge_terminal_inbound_events :: "instant \<Rightarrow> int \<Rightarrow> int \<Rightarrow> db \<Rightarrow> (nat \<times> db) res" where
  "purge_terminal_inbound_events now days batch d =
     (if days < 30 \<or> batch < 1 \<or> 100 < batch then Inl ValueError
      else (let gone = map ev_id (take (nat batch) (sort_key (\<lambda>e. (ev_received_at e, ev_id e)) (filter (purgeable now days d) (db_events d))))
            in Inr (length gone, d\<lparr>db_events := filter (\<lambda>e. ev_id e \<notin> set gone) (db_events d),
                 db_jobs := update_rows (\<lambda>j. job_event_id j \<in> Some ` set gone) (\<lambda>j. j\<lparr>job_event_id := None\<rparr>) (db_jobs d)\<rparr>)))"

subsection \<open>A header names a message exactly\<close>

definition literal :: "char \<Rightarrow> bool" where
  "literal c \<longleftrightarrow> c \<noteq> CHR ''%'' \<and> c \<noteq> CHR ''_'' \<and> c \<noteq> CHR 0x5C"

lemma like_percent: "like s (CHR ''%'' # ps) \<longleftrightarrow> (\<exists>a b. s = a @ b \<and> like b ps)"
proof (induction s)
  case (Cons c s)
  show ?case
  proof
    assume "like (c # s) (CHR ''%'' # ps)"
    then consider "like (c # s) ps" | "like s (CHR ''%'' # ps)" by auto
    then show "\<exists>a b. c # s = a @ b \<and> like b ps"
    proof cases
      case 1
      then have "c # s = [] @ (c # s) \<and> like (c # s) ps" by simp
      then show ?thesis by blast
    next
      case 2
      with Cons.IH obtain a b where "s = a @ b" "like b ps" by blast
      then have "c # s = (c # a) @ b \<and> like b ps" by simp
      then show ?thesis by blast
    qed
  next
    assume "\<exists>a b. c # s = a @ b \<and> like b ps"
    then obtain a b where ab: "c # s = a @ b" "like b ps" by blast
    then show "like (c # s) (CHR ''%'' # ps)" using Cons.IH by (cases a) auto
  qed
qed auto

lemma like_literal: "\<forall>c \<in> set w. literal c \<Longrightarrow> like s (w @ ps) \<longleftrightarrow> (\<exists>b. s = w @ b \<and> like b ps)"
proof (induction w arbitrary: s)
  case (Cons c w)
  then show ?case by (cases s) (auto simp: literal_def)
qed simp

lemma like_infix:
  assumes "\<forall>c \<in> set w. literal c"
  shows "like s (CHR ''%'' # w @ ''%'') \<longleftrightarrow> sublist w s"
proof -
  have tail: "like b ''%''" for b using like_percent [of b "[]"] by auto
  have "like b (w @ ''%'') \<longleftrightarrow> (\<exists>q. b = w @ q)" for b using like_literal [OF assms, of b "''%''"] tail by simp
  then have "like s (CHR ''%'' # w @ ''%'') \<longleftrightarrow> (\<exists>a b. s = a @ b \<and> (\<exists>q. b = w @ q))" using like_percent [of s "w @ ''%''"] by simp
  then show ?thesis by (auto simp: sublist_def)
qed

lemma split_on_append: "p c \<Longrightarrow> split_on p (x @ c # y) = split_on p x @ split_on p y"
proof (induction x)
  case (Cons a x)
  show ?case
  proof (cases "split_on p x")
    case Nil
    then show ?thesis by simp
  next
    case (Cons w ws)
    then show ?thesis using Cons.IH Cons.prems by simp
  qed
qed simp

lemma split_on_middle: "p c \<Longrightarrow> \<forall>x \<in> set w. \<not> p x \<Longrightarrow> w \<in> set (split_on p (a @ [c] @ w @ [c] @ b))"
  by (simp add: split_on_append split_on_id)

lemma split_on_join:
  assumes "ws \<noteq> []" "\<forall>w \<in> set ws. \<forall>x \<in> set w. x \<noteq> c"
  shows "split_on (\<lambda>x. x = c) (py_join [c] ws) = ws"
  using assms
proof (induction "[c]" ws rule: py_join.induct)
  case (3 w v ws)
  then show ?case using split_on_append [of "\<lambda>x. x = c" c w "py_join [c] (v # ws)"] by (simp add: split_on_id)
qed (simp_all add: split_on_id)

lemma split_mem_sublist:
  assumes "w \<in> set ws"
  shows "sublist ([c] @ w @ [c]) ([c] @ py_join [c] ws @ [c])"
proof -
  obtain a b where ws: "ws = a @ w # b" using assms by (meson split_list)
  have step: "\<exists>p q. [c] @ py_join [c] (a @ w # b) @ [c] = p @ [c] @ w @ [c] @ q"
  proof (induction a)
    case Nil
    show ?case
    proof (cases b)
      case Nil
      then show ?thesis by (metis append_Nil append_Nil2 append.assoc py_join.simps(2))
    next
      case (Cons v vs)
      have "[c] @ py_join [c] ([] @ w # b) @ [c] = [] @ [c] @ w @ [c] @ (py_join [c] (v # vs) @ [c])" by (simp add: Cons)
      then show ?thesis by blast
    qed
  next
    case (Cons v vs)
    then obtain p q where "[c] @ py_join [c] (vs @ w # b) @ [c] = p @ [c] @ w @ [c] @ q" by blast
    moreover have "[c] @ py_join [c] ((v # vs) @ w # b) @ [c] = [c] @ v @ ([c] @ py_join [c] (vs @ w # b) @ [c])"
      by (cases "vs @ w # b") auto
    ultimately have "[c] @ py_join [c] ((v # vs) @ w # b) @ [c] = ([c] @ v @ p) @ [c] @ w @ [c] @ q" by simp
    then show ?case by blast
  qed
  then show ?thesis unfolding ws sublist_def append.assoc by blast
qed

lemma padded_token:
  assumes "\<forall>w \<in> set ws. \<forall>x \<in> set w. x \<noteq> c" "\<forall>x \<in> set i. x \<noteq> c" "i \<noteq> []" "ws \<noteq> []"
  shows "sublist ([c] @ i @ [c]) ([c] @ py_join [c] ws @ [c]) \<longleftrightarrow> i \<in> set ws"
proof
  assume "sublist ([c] @ i @ [c]) ([c] @ py_join [c] ws @ [c])"
  then obtain a b where ab: "[c] @ py_join [c] ws @ [c] = a @ [c] @ i @ [c] @ b" by (auto simp: sublist_def)
  have "i \<in> set (split_on (\<lambda>x. x = c) (a @ [c] @ i @ [c] @ b))"
    by (rule split_on_middle) (use assms(2) in auto)
  moreover have "split_on (\<lambda>x. x = c) ([c] @ py_join [c] ws @ [c]) = [] # ws @ [[]]"
    using split_on_append [of "\<lambda>x. x = c" c "py_join [c] ws" "[]"] split_on_join [OF assms(4,1)] by simp
  ultimately have "i \<in> set ([] # ws @ [[]])" unfolding ab [symmetric] by simp
  with assms(3) show "i \<in> set ws" by auto
next
  assume "i \<in> set ws"
  then show "sublist ([c] @ i @ [c]) ([c] @ py_join [c] ws @ [c])" by (rule split_mem_sublist)
qed

text \<open>C33. A reply is matched to a message exactly: for a message id without wildcards and white space, a
  header matches when \<open>In-Reply-To\<close> is that id or it is one of the words of \<open>References\<close>; an id
  that only contains the other, or part of one, never matches.\<close>

theorem header_match_exact:
  assumes "\<forall>c \<in> set (ob_message_id ob). literal c \<and> \<not> py_space c" "ob_message_id ob \<noteq> []"
  shows "header_match in_reply references ob \<longleftrightarrow>
    in_reply = Some (ob_message_id ob) \<or> (\<exists>h. references = Some h \<and> ob_message_id ob \<in> set (py_split h))"
proof -
  let ?i = "ob_message_id ob"
  let ?p = "'' '' @ ?i @ '' ''"
  have sp: "py_space CHR '' ''" by (simp add: py_space_def)
  have "\<forall>c \<in> set ?p. literal c" using assms(1) by (auto simp: literal_def)
  from like_infix [OF this] have pat: "like s (''% '' @ ?i @ '' %'') \<longleftrightarrow> sublist ?p s" for s by simp
  have i: "\<forall>x \<in> set ?i. x \<noteq> CHR '' ''" using assms(1) sp by auto
  have empty: "\<not> sublist ?p '' ''" using assms(2) by (auto simp: sublist_def append_eq_Cons_conv)
  show ?thesis
  proof (cases references)
    case None
    then show ?thesis unfolding header_match_def pat pad_references_def using empty by simp
  next
    case (Some h)
    show ?thesis
    proof (cases "py_split h = []")
      case True
      have "\<not> sublist ?p ''  ''"
      proof
        assume "sublist ?p ''  ''"
        then have "length ?p \<le> length ''  ''" by (rule sublist_length_le)
        then show False using assms(2) by simp
      qed
      then have "\<not> sublist ?p (pad_references (Some h))" using True empty by (simp add: pad_references_def)
      then show ?thesis unfolding header_match_def pat using Some True by simp
    next
      case False
      then have h: "h \<noteq> []" by (auto simp: py_split_def)
      have "\<forall>w \<in> set (py_split h). \<forall>x \<in> set w. x \<noteq> CHR '' ''" using py_split_words [of _ h] sp by blast
      from padded_token [OF this i assms(2) False]
      have "sublist ?p (pad_references (Some h)) \<longleftrightarrow> ?i \<in> set (py_split h)" using h by (simp add: pad_references_def)
      then show ?thesis unfolding header_match_def pat using Some by simp
    qed
  qed
qed

lemma header_match_exact_witness:
  "header_match None (Some ''<x@y> <a@b>'') (mail_slot\<lparr>ob_message_id := ''<a@b>''\<rparr>)
   \<and> \<not> header_match None (Some ''<x@y> <aa@b>'') (mail_slot\<lparr>ob_message_id := ''<a@b>''\<rparr>)"
proof -
  have id: "\<forall>c \<in> set ''<a@b>''. literal c \<and> \<not> py_space c" by (simp add: literal_def py_space_def)
  have s: "py_split ''<x@y> <a@b>'' = [''<x@y>'', ''<a@b>'']" "py_split ''<x@y> <aa@b>'' = [''<x@y>'', ''<aa@b>'']"
    by (simp_all add: py_split_def py_space_def)
  show ?thesis
    using header_match_exact [of "mail_slot\<lparr>ob_message_id := ''<a@b>''\<rparr>" None "Some ''<x@y> <a@b>''"]
      header_match_exact [of "mail_slot\<lparr>ob_message_id := ''<a@b>''\<rparr>" None "Some ''<x@y> <aa@b>''"] id
    by (simp add: s)
qed

subsection \<open>Only an authorized reply resumes a run\<close>

definition authorized :: "db \<Rightarrow> job \<Rightarrow> bool" where
  "authorized d j \<longleftrightarrow> (\<exists>b \<in> set (db_inbox d). \<exists>r. job_email_id j = Some (in_id b) \<and> job_run_id j = in_run b \<and> in_consumed b = None
     \<and> in_run b \<noteq> None \<and> load_run (the (in_run b)) d = Some r \<and> status r = AWAITING_REPLY \<and> reply_sender_ok b r d)"

lemma enqueue_reply_new:
  assumes "enqueue_reply js run email d = Inr d'" "j \<in> set (db_jobs d')" "j \<notin> set (db_jobs d)"
  shows "job_run_id j = Some run \<and> job_email_id j = Some email \<and> (\<exists>new. d' = d\<lparr>db_jobs := new\<rparr>)"
  using assms by (auto simp: enqueue_reply_def enqueue_on_def enqueue_job_def res_simps plain_request_def split: if_splits)

lemma enqueue_reply_jobs: "enqueue_reply js run email d = Inr d' \<Longrightarrow> \<exists>new. d' = d\<lparr>db_jobs := new\<rparr>"
  by (auto simp: enqueue_reply_def enqueue_on_def enqueue_job_def res_simps split: if_splits)

lemma find_business_cong:
  "db_businesses d = db_businesses e \<Longrightarrow> db_bindings d = db_bindings e \<Longrightarrow> find_business_by_sender a d = find_business_by_sender a e"
  by (simp add: find_business_by_sender_def split: option.split)

lemma authorized_cong: "authorized (d\<lparr>db_jobs := js\<rparr>) j = authorized d j"
  using find_business_cong [of "d\<lparr>db_jobs := js\<rparr>" d] by (simp add: authorized_def load_run_def reply_sender_ok_def)

lemma authorized_reply_job_new:
  assumes "authorized_reply_job js (in_run b) sender run (in_id b) d = Inr (ok, d')" "j \<in> set (db_jobs d')" "j \<notin> set (db_jobs d)"
    "b \<in> set (db_inbox d)" "in_consumed b = None" "sender = in_from b"
  shows "authorized d' j"
proof -
  obtain r where r: "in_run b = Some run" "load_run run d = Some r" "status r = AWAITING_REPLY" "reply_sender_ok b r d"
    and e: "enqueue_reply js run (in_id b) d = Inr d'"
    using assms(1-3,6) by (auto simp: authorized_reply_job_def reply_sender_ok_def res_simps split: if_splits option.splits)
  from enqueue_reply_new [OF e assms(2,3)] obtain new where n: "job_run_id j = Some run" "job_email_id j = Some (in_id b)" "d' = d\<lparr>db_jobs := new\<rparr>"
    by blast
  have "authorized d j" unfolding authorized_def using r n(1,2) assms(4,5) by (intro bexI [of _ b] exI [of _ r]) simp_all
  then show ?thesis unfolding n(3) authorized_cong .
qed

lemma ensure_authorized_new:
  assumes "ensure_authorized_reply_job js b run (in_id b) d = Inr (out, d')" "j \<in> set (db_jobs d')" "j \<notin> set (db_jobs d)" "b \<in> set (db_inbox d)"
  shows "out = Resumed \<and> authorized d' j"
proof -
  obtain r where r: "in_run b = Some run" "load_run run d = Some r" "status r = AWAITING_REPLY" "reply_sender_ok b r d" "in_consumed b = None"
    and e: "enqueue_reply js run (in_id b) d = Inr d'" and out: "out = Resumed"
    using assms(1-3) by (auto simp: ensure_authorized_reply_job_def res_simps split: if_splits option.splits)
  from enqueue_reply_new [OF e assms(2,3)] obtain new where n: "job_run_id j = Some run" "job_email_id j = Some (in_id b)" "d' = d\<lparr>db_jobs := new\<rparr>"
    by blast
  have "authorized d j" unfolding authorized_def using r n(1,2) assms(4) by (intro bexI [of _ b] exI [of _ r]) simp_all
  then show ?thesis using out unfolding n(3) authorized_cong by simp
qed

lemma insert_inbound_None: "insert_inbound_email i m cleaned d = (None, d1) \<Longrightarrow> d1 = d \<and> ml_message_id m \<in> set (message_ids d)"
  by (auto simp: insert_inbound_email_def split: if_splits)

definition new_inbound :: "uuid \<Rightarrow> mail \<Rightarrow> string \<Rightarrow> inbound" where
  "new_inbound i m cleaned = \<lparr>in_id = i, in_run = None, in_message_id = ml_message_id m, in_reply_to = ml_in_reply_to m,
     in_references = ml_references m, in_subject = Some (ml_subject m), in_from = ml_from m, in_to = ml_to m,
     in_body = cleaned, in_epoch = 0, in_consumed = None\<rparr>"

lemma new_inbound_simps:
  "in_id (new_inbound i m cleaned) = i" "in_run (new_inbound i m cleaned) = None" "in_from (new_inbound i m cleaned) = ml_from m"
  "in_consumed (new_inbound i m cleaned) = None" "in_message_id (new_inbound i m cleaned) = ml_message_id m"
  by (simp_all add: new_inbound_def)

lemma insert_inbound_Some: "insert_inbound_email i m cleaned d = (Some email, d1) \<Longrightarrow> email = i
    \<and> ml_message_id m \<notin> set (message_ids d) \<and> d1 = d\<lparr>db_inbox := db_inbox d @ [new_inbound i m cleaned]\<rparr>"
  by (auto simp: insert_inbound_email_def new_inbound_def split: if_splits)

lemma link_email_Inr:
  assumes "link_email_to_run i run d = Inr d'"
  shows "\<exists>e. run_epoch run d = Some e \<and>
    d' = d\<lparr>db_inbox := update_rows (\<lambda>b. in_id b = i) (\<lambda>b. b\<lparr>in_run := Some run, in_epoch := e\<rparr>) (db_inbox d)\<rparr>"
  using assms by (auto simp: link_email_to_run_def split: option.splits)

lemma start_run_jobs:
  assumes "start_run js email rid m d = Inr (out, d')" "j \<in> set (db_jobs d')" "j \<notin> set (db_jobs d)"
  shows "job_kind_of j = RunPipeline"
  using assms by (auto simp: start_run_def create_run_def enqueue_on_def enqueue_job_def plain_request_def res_simps split: option.splits if_splits)

text \<open>What an ingest did: nothing for a mail it had stored, a job for a stored reply, a new run, a job for a new reply, or
  a late reply that is only linked.\<close>

definition stored_reply :: "uuid \<Rightarrow> nat \<Rightarrow> uuid \<Rightarrow> mail \<Rightarrow> string \<Rightarrow> db \<Rightarrow> db" where
  "stored_reply run e i m cleaned d =
     d\<lparr>db_inbox := update_rows (\<lambda>b. in_id b = i) (\<lambda>b. b\<lparr>in_run := Some run, in_epoch := e\<rparr>) (db_inbox d @ [new_inbound i m cleaned])\<rparr>"

definition linked_reply :: "uuid \<Rightarrow> nat \<Rightarrow> uuid \<Rightarrow> mail \<Rightarrow> string \<Rightarrow> inbound" where
  "linked_reply run e i m cleaned = (new_inbound i m cleaned)\<lparr>in_run := Some run, in_epoch := e\<rparr>"

lemma linked_reply_simps [simp]:
  "in_id (linked_reply run e i m cleaned) = i" "in_run (linked_reply run e i m cleaned) = Some run" "in_consumed (linked_reply run e i m cleaned) = None"
  "in_from (linked_reply run e i m cleaned) = ml_from m" "in_message_id (linked_reply run e i m cleaned) = ml_message_id m"
  by (simp_all add: linked_reply_def new_inbound_simps)

lemma ingest_cases [consumes 1, case_names unlinked linked started reply late]:
  assumes "ingest_email js i rid m cleaned d = Inr (out, d')"
  obtains "ml_message_id m \<in> set (message_ids d)" "d' = d"
      "\<And>b. get_inbound_by_message_id (ml_message_id m) d = Some b \<Longrightarrow> in_run b = None \<or> in_consumed b \<noteq> None"
  | b ok where "ml_message_id m \<in> set (message_ids d)" "get_inbound_by_message_id (ml_message_id m) d = Some b" "in_consumed b = None"
      "authorized_reply_job js (in_run b) (in_from b) (the (in_run b)) (in_id b) d = Inr (ok, d')"
  | "ml_message_id m \<notin> set (message_ids d)" "start_run js i rid m (d\<lparr>db_inbox := db_inbox d @ [new_inbound i m cleaned]\<rparr>) = Inr (out, d')"
  | run e ok where "ml_message_id m \<notin> set (message_ids d)"
      "authorized_reply_job js (Some run) (ml_from m) run i (stored_reply run e i m cleaned d) = Inr (ok, d')"
  | run e where "ml_message_id m \<notin> set (message_ids d)" "out = IngestLateReply" "d' = stored_reply run e i m cleaned d"
proof (cases "insert_inbound_email i m cleaned d")
  case (Pair o1 d1)
  show thesis
  proof (cases o1)
    case None
    with Pair have k: "d1 = d" "ml_message_id m \<in> set (message_ids d)" using insert_inbound_None by blast+
    show thesis
    proof (cases "get_inbound_by_message_id (ml_message_id m) d")
      case None': None
      then have "d' = d" using assms Pair None k(1) by (simp add: ingest_email_def)
      then show thesis by (rule that(1) [OF k(2)]) (simp add: None')
    next
      case (Some b)
      show thesis
      proof (cases "in_run b = None \<or> in_consumed b \<noteq> None")
        case True
        have "d' = d" using assms Pair None k(1) Some True by (auto simp: ingest_email_def split: option.splits if_splits)
        then show thesis by (rule that(1) [OF k(2)]) (use Some True in auto)
      next
        case False
        then obtain run where "in_run b = Some run" "in_consumed b = None" by auto
        moreover obtain ok where "authorized_reply_job js (in_run b) (in_from b) run (in_id b) d = Inr (ok, d')"
          using assms Pair None k(1) Some calculation by (auto simp: ingest_email_def res_simps)
        ultimately show thesis using that(2) [OF k(2) Some] by simp
      qed
    qed
  next
    case (Some email)
    note new = insert_inbound_Some [OF Pair [unfolded Some]]
    have linked: "\<exists>e. d2 = stored_reply run e i m cleaned d" if "link_email_to_run email run d1 = Inr d2" for run d2
      using link_email_Inr [OF that] new by (auto simp: stored_reply_def)
    show thesis
    proof (cases "truthy (ml_in_reply_to m) \<or> truthy (ml_references m)")
      case False
      then have "start_run js i rid m d1 = Inr (out, d')" using assms Pair Some new by (simp add: ingest_email_def)
      with new that(3) show thesis by simp
    next
      case reply: True
      consider "find_awaiting_reply_for_header (ml_in_reply_to m) (ml_references m) d1 = None" "find_any_run_for_header (ml_in_reply_to m) (ml_references m) d1 = None"
        | run where "find_awaiting_reply_for_header (ml_in_reply_to m) (ml_references m) d1 = None" "find_any_run_for_header (ml_in_reply_to m) (ml_references m) d1 = Some run"
        | run where "find_awaiting_reply_for_header (ml_in_reply_to m) (ml_references m) d1 = Some run"
        by (cases "find_awaiting_reply_for_header (ml_in_reply_to m) (ml_references m) d1";
            cases "find_any_run_for_header (ml_in_reply_to m) (ml_references m) d1") auto
      then show thesis
      proof cases
        case 1
        then have "start_run js i rid m d1 = Inr (out, d')" using assms Pair Some reply new by (simp add: ingest_email_def)
        with new that(3) show thesis by simp
      next
        case 2
        then have "link_email_to_run email run d1 = Inr d'" "out = IngestLateReply"
          using assms Pair Some reply by (auto simp: ingest_email_def res_simps)
        with linked that(5) new show thesis by blast
      next
        case 3
        then obtain d2 ok where "link_email_to_run email run d1 = Inr d2" "authorized_reply_job js (Some run) (ml_from m) run email d2 = Inr (ok, d')"
          using assms Pair Some reply by (auto simp: ingest_email_def res_simps)
        with linked that(4) new show thesis by blast
      qed
    qed
  qed
qed

text \<open>C9. Whatever mail comes in, a job that resumes a run is queued only for a stored mail that is
  linked to that run, not consumed, and whose sender belongs to the business of the run, while the
  run waits for a reply.\<close>

theorem only_authorized_replies_resume:
  assumes "ingest_email js i rid m cleaned d = Inr (out, d')" "j \<in> set (db_jobs d')" "j \<notin> set (db_jobs d)" "job_kind_of j = ResumeReply"
  shows "authorized d' j"
  using assms(1)
proof (cases rule: ingest_cases)
  case unlinked
  with assms(2,3) show ?thesis by simp
next
  case (linked b ok)
  have "b \<in> set (db_inbox d)" using linked(2) unfolding get_inbound_by_message_id_def by (drule_tac first_match_SomeD) simp
  from authorized_reply_job_new [OF linked(4) assms(2,3) this] linked(3) show ?thesis by simp
next
  case started
  from start_run_jobs [OF started(2) assms(2)] assms(3,4) show ?thesis by simp
next
  case (reply run e ok)
  let ?d = "stored_reply run e i m cleaned d" and ?b = "linked_reply run e i m cleaned"
  have "?b \<in> set (db_inbox ?d)" unfolding stored_reply_def linked_reply_def
    using update_rows_hit [of "new_inbound i m cleaned" "db_inbox d @ [new_inbound i m cleaned]" "\<lambda>b. in_id b = i"] by (simp add: new_inbound_simps)
  moreover have "j \<notin> set (db_jobs ?d)" using assms(3) by (simp add: stored_reply_def)
  moreover have "authorized_reply_job js (in_run ?b) (ml_from m) run (in_id ?b) ?d = Inr (ok, d')" using reply(2) by simp
  ultimately show ?thesis using authorized_reply_job_new assms(2) by fastforce
next
  case (late run e)
  with assms(2,3) show ?thesis by (simp add: stored_reply_def)
qed

subsection \<open>Delivering the same mail again\<close>

lemma enqueue_reply_key: "enqueue_reply js run email d = Inr d' \<Longrightarrow> resume_reply_key run email \<in> dedup_key ` set (db_jobs d')"
  by (auto simp: enqueue_reply_def enqueue_on_def enqueue_job_def plain_request_def res_simps split: if_splits)

lemma enqueue_reply_known: "resume_reply_key run email \<in> dedup_key ` set (db_jobs d) \<Longrightarrow> enqueue_reply js run email d = Inr d"
  by (simp add: enqueue_reply_def enqueue_on_def enqueue_job_def plain_request_def bad_context_def delay_micros_def seconds_def
      attempt_ceiling_def)

lemma authorized_reply_job_only_jobs:
  "authorized_reply_job js row_run sender run email d = Inr (ok, d') \<Longrightarrow> db_inbox d' = db_inbox d \<and> db_outbound d' = db_outbound d"
  by (auto simp: authorized_reply_job_def res_simps dest: enqueue_reply_jobs split: if_splits option.splits)

lemma authorized_reply_job_again:
  assumes "authorized_reply_job js row_run sender run email d = Inr (ok, d')"
  shows "authorized_reply_job js' row_run sender run email d' = Inr (ok, d')"
proof (cases "d' = d")
  case True
  show ?thesis
  proof (cases ok)
    case True
    then have "enqueue_reply js run email d = Inr d'"
      using assms by (auto simp: authorized_reply_job_def res_simps split: if_splits option.splits)
    from enqueue_reply_known [OF enqueue_reply_key [OF this], of js'] assms show ?thesis
      using \<open>d' = d\<close> by (auto simp: authorized_reply_job_def res_simps split: if_splits option.splits)
  next
    case False
    with assms \<open>d' = d\<close> show ?thesis by (auto simp: authorized_reply_job_def res_simps split: if_splits option.splits)
  qed
next
  case False
  then obtain r where r: "row_run = Some run" "load_run run d = Some r" "status r = AWAITING_REPLY"
      "find_business_by_sender sender d = Some (business_id r)" "ok" and e: "enqueue_reply js run email d = Inr d'"
    using assms by (auto simp: authorized_reply_job_def res_simps split: if_splits option.splits)
  from enqueue_reply_jobs [OF e] obtain new where d': "d' = d\<lparr>db_jobs := new\<rparr>" by blast
  have "load_run run d' = Some r" using r(2) by (simp add: d' load_run_def)
  moreover have "find_business_by_sender sender d' = Some (business_id r)"
    using r(4) find_business_cong [of d' d] by (simp add: d')
  ultimately show ?thesis using r enqueue_reply_known [OF enqueue_reply_key [OF e], of js']
    by (simp add: authorized_reply_job_def)
qed

lemma first_by_message_id:
  assumes "\<forall>b \<in> set bs. in_message_id b \<noteq> mid" "in_message_id c = mid"
  shows "first_match (\<lambda>b. in_message_id b = mid) (bs @ [c]) = Some c"
  using assms by (induction bs) auto

lemma update_rows_append: "update_rows p f (xs @ ys) = update_rows p f xs @ update_rows p f ys"
  by (simp add: update_rows_def)

lemma start_run_inbox: "start_run js email rid m d = Inr (out, d') \<Longrightarrow> db_inbox d' = db_inbox d \<and> db_outbound d' = db_outbound d \<and> out \<noteq> IngestLateReply"
  by (auto simp: start_run_def create_run_def enqueue_on_def enqueue_job_def res_simps split: option.splits if_splits)

lemma ingest_known:
  assumes "ml_message_id m \<in> set (message_ids d)" "get_inbound_by_message_id (ml_message_id m) d = Some b"
    "in_run b \<noteq> None \<and> in_consumed b = None \<Longrightarrow> authorized_reply_job js (in_run b) (in_from b) (the (in_run b)) (in_id b) d = Inr (ok, d)"
  shows "ingest_email js i rid m cleaned d = Inr (IngestDuplicate, d)"
  using assms by (auto simp: ingest_email_def insert_inbound_email_def split: option.splits)

lemma ingest_unlinked:
  "ml_message_id m \<in> set (message_ids d) \<Longrightarrow> get_inbound_by_message_id (ml_message_id m) d = None \<Longrightarrow>
   ingest_email js i rid m cleaned d = Inr (IngestDuplicate, d)"
  by (simp add: ingest_email_def insert_inbound_email_def)

text \<open>A mail stored by this ingest: the row it is found by on the next delivery.\<close>

lemma stored_row:
  assumes "ml_message_id m \<notin> set (message_ids d)" "f (new_inbound i m cleaned) = c" "in_message_id c = ml_message_id m"
    "\<And>b. in_message_id (f b) = in_message_id b" "p (new_inbound i m cleaned)"
    "db_inbox d' = update_rows p f (db_inbox d @ [new_inbound i m cleaned])" "db_outbound d' = db_outbound d"
  shows "get_inbound_by_message_id (ml_message_id m) d' = Some c \<and> ml_message_id m \<in> set (message_ids d')"
proof -
  have old: "\<forall>b \<in> set (update_rows p f (db_inbox d)). in_message_id b \<noteq> ml_message_id m"
    using assms(1,4) unfolding message_ids_def set_update_rows by force
  have "db_inbox d' = update_rows p f (db_inbox d) @ [c]"
    using assms(2,5,6) by (simp add: update_rows_append) (simp add: update_rows_def)
  then show ?thesis using first_by_message_id [OF old assms(3)] assms(3)
    by (simp add: get_inbound_by_message_id_def message_ids_def image_iff)
qed

text \<open>C32. Ingest is idempotent: a mail delivered again, by a redelivered webhook or by a reclaimed
  job, is a duplicate that changes nothing at all, unless it was a late reply.\<close>

theorem ingest_again:
  assumes "ingest_email js i rid m cleaned d = Inr (out, d')" "out \<noteq> IngestLateReply"
  shows "ingest_email js' i' rid' m cleaned' d' = Inr (IngestDuplicate, d')"
  using assms(1)
proof (cases rule: ingest_cases)
  case unlinked
  show ?thesis
  proof (cases "get_inbound_by_message_id (ml_message_id m) d")
    case None
    then show ?thesis unfolding unlinked(2) by (rule ingest_unlinked [OF unlinked(1)])
  next
    case (Some b)
    show ?thesis unfolding unlinked(2) by (rule ingest_known [OF unlinked(1) Some, of js' True]) (use unlinked(3) [OF Some] in auto)
  qed
next
  case (linked b ok)
  from authorized_reply_job_only_jobs [OF linked(4)] linked(1,2)
  have "ml_message_id m \<in> set (message_ids d')" "get_inbound_by_message_id (ml_message_id m) d' = Some b"
    by (auto simp: message_ids_def get_inbound_by_message_id_def)
  from ingest_known [OF this authorized_reply_job_again [OF linked(4)]] show ?thesis .
next
  case started
  have "get_inbound_by_message_id (ml_message_id m) d' = Some (new_inbound i m cleaned) \<and> ml_message_id m \<in> set (message_ids d')"
    by (rule stored_row [OF started(1), where f = "\<lambda>b. b" and p = "\<lambda>_. True"])
      (use start_run_inbox [OF started(2)] in \<open>simp_all add: new_inbound_simps update_rows_def\<close>)
  then show ?thesis using ingest_known [of m d' "new_inbound i m cleaned"] by (simp add: new_inbound_simps)
next
  case (reply run e ok)
  have "get_inbound_by_message_id (ml_message_id m) d' = Some (linked_reply run e i m cleaned) \<and> ml_message_id m \<in> set (message_ids d')"
    by (rule stored_row [OF reply(1), where f = "\<lambda>b. b\<lparr>in_run := Some run, in_epoch := e\<rparr>" and p = "\<lambda>b. in_id b = i"])
      (use authorized_reply_job_only_jobs [OF reply(2)] in \<open>auto simp: linked_reply_def stored_reply_def new_inbound_simps\<close>)
  then show ?thesis using authorized_reply_job_again [OF reply(2), of js'] ingest_known [of m d' "linked_reply run e i m cleaned" js' ok] by simp
next
  case late
  with assms(2) show ?thesis by simp
qed

text \<open>A late reply is not queued when it arrives, being an answer to a question of an earlier epoch,
  but its row is linked to the run. When the same mail is processed once more while the run waits,
  nothing looks at the epoch again and the late reply resumes the run.\<close>

theorem late_reply_resumes_on_redelivery:
  assumes "ingest_email js i rid m cleaned d = Inr (IngestLateReply, d1)"
    "find_any_run_for_header (ml_in_reply_to m) (ml_references m) d = Some run" "load_run run d = Some r"
    "status r = AWAITING_REPLY" "find_business_by_sender (ml_from m) d = Some (business_id r)"
  shows "db_jobs d1 = db_jobs d \<and> find_awaiting_reply_for_header (ml_in_reply_to m) (ml_references m) d1 = None
    \<and> (\<exists>d2. ingest_email js' i' rid' m cleaned' d1 = Inr (IngestDuplicate, d2) \<and> resume_reply_key run i \<in> dedup_key ` set (db_jobs d2))"
proof (cases "insert_inbound_email i m cleaned d")
  case (Pair o1 d0)
  obtain email where o1: "o1 = Some email" using assms(1) Pair by (cases o1) (auto simp: ingest_email_def res_simps split: option.splits if_splits)
  note new = insert_inbound_Some [OF Pair [unfolded o1]]
  have fresh: "ml_message_id m \<notin> set (message_ids d)" and d0: "d0 = d\<lparr>db_inbox := db_inbox d @ [new_inbound i m cleaned]\<rparr>" using new by auto
  have any: "find_any_run_for_header (ml_in_reply_to m) (ml_references m) d0 = Some run"
    using assms(2) by (simp add: find_any_run_for_header_def d0)
  have none: "find_awaiting_reply_for_header (ml_in_reply_to m) (ml_references m) d0 = None" and l: "link_email_to_run i run d0 = Inr d1"
    using assms(1) Pair o1 new any
    by (auto simp: ingest_email_def res_simps dest: start_run_inbox split: option.splits if_splits)
  obtain e where d1: "d1 = d0\<lparr>db_inbox := update_rows (\<lambda>b. in_id b = i) (\<lambda>b. b\<lparr>in_run := Some run, in_epoch := e\<rparr>) (db_inbox d0)\<rparr>"
    using link_email_Inr [OF l] by blast
  let ?b = "(new_inbound i m cleaned)\<lparr>in_run := Some run, in_epoch := e\<rparr>"
  have st: "get_inbound_by_message_id (ml_message_id m) d1 = Some ?b \<and> ml_message_id m \<in> set (message_ids d1)"
    by (rule stored_row [OF fresh, where f = "\<lambda>b. b\<lparr>in_run := Some run, in_epoch := e\<rparr>" and p = "\<lambda>b. in_id b = i"])
      (use d0 d1 in \<open>simp_all add: new_inbound_simps\<close>)
  have "load_run run d1 = Some r" using assms(3) by (simp add: d1 d0 load_run_def)
  moreover have "find_business_by_sender (ml_from m) d1 = Some (business_id r)"
    using assms(5) find_business_cong [of d1 d] by (simp add: d1 d0)
  moreover obtain d2 where e: "enqueue_reply js' run i d1 = Inr d2"
    by (fastforce simp: enqueue_reply_def enqueue_on_def enqueue_job_def plain_request_def bad_context_def delay_micros_def seconds_def
        attempt_ceiling_def)
  ultimately have "ingest_email js' i' rid' m cleaned' d1 = Inr (IngestDuplicate, d2)"
    using st assms(4) by (simp add: ingest_email_def insert_inbound_email_def new_inbound_simps authorized_reply_job_def)
  moreover have "find_awaiting_reply_for_header (ml_in_reply_to m) (ml_references m) d1 = None"
    using none by (simp add: find_awaiting_reply_for_header_def d1)
  ultimately show ?thesis using enqueue_reply_key [OF e] d0 d1 by auto
qed

definition late_mail :: mail where
  "late_mail = \<lparr>ml_message_id = ''<r@y>'', ml_in_reply_to = Some ''<m@x>'', ml_references = None, ml_subject = ''Re'',
     ml_from = ''client@y'', ml_to = ''pay@x'', ml_body = ''40 hours''\<rparr>"

definition late_db :: db where
  "late_db = empty_db\<lparr>db_runs := [sample_run\<lparr>status := AWAITING_REPLY, reply_epoch := 1\<rparr>],
     db_outbound := [mail_slot\<lparr>ob_purpose := PurposeClarification, ob_state := MailSent\<rparr>], db_businesses := [(7, ''client@y'')]\<rparr>"

definition sample_source :: job_source where
  "sample_source = \<lparr>jb_now = 0, jb_cfg = 3, jb_id = 31\<rparr>"

theorem late_reply_resumes_on_redelivery_witness:
  "\<exists>d1. ingest_email sample_source 21 22 late_mail ''40 hours'' late_db = Inr (IngestLateReply, d1) \<and> db_jobs d1 = []
    \<and> (\<exists>d2. ingest_email sample_source 23 24 late_mail ''40 hours'' d1 = Inr (IngestDuplicate, d2) \<and> resume_reply_key 9 21 \<in> dedup_key ` set (db_jobs d2))"
proof -
  have any: "find_any_run_for_header (ml_in_reply_to late_mail) (ml_references late_mail) late_db = Some 9"
    by (simp add: find_any_run_for_header_def late_db_def empty_db_def late_mail_def header_match_def mail_slot_def sample_run_def)
  have run: "load_run 9 late_db = Some (sample_run\<lparr>status := AWAITING_REPLY, reply_epoch := 1\<rparr>)"
    by (simp add: load_run_def late_db_def sample_run_def)
  have b: "find_business_by_sender (ml_from late_mail) late_db = Some (business_id (sample_run\<lparr>status := AWAITING_REPLY, reply_epoch := 1\<rparr>))"
    by (simp add: find_business_by_sender_def late_db_def late_mail_def sample_run_def)
  obtain d1 where i: "ingest_email sample_source 21 22 late_mail ''40 hours'' late_db = Inr (IngestLateReply, d1)"
    by (simp add: ingest_email_def insert_inbound_email_def late_mail_def late_db_def empty_db_def message_ids_def mail_slot_def truthy_def
        find_awaiting_reply_for_header_def find_any_run_for_header_def header_match_def sample_run_def link_email_to_run_def run_epoch_def load_run_def)
  have "db_jobs late_db = []" by (simp add: late_db_def empty_db_def)
  with late_reply_resumes_on_redelivery [OF i any run _ b, of sample_source 23 24 "''40 hours''"] i show ?thesis by simp
qed

text \<open>A reply in time: the question is of the run's own epoch.\<close>

definition reply_db :: db where
  "reply_db = late_db\<lparr>db_runs := [sample_run\<lparr>status := AWAITING_REPLY\<rparr>]\<rparr>"

lemma reply_ingested:
  obtains d1 j where "ingest_email sample_source 21 22 late_mail ''40 hours'' reply_db = Inr (IngestReplyCandidate, d1)"
    "db_jobs d1 = [j]" "job_kind_of j = ResumeReply" "job_run_id j = Some 9"
proof -
  have "\<exists>d1 j. ingest_email sample_source 21 22 late_mail ''40 hours'' reply_db = Inr (IngestReplyCandidate, d1)
      \<and> db_jobs d1 = [j] \<and> job_kind_of j = ResumeReply \<and> job_run_id j = Some 9"
    by (simp add: ingest_email_def insert_inbound_email_def late_mail_def reply_db_def late_db_def empty_db_def message_ids_def mail_slot_def truthy_def
        find_awaiting_reply_for_header_def header_match_def sample_run_def link_email_to_run_def run_epoch_def load_run_def
        authorized_reply_job_def find_business_by_sender_def enqueue_reply_def enqueue_on_def enqueue_job_def plain_request_def
        bad_context_def delay_micros_def seconds_def attempt_ceiling_def)
  then show thesis using that by blast
qed

theorem only_authorized_replies_resume_witness:
  "\<exists>d1 j. ingest_email sample_source 21 22 late_mail ''40 hours'' reply_db = Inr (IngestReplyCandidate, d1) \<and> authorized d1 j \<and> job_run_id j = Some 9"
proof -
  obtain d1 j where i: "ingest_email sample_source 21 22 late_mail ''40 hours'' reply_db = Inr (IngestReplyCandidate, d1)"
    and j: "db_jobs d1 = [j]" "job_kind_of j = ResumeReply" "job_run_id j = Some 9" by (rule reply_ingested)
  have "j \<in> set (db_jobs d1)" "j \<notin> set (db_jobs reply_db)" using j(1) by (simp_all add: reply_db_def late_db_def empty_db_def)
  from only_authorized_replies_resume [OF i this j(2)] i j(3) show ?thesis by blast
qed

theorem ingest_again_witness:
  "\<exists>d1. ingest_email sample_source 21 22 late_mail ''40 hours'' reply_db = Inr (IngestReplyCandidate, d1)
    \<and> ingest_email sample_source 41 42 late_mail ''40 hours'' d1 = Inr (IngestDuplicate, d1)"
proof -
  obtain d1 j where i: "ingest_email sample_source 21 22 late_mail ''40 hours'' reply_db = Inr (IngestReplyCandidate, d1)" by (rule reply_ingested)
  from ingest_again [OF i, of sample_source 41 42 "''40 hours''"] i show ?thesis by simp
qed

subsection \<open>What is left of a body\<close>

lemma py_splitlines_aux_plain: "\<forall>c \<in> set s. \<not> line_break c \<Longrightarrow> py_splitlines_aux acc s = (if rev acc @ s = [] then [] else [rev acc @ s])"
  by (induction s arbitrary: acc) auto

lemma py_splitlines_aux_break:
  assumes "\<forall>c \<in> set l. \<not> line_break c"
  shows "py_splitlines_aux acc (l @ newline @ s) = (rev acc @ l) # py_splitlines_aux [] s"
  using assms by (induction l arbitrary: acc) (auto simp: newline_def line_break_def)

lemma splitlines_no_break: "l \<in> set (py_splitlines_aux acc s) \<Longrightarrow> \<forall>c \<in> set acc. \<not> line_break c \<Longrightarrow> \<forall>c \<in> set l. \<not> line_break c"
proof (induction acc s arbitrary: l rule: py_splitlines_aux.induct)
  case (2 acc c cs)
  show ?case
  proof (cases "line_break c")
    case True
    then consider "l = rev acc" | "l \<in> set (py_splitlines_aux [] (if c = CHR 0x0D \<and> cs \<noteq> [] \<and> hd cs = CHR 0x0A then tl cs else cs))"
      using 2(3) by auto
    then show ?thesis
    proof cases
      case 1
      then show ?thesis using 2(4) by simp
    next
      case k: 2
      show ?thesis by (rule 2(1) [OF True k]) simp
    qed
  next
    case False
    with 2(2) [OF False, of l] 2(3,4) show ?thesis by simp
  qed
qed (auto split: if_splits)

text \<open>The first lines of a body that has been cut at the end are lines of it, the last one perhaps cut.\<close>

lemma splitlines_join:
  assumes "\<forall>l \<in> set ls. \<forall>c \<in> set l. \<not> line_break c" "ls \<noteq> []"
  shows "splitlines (py_join newline ls) = (if last ls = [] then butlast ls else ls)"
proof -
  have "py_splitlines_aux [] (py_join newline ls) = (if last ls = [] then butlast ls else ls)"
    using assms
  proof (induction newline ls rule: py_join.induct)
    case (3 w v ws)
    then have "py_splitlines_aux [] (w @ newline @ py_join newline (v # ws)) = w # py_splitlines_aux [] (py_join newline (v # ws))"
      using py_splitlines_aux_break [of w "[]"] by simp
    with 3 show ?case by auto
  qed (simp_all add: py_splitlines_aux_plain)
  then show ?thesis by (simp add: splitlines_def)
qed

lemma py_rstrip_append: "py_rstrip (a @ b) = (if \<forall>c \<in> set b. py_space c then py_rstrip a else a @ py_rstrip b)"
proof (cases "\<forall>c \<in> set b. py_space c")
  case True
  then have "\<forall>c \<in> set (rev b). py_space c" by simp
  then have "dropWhile py_space (rev b @ rev a) = dropWhile py_space (rev a)" by (intro dropWhile_append2) simp
  with True show ?thesis by (simp add: py_rstrip_def)
next
  case False
  then obtain x where "x \<in> set (rev b)" "\<not> py_space x" by auto
  then have "dropWhile py_space (rev b @ rev a) = dropWhile py_space (rev b) @ rev a" by (rule dropWhile_append1)
  with False show ?thesis by (auto simp: py_rstrip_def)
qed

lemma py_rstrip_spaces: "\<forall>c \<in> set b. py_space c \<Longrightarrow> py_rstrip b = []"
  using py_rstrip_append [of "[]" b] by (simp add: py_rstrip_def)

lemma py_rstrip_parts: "\<exists>w. s = py_rstrip s @ w \<and> (\<forall>c \<in> set w. py_space c)"
proof -
  have "rev s = takeWhile py_space (rev s) @ dropWhile py_space (rev s)" by simp
  then have "s = py_rstrip s @ rev (takeWhile py_space (rev s))" unfolding py_rstrip_def
    by (metis rev_append rev_rev_ident)
  then show ?thesis by (intro exI [of _ "rev (takeWhile py_space (rev s))"]) (auto dest: set_takeWhileD)
qed

lemma py_strip_rstrip: "py_strip (py_rstrip l) = py_strip l"
proof -
  obtain w where l: "l = py_rstrip l @ w" and w: "\<forall>c \<in> set w. py_space c" using py_rstrip_parts by blast
  show ?thesis
  proof (cases "\<forall>c \<in> set (py_rstrip l). py_space c")
    case True
    then have "\<forall>c \<in> set l. py_space c" using l w by (metis Un_iff set_append)
    then have "dropWhile py_space l = []" "dropWhile py_space (py_rstrip l) = []" using True unfolding dropWhile_eq_Nil_conv by blast+
    then show ?thesis unfolding py_strip_def by metis
  next
    case False
    then obtain x where "x \<in> set (py_rstrip l)" "\<not> py_space x" by blast
    then have "dropWhile py_space (py_rstrip l @ w) = dropWhile py_space (py_rstrip l) @ w" by (rule dropWhile_append1)
    then have "py_strip l = py_rstrip (dropWhile py_space (py_rstrip l) @ w)" using l by (simp add: py_strip_def)
    then show ?thesis using w by (simp add: py_rstrip_append py_strip_def)
  qed
qed

lemma rstrip_join:
  "\<exists>ls'. py_rstrip (py_join newline ls) = py_join newline ls' \<and> (\<forall>l' \<in> set ls'. \<exists>l \<in> set ls. l' = l \<or> l' = py_rstrip l)"
proof (induction ls rule: rev_induct)
  case Nil
  show ?case by (rule exI [of _ "[]"]) (simp add: py_rstrip_def)
next
  case (snoc l ls)
  then obtain ls' where ls': "py_rstrip (py_join newline ls) = py_join newline ls'" "\<forall>l' \<in> set ls'. \<exists>l \<in> set ls. l' = l \<or> l' = py_rstrip l" by blast
  have nl: "\<forall>c \<in> set newline. py_space c" by (simp add: newline_def py_space_def)
  show ?case
  proof (cases "ls = []")
    case True
    then show ?thesis by (intro exI [of _ "[py_rstrip l]"]) simp
  next
    case False
    note join = py_join_snoc [OF False, of newline l]
    show ?thesis
    proof (cases "\<forall>c \<in> set l. py_space c")
      case True
      then have "py_rstrip (py_join newline (ls @ [l])) = py_join newline ls'" using join nl ls'(1) by (auto simp: py_rstrip_append)
      with ls'(2) show ?thesis by (intro exI [of _ ls']) auto
    next
      case sp: False
      then have "py_rstrip (py_join newline (ls @ [l])) = py_join newline (ls @ [py_rstrip l])"
        using join py_join_snoc [OF False, of newline "py_rstrip l"] by (auto simp: py_rstrip_append)
      then show ?thesis by (intro exI [of _ "ls @ [py_rstrip l]"]) auto
    qed
  qed
qed

text \<open>No quoted history and no signature survives the cleaning: no line of the cleaned body is an
  attribution, starts with a quote mark or opens a signature, whatever the mail was.\<close>

theorem clean_body_drops_history:
  assumes "l \<in> set (splitlines (clean_body text))"
  shows "\<not> quoted_line l \<and> \<not> signature_delimiter (py_strip l)"
proof (cases "text = []")
  case True
  then show ?thesis using assms by (simp add: clean_body_def splitlines_def)
next
  case False
  let ?kept = "takeWhile (\<lambda>l. \<not> signature_delimiter (py_strip l)) (takeWhile (\<lambda>l. \<not> quoted_line l) (splitlines text))"
  obtain ls where ls: "clean_body text = py_join newline ls" "\<forall>l' \<in> set ls. \<exists>l \<in> set ?kept. l' = l \<or> l' = py_rstrip l"
    using rstrip_join [of ?kept] False by (auto simp: clean_body_def Let_def)
  have "\<forall>c \<in> set l'. \<not> line_break c" if l': "l' \<in> set ls" for l'
  proof -
    obtain l0 where "l0 \<in> set ?kept" "l' = l0 \<or> l' = py_rstrip l0" using ls(2) l' by blast
    moreover from this have "l0 \<in> set (splitlines text)" by (auto dest: set_takeWhileD)
    then have "\<forall>c \<in> set l0. \<not> line_break c" unfolding splitlines_def by (rule splitlines_no_break) simp
    moreover have "set (py_rstrip l0) \<subseteq> set l0" unfolding py_rstrip_def using set_dropWhileD by fastforce
    ultimately show ?thesis by auto
  qed
  then have "l \<in> set ls" using assms splitlines_join [of ls]
    by (cases "ls = []") (auto simp: ls(1) splitlines_def dest: in_set_butlastD split: if_splits)
  then obtain l0 where l0: "l0 \<in> set ?kept" "l = l0 \<or> l = py_rstrip l0" using ls(2) by blast
  then have "\<not> signature_delimiter (py_strip l0)" "\<not> quoted_line l0" by (auto dest!: set_takeWhileD)
  moreover have "py_strip l = py_strip l0" using l0(2) py_strip_rstrip by auto
  ultimately show ?thesis by (simp add: quoted_line_def)
qed

end
