(* ===== verification/Resume.thy ===== *)
theory Resume
  imports Inbox
begin

section \<open>The pipeline of a run\<close>

text \<open>
  \<open>run_pipeline\<close>, \<open>resume_pipeline\<close> and \<open>_run_stages\<close> of \<open>app/pipeline/orchestrator.py\<close> over the
  database, and the two handlers that resume a run (\<open>app/queue/handlers\<close>). Extraction is a
  language-model call: what it returns or raises is an argument. A failure is classified at the
  stage that was active; what was committed before it stays.
\<close>

subsection \<open>Stages that may fail\<close>

type_synonym 'a staged = "db \<Rightarrow> (pipeline_result + 'a) \<times> db"

definition staged_return :: "'a \<Rightarrow> 'a staged" where
  "staged_return x d = (Inr x, d)"

definition staged_bind :: "'a staged \<Rightarrow> ('a \<Rightarrow> 'b staged) \<Rightarrow> 'b staged" where
  "staged_bind m f d = (case m d of (Inl r, d') \<Rightarrow> (Inl r, d') | (Inr x, d') \<Rightarrow> f x d')"

text \<open>The exception class \<open>classify_pipeline_exception\<close> tests for.\<close>

definition exc_of :: "py_error \<Rightarrow> exc" where
  "exc_of e = (if e = ValidationError then PydanticError else OtherException)"

definition at_stage :: "pipeline_stage \<Rightarrow> 'a act \<Rightarrow> 'a staged" where
  "at_stage st m d =
     (case m d of
        (Inl e, d') \<Rightarrow> (Inl (classify_pipeline_exception st (exc_of e)), d')
      | (Inr x, d') \<Rightarrow> (Inr x, d'))"

definition finish :: "unit staged \<Rightarrow> db \<Rightarrow> pipeline_result \<times> db" where
  "finish m d = (case m d of (Inl r, d') \<Rightarrow> (r, d') | (Inr x, d') \<Rightarrow> (bounded_noop, d'))"

subsection \<open>The shared gate path\<close>

record run_inputs =
  ri_extract :: "mail \<Rightarrow> roster \<Rightarrow> exc + extracted"
  ri_stub_id :: "nat \<Rightarrow> uuid"
  ri_clock :: int
  ri_round :: round_inputs

definition extract_from :: "run_inputs \<Rightarrow> mail \<Rightarrow> roster \<Rightarrow> extracted staged" where
  "extract_from ri m r d =
     (case ri_extract ri m r of
        Inl e \<Rightarrow> (Inl (classify_pipeline_exception StageExtract e), d)
      | Inr x \<Rightarrow> (Inr x, d))"

definition find_run :: "uuid \<Rightarrow> payroll_run act" where
  "find_run run = reading (\<lambda>d. case load_run run d of None \<Rightarrow> Inl ValueError | Some r \<Rightarrow> Inr r)"

definition gate_and_persist ::
  "unicode \<Rightarrow> run_inputs \<Rightarrow> uuid \<Rightarrow> roster \<Rightarrow> stage_inputs \<Rightarrow> extracted \<Rightarrow> stage_result act" where
  "gate_and_persist u ri run r si x =
     act_bind (find_run run) (\<lambda>rr.
     act_bind (reading (\<lambda>d. run_stages u (ri_stub_id ri) (ri_clock ri) r si x rr)) (\<lambda>(rr', sr).
     act_bind (writing (update_run run (\<lambda>_. rr'))) (\<lambda>_. act_return sr)))"

definition run_stages_on ::
  "unicode \<Rightarrow> settings \<Rightarrow> run_inputs \<Rightarrow> uuid \<Rightarrow> mail \<Rightarrow> roster \<Rightarrow> stage_inputs \<Rightarrow> extracted \<Rightarrow> stage_result staged" where
  "run_stages_on u cfg ri run m r si x =
     staged_bind (at_stage StageCompute (gate_and_persist u ri run r si x)) (\<lambda>sr.
       (case sr_branch sr of
          ClarifyNow dec x' \<Rightarrow>
            staged_bind (at_stage StageClarification (clarify u cfg (ri_round ri) run m dec r x' PurposeClarification)) (\<lambda>_.
            staged_return sr)
        | _ \<Rightarrow> staged_return sr))"

definition load_roster :: "uuid \<Rightarrow> roster act" where
  "load_roster b = reading (\<lambda>d. load_roster_for_business b (db_staff d))"

definition first_inputs :: stage_inputs where
  "first_inputs = \<lparr>si_prior = None, si_prior_matches = None, si_resolved_drops = [], si_suppress_detection = [],
     si_overrides = [], si_candidates = []\<rparr>"

definition run_body :: "unicode \<Rightarrow> settings \<Rightarrow> run_inputs \<Rightarrow> uuid \<Rightarrow> unit staged" where
  "run_body u cfg ri run =
     staged_bind (at_stage StageLoad (find_run run)) (\<lambda>rr.
       staged_bind (at_stage StageLoad (reading (\<lambda>d. case load_inbound_email run d of
           Inl e \<Rightarrow> Inl e | Inr None \<Rightarrow> Inl ValueError | Inr (Some m) \<Rightarrow> Inr m))) (\<lambda>m.
       staged_bind (at_stage StageLoad (load_roster (business_id rr))) (\<lambda>r.
       staged_bind (at_stage StagePersist (writing (update_run run (set_status EXTRACTING)))) (\<lambda>_.
       staged_bind (extract_from ri m r) (\<lambda>x.
       staged_bind (run_stages_on u cfg ri run m r first_inputs x) (\<lambda>sr. staged_return ()))))))"

definition run_pipeline :: "unicode \<Rightarrow> settings \<Rightarrow> run_inputs \<Rightarrow> uuid \<Rightarrow> db \<Rightarrow> pipeline_result \<times> db" where
  "run_pipeline u cfg ri run = finish (run_body u cfg ri run)"

subsection \<open>Resuming after a reply\<close>

definition operator_mail :: "uuid \<Rightarrow> mail" where
  "operator_mail run =
     \<lparr>ml_message_id = ''<operator-resume-'' @ uuid_str run @ ''@payroll-agent.local>'', ml_in_reply_to = None,
      ml_references = None, ml_subject = [], ml_from = [], ml_to = [], ml_body = []\<rparr>"

definition pre_candidates :: "payroll_run \<Rightarrow> (string, candidate_value) dict" where
  "pre_candidates rr = (case alias_candidates rr of None \<Rightarrow> [] | Some cs \<Rightarrow> cs)"

definition prior_matches_of :: "payroll_run \<Rightarrow> name_match list" where
  "prior_matches_of rr = (case reconciliation rr of None \<Rightarrow> [] | Some ms \<Rightarrow> ms)"

definition reply_context :: "mail \<Rightarrow> uuid \<Rightarrow> payroll_run \<Rightarrow> db \<Rightarrow> mail" where
  "reply_context m run rr d =
     combined_context_email m (case load_source_email run d of None \<Rightarrow> [] | Some b \<Rightarrow> b)
       (render_asked_summary (decision_data rr) (load_clarified_fields rr))
       (map in_body (filter (\<lambda>b. in_message_id b \<noteq> ml_message_id m) (load_consumed_replies run d)))"

text \<open>Step 1 and 2 of the reply to asked fields: the classification, the combined extraction with
  the reply's own values, and the inputs of the gate.\<close>

definition second_round ::
  "unicode \<Rightarrow> roster \<Rightarrow> payroll_run \<Rightarrow> (string, string) dict \<Rightarrow> extracted \<Rightarrow> extracted \<Rightarrow> classification \<times> extracted \<times> stage_inputs" where
  "second_round u r rr overrides reply combined =
     (let clarified = load_clarified_fields rr; prior = prior_matches_of rr;
          current = reconcile_names u (map submitted_name (employees reply)) r [];
          cl = classify_reply (reply_employee reply prior current) clarified;
          ids = name_to_id (reconcile_names u (map submitted_name (employees combined)) r []);
          snap = pre_clarify_extracted rr
      in (cl, apply_reply_values (cl_overrides cl) ids combined,
          \<lparr>si_prior = snap,
           si_prior_matches = Some (case snap of None \<Rightarrow> prior
              | Some s \<Rightarrow> reconcile_names u (map submitted_name (employees s)) r [] @ prior),
           si_resolved_drops = backfill_skip clarified cl, si_suppress_detection = suppress_detection clarified cl,
           si_overrides = overrides, si_candidates = pre_candidates rr\<rparr>))"

definition first_reply_inputs :: "payroll_run \<Rightarrow> (string, string) dict \<Rightarrow> stage_inputs" where
  "first_reply_inputs rr overrides =
     \<lparr>si_prior = pre_clarify_extracted rr, si_prior_matches = Some (prior_matches_of rr), si_resolved_drops = [],
      si_suppress_detection = [], si_overrides = overrides, si_candidates = pre_candidates rr\<rparr>"

subsection \<open>Binding the captured token\<close>

definition pending_tokens :: "(string, candidate_value) dict \<Rightarrow> (string \<times> string) list" where
  "pending_tokens cs =
     concat (map (\<lambda>(t, v). case (bound (normalize_candidate v), suggested (normalize_candidate v)) of
         (None, Some s) \<Rightarrow> [(t, s)] | _ \<Rightarrow> []) cs)"

definition bound_tokens :: "unicode \<Rightarrow> roster \<Rightarrow> name_match list \<Rightarrow> (string, candidate_value) dict \<Rightarrow> (string \<times> string) list" where
  "bound_tokens u r ms cs =
     filter (\<lambda>(t, s). bind_evidence_for_token u t s
         (map_option full_name (first_match (\<lambda>e. uuid_str (emp_id e) = s) (roster_employees r))) (map dump_match ms))
       (pending_tokens cs)"

definition bind_aliases :: "unicode \<Rightarrow> roster \<Rightarrow> uuid \<Rightarrow> (string, candidate_value) dict \<Rightarrow> db \<Rightarrow> db" where
  "bind_aliases u r run cs d =
     (let bs = bound_tokens u r (case Option.bind (load_run run d) reconciliation of None \<Rightarrow> [] | Some ms \<Rightarrow> ms) cs
      in if bs = [] then d
         else update_run run (set_alias_candidates (fold (\<lambda>(t, s) c. AList.update t (CandDict (Some s) (Some s)) c) bs cs)) d)"

definition after_stages ::
  "unicode \<Rightarrow> settings \<Rightarrow> run_inputs \<Rightarrow> uuid \<Rightarrow> clarified_fields \<Rightarrow> mail \<Rightarrow> roster \<Rightarrow> (string, candidate_value) dict \<Rightarrow> stage_result \<Rightarrow> unit staged" where
  "after_stages u cfg ri run clarified m r cs sr =
     (if sr_branch sr = Deferred
      then at_stage StageClarification (defer_field_regression_clarification u cfg (ri_round ri) run clarified (sr_issues sr) m r)
      else at_stage StagePersist (writing (bind_aliases u r run cs)))"

definition resume_body ::
  "unicode \<Rightarrow> settings \<Rightarrow> run_inputs \<Rightarrow> uuid \<Rightarrow> mail \<Rightarrow> (string, string) dict \<Rightarrow> unit staged" where
  "resume_body u cfg ri run m ovs =
     staged_bind (at_stage StageLoad (find_run run)) (\<lambda>rr.
     staged_bind (at_stage StageLoad (load_roster (business_id rr))) (\<lambda>r.
     staged_bind (at_stage StageLoad (reading (\<lambda>d. Inr (reply_context m run rr d)))) (\<lambda>cm.
       if load_clarified_fields rr = []
       then staged_bind (extract_from ri cm r) (\<lambda>x.
            staged_bind (run_stages_on u cfg ri run cm r (first_reply_inputs rr ovs) x)
              (after_stages u cfg ri run [] cm r (pre_candidates rr)))
       else staged_bind (extract_from ri m r) (\<lambda>reply.
            staged_bind (extract_from ri cm r) (\<lambda>combined.
            (case second_round u r rr ovs reply combined of
               (cl, x, si) \<Rightarrow>
                 staged_bind (at_stage StagePersist (writing (update_run run (set_clarified_fields (cl_fields cl))))) (\<lambda>_.
                 staged_bind (run_stages_on u cfg ri run cm r si x)
                   (after_stages u cfg ri run (cl_fields cl) cm r (pre_candidates rr)))))))))"

definition resume_pipeline ::
  "unicode \<Rightarrow> settings \<Rightarrow> run_inputs \<Rightarrow> uuid \<Rightarrow> mail option \<Rightarrow> run_status \<Rightarrow> (string, string) dict option \<Rightarrow> db \<Rightarrow> pipeline_result \<times> db" where
  "resume_pipeline u cfg ri run inbound from_status overrides d =
     (case cas_run run from_status (set_status EXTRACTING) d of
        (False, d') \<Rightarrow> (bounded_noop, d)
      | (True, d0) \<Rightarrow>
          (let m = (case inbound of None \<Rightarrow> operator_mail run | Some m \<Rightarrow> m)
           in finish (resume_body u cfg ri run m (case overrides of None \<Rightarrow> [] | Some ovs \<Rightarrow> ovs))
                (mark_reply_consumed (ml_message_id m) (get_clarification_round run d0) d0)))"

subsection \<open>The reply handler\<close>

definition handle_resume_reply :: "(uuid \<Rightarrow> mail \<Rightarrow> db \<Rightarrow> pipeline_result \<times> db) \<Rightarrow> claim \<Rightarrow> db \<Rightarrow> pipeline_result res \<times> db" where
  "handle_resume_reply resume c d =
     (case (cj_run_id c, cj_email_id c) of
        (Some run, Some email) \<Rightarrow>
          (case (get_inbound_email_by_id email d, load_run run d) of
             (Some b, Some r) \<Rightarrow>
               if in_run b \<noteq> Some run \<or> \<not> reply_sender_ok b r d then (Inr bounded_noop, d)
               else (let go = (\<lambda>d'. (let (res, d'') = resume run (row_to_inbound b) d' in (Inr res, d'')))
                     in if status r = AWAITING_REPLY
                        then (case cas_run run AWAITING_REPLY (set_status RECEIVED) d of
                                (True, d') \<Rightarrow> go d' | (False, d') \<Rightarrow> (Inr bounded_noop, d))
                        else if status r = RECEIVED \<and> 1 < cj_attempts c then go d
                        else if status r \<in> {EXTRACTING, COMPUTED, SENT} \<and> 1 < cj_attempts c
                        then go (update_run run (\<lambda>r. snd (rewind_for_reclaim r)) d)
                        else (Inr bounded_noop, d))
           | _ \<Rightarrow> (Inr bounded_noop, d))
      | _ \<Rightarrow> (Inl ValueError, d))"

subsection \<open>Where a pipeline leaves its run\<close>

lemma staged_bind_Inl: "m d = (Inl r, d') \<Longrightarrow> staged_bind m f d = (Inl r, d')"
  and staged_bind_Inr: "m d = (Inr x, d') \<Longrightarrow> staged_bind m f d = f x d'"
  by (simp_all add: staged_bind_def)

lemma classified_not_ok: "outcome (classify_pipeline_exception st e) \<noteq> Ok"
proof (cases "st = StageDelivery")
  case True
  then show ?thesis
    by (cases e) (auto simp: classify_pipeline_exception_def classify_delivery_exception_def delivery_retryable_def delivery_terminal_def
        default_result_def)
next
  case False
  then show ?thesis by (cases st; cases e) (simp_all add: classify_pipeline_exception_def default_result_def)
qed

lemma load_run_put:
  assumes "load_run run d = Some r" "run_id r' = run"
  shows "load_run run (update_run run (\<lambda>_. r') d) = Some r'"
proof -
  have "first_match (\<lambda>r. run_id r = run) (update_rows (\<lambda>r. run_id r = run) (\<lambda>_. r') rs) = Some r'"
    if "\<exists>r \<in> set rs. run_id r = run" for rs
    using that assms(2) by (induction rs) (auto simp: update_rows_def)
  then show ?thesis using load_run_Some [OF assms(1)] by (auto simp: load_run_def update_run_def)
qed

lemma db_ok_update_run:
  assumes "db_ok d" "\<And>r. run_id r = run \<Longrightarrow> run_id (f r) = run"
  shows "db_ok (update_run run f d)"
proof -
  have "map run_id (update_rows (\<lambda>r. run_id r = run) f (db_runs d)) = map run_id (db_runs d)"
    by (rule map_update_rows) (use assms(2) in simp)
  then show ?thesis using assms(1) by (simp add: db_ok_def update_run_def)
qed

lemma run_stages_row:
  assumes "run_stages u fresh now r si x rr = Inr (rr', sr)"
  shows "run_id rr' = run_id rr \<and> reply_epoch rr' = reply_epoch rr \<and> clarification_round rr' = clarification_round rr
    \<and> decision_data rr' \<noteq> None \<and> extracted_data rr' \<noteq> None \<and> business_id rr' = business_id rr
    \<and> status rr' = (if sr_branch sr = stage_branch.Advanced then AWAITING_APPROVAL else status rr)"
  using assms by (auto simp: run_stages_def Let_def res_simps run_writers split: if_splits)

lemma gate_and_persist_eq:
  assumes "load_run run d = Some rr"
  shows "gate_and_persist u ri run r si x d =
    (case run_stages u (ri_stub_id ri) (ri_clock ri) r si x rr of
       Inl e \<Rightarrow> (Inl e, d)
     | Inr (rr', sr) \<Rightarrow> (Inr sr, update_run run (\<lambda>_. rr') d))"
  using assms by (simp add: gate_and_persist_def find_run_def act_return_def split: sum.split)

definition paused :: "run_status \<Rightarrow> bool" where
  "paused s \<longleftrightarrow> s \<in> {AWAITING_APPROVAL, AWAITING_REPLY, NEEDS_OPERATOR}"

text \<open>The run after a staged computation: still extracting when it failed.\<close>

definition leaves :: "uuid \<Rightarrow> (pipeline_result + 'a) \<times> db \<Rightarrow> (db \<Rightarrow> payroll_run \<Rightarrow> 'a \<Rightarrow> bool) \<Rightarrow> bool" where
  "leaves run q P \<longleftrightarrow> (\<exists>r'. load_run run (snd q) = Some r' \<and>
     (case fst q of Inl res \<Rightarrow> outcome res \<noteq> Ok \<and> status r' = EXTRACTING | Inr x \<Rightarrow> P (snd q) r' x))"

lemma leaves_bind:
  assumes "leaves run (m d) P" "\<And>x d' r'. load_run run d' = Some r' \<Longrightarrow> P d' r' x \<Longrightarrow> leaves run (f x d') Q"
  shows "leaves run (staged_bind m f d) Q"
proof (cases "m d")
  case (Pair q d')
  show ?thesis
  proof (cases q)
    case (Inl res)
    with assms(1) Pair show ?thesis by (simp add: leaves_def staged_bind_def)
  next
    case (Inr x)
    with assms(1) Pair obtain r' where "load_run run d' = Some r'" "P d' r' x" by (auto simp: leaves_def)
    from assms(2) [OF this] Pair Inr show ?thesis by (simp add: staged_bind_def)
  qed
qed

lemma leaves_return: "load_run run d = Some r \<Longrightarrow> P d r x \<Longrightarrow> leaves run (staged_return x d) P"
  by (simp add: leaves_def staged_return_def)

lemma leaves_weaken: "leaves run q P \<Longrightarrow> (\<And>d r x. P d r x \<Longrightarrow> Q d r x) \<Longrightarrow> leaves run q Q"
  by (fastforce simp: leaves_def split: sum.splits)

lemma clarify_leaves:
  assumes "db_ok d" "load_run run d = Some r" "status r = EXTRACTING"
  shows "leaves run (at_stage StageClarification (clarify u cfg ri run m dec ros x p) d) (\<lambda>d' r' _. paused (status r'))"
proof (cases "clarify u cfg ri run m dec ros x p d")
  case (Pair q d')
  show ?thesis
  proof (cases q)
    case (Inl e)
    then have "d' = d" using clarify_error Pair by blast
    with assms Pair Inl show ?thesis by (simp add: leaves_def at_stage_def classified_not_ok)
  next
    case (Inr y)
    then have c: "clarify u cfg ri run m dec ros x p d = (Inr (), d')" using Pair by simp
    from clarify_outcome [OF assms(2) c] obtain r' where "load_run run d' = Some r'" "paused (status r')"
      by (auto simp: paused_def split: if_splits)
    then show ?thesis using Pair Inr by (simp add: leaves_def at_stage_def)
  qed
qed

text \<open>After the gate: persisted, and paused unless a field regression is still to be asked.\<close>

definition gated :: "stage_result \<Rightarrow> db \<Rightarrow> payroll_run \<Rightarrow> bool" where
  "gated sr d r \<longleftrightarrow> (if sr_branch sr = Deferred
     then db_ok d \<and> status r = EXTRACTING \<and> decision_data r \<noteq> None \<and> extracted_data r \<noteq> None else paused (status r))"

lemma gate_leaves:
  assumes "db_ok d" "load_run run d = Some r" "status r = EXTRACTING"
  shows "leaves run (at_stage StageCompute (gate_and_persist u ri run ros si x) d)
    (\<lambda>d' r' sr. db_ok d' \<and> decision_data r' \<noteq> None \<and> extracted_data r' \<noteq> None
       \<and> status r' = (if sr_branch sr = stage_branch.Advanced then AWAITING_APPROVAL else EXTRACTING))"
proof (cases "run_stages u (ri_stub_id ri) (ri_clock ri) ros si x r")
  case (Inl e)
  then show ?thesis using assms by (simp add: leaves_def at_stage_def gate_and_persist_eq classified_not_ok)
next
  case (Inr q)
  then obtain r' sr where q: "run_stages u (ri_stub_id ri) (ri_clock ri) ros si x r = Inr (r', sr)" by (cases q) auto
  note row = run_stages_row [OF q]
  then have id: "run_id r' = run" using load_run_Some [OF assms(2)] by simp
  have "db_ok (update_run run (\<lambda>_. r') d)" by (rule db_ok_update_run [OF assms(1)]) (rule id)
  then show ?thesis using load_run_put [OF assms(2) id] row assms(2,3) q
    by (simp add: leaves_def at_stage_def gate_and_persist_eq)
qed

lemma run_stages_leaves:
  assumes "db_ok d" "load_run run d = Some r" "status r = EXTRACTING"
  shows "leaves run (run_stages_on u cfg ri run m ros si x d) (\<lambda>d' r' sr. gated sr d' r')"
  unfolding run_stages_on_def
proof (rule leaves_bind, rule gate_leaves [OF assms])
  fix sr :: stage_result and d' r'
  assume r': "load_run run d' = Some r'" and p: "db_ok d' \<and> decision_data r' \<noteq> None \<and> extracted_data r' \<noteq> None
    \<and> status r' = (if sr_branch sr = stage_branch.Advanced then AWAITING_APPROVAL else EXTRACTING)"
  show "leaves run ((case sr_branch sr of
          ClarifyNow dec x' \<Rightarrow>
            staged_bind (at_stage StageClarification (clarify u cfg (ri_round ri) run m dec ros x' PurposeClarification)) (\<lambda>_.
            staged_return sr)
        | _ \<Rightarrow> staged_return sr) d') (\<lambda>d' r' sr. gated sr d' r')"
  proof (cases "sr_branch sr")
    case (ClarifyNow dec x')
    have "leaves run (staged_bind (at_stage StageClarification (clarify u cfg (ri_round ri) run m dec ros x' PurposeClarification)) (\<lambda>_.
            staged_return sr) d') (\<lambda>d' r' sr. gated sr d' r')"
      by (rule leaves_bind, rule clarify_leaves [OF _ r']) (use p ClarifyNow in \<open>auto intro: leaves_return simp: gated_def\<close>)
    then show ?thesis using ClarifyNow by simp
  qed (use p r' in \<open>auto intro!: leaves_return simp: gated_def paused_def\<close>)
qed

lemma defer_leaves:
  assumes "db_ok d" "load_run run d = Some r" "status r = EXTRACTING" "decision_data r \<noteq> None" "extracted_data r \<noteq> None"
  shows "leaves run (at_stage StageClarification (defer_field_regression_clarification u cfg ri run c issues m ros) d)
    (\<lambda>d' r' _. paused (status r'))"
proof -
  obtain dec x where row: "decision_data r = Some dec" "extracted_data r = Some x" using assms(4,5) by blast
  define c' where "c' = mark_regressions (case Option.bind (load_run run d) reconciliation of None \<Rightarrow> [] | Some ms \<Rightarrow> matched_ids ms) issues c"
  let ?d = "update_run run (set_clarified_fields c') d"
  have r1: "load_run run ?d = Some (set_clarified_fields c' r)"
    by (rule load_run_update_same) (simp_all add: set_clarified_fields_def assms(2))
  have ok: "db_ok ?d" by (rule db_ok_update_run [OF assms(1)]) (simp add: set_clarified_fields_def)
  have "at_stage StageClarification (defer_field_regression_clarification u cfg ri run c issues m ros) d
      = at_stage StageClarification (clarify u cfg ri run m dec ros x PurposeFieldRegression) ?d"
    using r1 row by (simp add: at_stage_def defer_field_regression_clarification_def c'_def set_clarified_fields_def)
  then show ?thesis using clarify_leaves [OF ok r1] assms(3) by (simp add: set_clarified_fields_def)
qed

lemma overtime_issue_kind: "overtime_issue ms r e = Some i \<Longrightarrow> issue_kind i = Missing"
  unfolding overtime_issue_def Let_def by (auto split: option.splits if_splits)

lemma missing_issue_kind: "missing_issue ms r e = Some i \<Longrightarrow> issue_kind i = Missing"
  unfolding missing_issue_def by (auto split: if_splits)

lemma validate_no_regression: "i \<in> set (validate x r ms ks []) \<Longrightarrow> issue_kind i \<noteq> FieldRegression"
  using overtime_issue_kind missing_issue_kind by (fastforce simp: validate_def in_map_filter map_filter_simps)

lemma no_prior_not_deferred:
  assumes "run_stages u fresh now r si x rr = Inr (rr', sr)" "si_prior si = None"
  shows "sr_branch sr \<noteq> Deferred"
proof -
  have "\<not> list_ex (\<lambda>i. issue_kind i = FieldRegression) (gf_issues (gate u r si x))"
    using validate_no_regression assms(2) by (fastforce simp: gate_def Let_def list_ex_iff)
  with assms(1) show ?thesis by (auto simp: run_stages_def Let_def res_simps split: if_splits)
qed

lemma run_stages_on_branch:
  assumes "run_stages_on u cfg ri run m ros si x d = (Inr sr, d')" "si_prior si = None"
  shows "sr_branch sr \<noteq> Deferred"
proof -
  obtain sr' d1 where g: "at_stage StageCompute (gate_and_persist u ri run ros si x) d = (Inr sr', d1)" and "sr = sr'"
    using assms(1) by (auto simp: run_stages_on_def staged_bind_def staged_return_def split: prod.splits sum.splits stage_branch.splits)
  then obtain rr where rr: "load_run run d = Some rr"
    by (cases "load_run run d") (auto simp: at_stage_def gate_and_persist_def find_run_def)
  from g \<open>sr = sr'\<close> obtain rr' where "run_stages u (ri_stub_id ri) (ri_clock ri) ros si x rr = Inr (rr', sr)"
    by (auto simp: at_stage_def gate_and_persist_eq [OF rr] split: sum.splits)
  from no_prior_not_deferred [OF this assms(2)] show ?thesis .
qed

text \<open>The verdict of a pipeline body: a run whose body reports success waits for a human, a run whose
  body reports a failure is still extracting, where the settlement of the job expects it.\<close>

definition settles :: "uuid \<Rightarrow> pipeline_result \<times> db \<Rightarrow> bool" where
  "settles run q \<longleftrightarrow> (\<exists>r'. load_run run (snd q) = Some r' \<and> (if outcome (fst q) = Ok then paused (status r') else status r' = EXTRACTING))"

lemma finish_settles:
  assumes "leaves run (m d) (\<lambda>d' r' _. paused (status r'))"
  shows "settles run (finish m d)"
  using assms by (cases "m d") (auto simp: leaves_def settles_def finish_def bounded_noop_def default_result_def split: sum.splits)

text \<open>One step of a body: it fails where it stands, or hands its value on.\<close>

lemma leaves_reading:
  assumes "load_run run d = Some r" "status r = EXTRACTING" "\<And>x. g d = Inr x \<Longrightarrow> leaves run (f x d) Q"
  shows "leaves run (staged_bind (at_stage st (reading g)) f d) Q"
  using assms by (cases "g d") (simp_all add: leaves_def staged_bind_def at_stage_def reading_def classified_not_ok)

lemma leaves_extract:
  assumes "load_run run d = Some r" "status r = EXTRACTING" "\<And>x. ri_extract ri m ros = Inr x \<Longrightarrow> leaves run (f x d) Q"
  shows "leaves run (staged_bind (extract_from ri m ros) f d) Q"
  using assms by (cases "ri_extract ri m ros") (simp_all add: leaves_def staged_bind_def extract_from_def classified_not_ok)

lemma leaves_writing: "leaves run (f () (w d)) Q \<Longrightarrow> leaves run (staged_bind (at_stage st (writing w)) f d) Q"
  by (simp add: staged_bind_def at_stage_def writing_def)

lemma run_body_leaves:
  assumes "db_ok d" "load_run run d = Some r" "status r = EXTRACTING"
  shows "leaves run (run_body u cfg ri run d) (\<lambda>d' r' _. paused (status r'))"
  unfolding run_body_def find_run_def load_roster_def
proof ((rule leaves_reading [OF assms(2,3)])+, rule leaves_writing, rule leaves_extract)
  let ?d = "update_run run (set_status EXTRACTING) d"
  show r1: "load_run run ?d = Some (set_status EXTRACTING r)"
    by (rule load_run_update_same) (simp_all add: set_status_def assms(2))
  show st: "status (set_status EXTRACTING r) = EXTRACTING" by (simp add: set_status_def)
  have ok: "db_ok ?d" by (rule db_ok_update_run [OF assms(1)]) (simp add: set_status_def)
  fix m ros x
  let ?q = "run_stages_on u cfg ri run m ros first_inputs x ?d"
  have "leaves run ?q (\<lambda>d' r' sr. gated sr d' r')" by (rule run_stages_leaves [OF ok r1 st])
  then have "leaves run ?q (\<lambda>d' r' sr. paused (status r'))"
    using run_stages_on_branch [of u cfg ri run m ros first_inputs x ?d]
    by (cases ?q) (auto simp: leaves_def gated_def first_inputs_def split: sum.splits)
  then show "leaves run (staged_bind (run_stages_on u cfg ri run m ros first_inputs x) (\<lambda>sr. staged_return ()) ?d) (\<lambda>d' r' _. paused (status r'))"
    by (rule leaves_bind) (auto intro: leaves_return)
qed

text \<open>A first pipeline run never strands its run: if the body reports success the run waits for
  an approval, a reply or an operator; otherwise it is still extracting and the job's settlement
  takes it from there. No third outcome exists, whatever the extraction returned or raised.\<close>

theorem run_pipeline_settles:
  assumes "db_ok d" "load_run run d = Some r" "status r = EXTRACTING"
  shows "settles run (run_pipeline u cfg ri run d)"
  unfolding run_pipeline_def by (rule finish_settles, rule run_body_leaves [OF assms])

lemma after_stages_leaves:
  assumes "load_run run d = Some r" "gated sr d r"
  shows "leaves run (after_stages u cfg ri run c m ros cs sr d) (\<lambda>d' r' _. paused (status r'))"
proof (cases "sr_branch sr = Deferred")
  case True
  with assms show ?thesis using defer_leaves [of d run r] by (simp add: after_stages_def gated_def)
next
  case False
  then have p: "paused (status r)" using assms(2) by (simp add: gated_def)
  obtain f where f: "bind_aliases u ros run cs d = update_run run f d" "\<And>r. run_id (f r) = run_id r \<and> status (f r) = status r"
  proof (cases "bind_aliases u ros run cs d = d")
    case True
    then show thesis using that [of "\<lambda>r. r"] by (simp add: update_run_def update_rows_def map_idI)
  next
    case False
    then show thesis using that [of "set_alias_candidates cs'" for cs'] by (auto simp: bind_aliases_def Let_def split: if_splits)
  qed
  have "load_run run (update_run run f d) = Some (f r)" by (rule load_run_update_same) (simp_all add: f(2) assms(1))
  with False p f show ?thesis by (simp add: after_stages_def leaves_def at_stage_def writing_def)
qed

lemma mark_reply_consumed_frame [simp]:
  "db_ok (mark_reply_consumed mid n d) = db_ok d" "load_run run (mark_reply_consumed mid n d) = load_run run d"
  by (simp_all add: mark_reply_consumed_def db_ok_def load_run_def)

lemma cas_run_claimed:
  assumes "db_ok d" "load_run run d = Some r" "status r = s"
  shows "cas_run run s f d = (True, d\<lparr>db_runs := update_rows (\<lambda>r. run_id r = run \<and> status r = s) f (db_runs d)\<rparr>)"
  using cas_run_iff [OF assms(1,2), of s f] assms(3) by (simp add: cas_run_def)

lemma cas_run_db_ok: "db_ok d \<Longrightarrow> (\<And>r. run_id (f r) = run_id r) \<Longrightarrow> db_ok (snd (cas_run run s f d))"
  using map_update_rows [of _ run_id f] by (simp add: db_ok_def cas_run_snd)

lemma resume_body_leaves:
  assumes "db_ok d" "load_run run d = Some r" "status r = EXTRACTING"
  shows "leaves run (resume_body u cfg ri run m ovs d) (\<lambda>d' r' _. paused (status r'))"
proof -
  have stages: "leaves run (staged_bind (run_stages_on u cfg ri run cm ros si x) (after_stages u cfg ri run c cm ros cs) d1) (\<lambda>d' r' _. paused (status r'))"
    if "db_ok d1" "load_run run d1 = Some r1" "status r1 = EXTRACTING" for cm ros si x c cs d1 r1
    by (rule leaves_bind, rule run_stages_leaves [OF that]) (rule after_stages_leaves)
  have second: "leaves run (staged_bind (at_stage StagePersist (writing (update_run run (set_clarified_fields c)))) (\<lambda>_.
      staged_bind (run_stages_on u cfg ri run cm ros si x) (after_stages u cfg ri run c cm ros cs)) d) (\<lambda>d' r' _. paused (status r'))"
    for cm ros si x c cs
  proof (rule leaves_writing, rule stages)
    show "db_ok (update_run run (set_clarified_fields c) d)" by (rule db_ok_update_run [OF assms(1)]) (simp add: set_clarified_fields_def)
    show "load_run run (update_run run (set_clarified_fields c) d) = Some (set_clarified_fields c r)"
      by (rule load_run_update_same) (simp_all add: set_clarified_fields_def assms(2))
  qed (simp add: set_clarified_fields_def assms(3))
  have rr: "rr = r" if "(case load_run run d of None \<Rightarrow> Inl ValueError | Some r \<Rightarrow> Inr r) = Inr rr" for rr
    using that assms(2) by simp
  show ?thesis
    unfolding resume_body_def find_run_def load_roster_def
  proof ((rule leaves_reading [OF assms(2,3)])+)
    fix rr ros cm
    let ?Q = "\<lambda>d' r' x :: unit. paused (status r')"
    show "leaves run ((if load_clarified_fields rr = []
       then staged_bind (extract_from ri cm ros) (\<lambda>x.
            staged_bind (run_stages_on u cfg ri run cm ros (first_reply_inputs rr ovs) x)
              (after_stages u cfg ri run [] cm ros (pre_candidates rr)))
       else staged_bind (extract_from ri m ros) (\<lambda>reply.
            staged_bind (extract_from ri cm ros) (\<lambda>combined.
            (case second_round u ros rr ovs reply combined of
               (cl, x, si) \<Rightarrow>
                 staged_bind (at_stage StagePersist (writing (update_run run (set_clarified_fields (cl_fields cl))))) (\<lambda>_.
                 staged_bind (run_stages_on u cfg ri run cm ros si x)
                   (after_stages u cfg ri run (cl_fields cl) cm ros (pre_candidates rr))))))) d) (\<lambda>d' r' _. paused (status r'))"
    proof (cases "load_clarified_fields rr = []")
      case True
      then show ?thesis by (simp only: if_True simp_thms) (rule leaves_extract [OF assms(2,3)], rule stages [OF assms])
    next
      case False
      show ?thesis unfolding if_not_P [OF False]
      proof ((rule leaves_extract [OF assms(2,3)])+)
        fix reply combined
        show "leaves run ((case second_round u ros rr ovs reply combined of
               (cl, x, si) \<Rightarrow>
                 staged_bind (at_stage StagePersist (writing (update_run run (set_clarified_fields (cl_fields cl))))) (\<lambda>_.
                 staged_bind (run_stages_on u cfg ri run cm ros si x)
                   (after_stages u cfg ri run (cl_fields cl) cm ros (pre_candidates rr)))) d) (\<lambda>d' r' _. paused (status r'))"
          using second by (cases "second_round u ros rr ovs reply combined") simp
      qed
    qed
  qed
qed

text \<open>C11. A resume never strands its run either, whichever round it is and whether a reply or an operator
  resumed it; and a resume that does not win the claim changes nothing.\<close>

theorem resume_pipeline_settles:
  assumes "db_ok d" "load_run run d = Some r"
  shows "if status r = from_status then settles run (resume_pipeline u cfg ri run inbound from_status overrides d)
    else resume_pipeline u cfg ri run inbound from_status overrides d = (bounded_noop, d)"
proof (cases "status r = from_status")
  case False
  then have "\<not> fst (cas_run run from_status (set_status EXTRACTING) d)" using cas_run_iff [OF assms] by simp
  with False show ?thesis by (auto simp: resume_pipeline_def split: prod.split bool.split)
next
  case True
  obtain d0 where claim: "cas_run run from_status (set_status EXTRACTING) d = (True, d0)"
    using cas_run_claimed [OF assms True] by blast
  then have d0: "d0 = snd (cas_run run from_status (set_status EXTRACTING) d)" by simp
  have ok: "db_ok d0" unfolding d0 by (rule cas_run_db_ok [OF assms(1)]) (simp add: set_status_def)
  have r0: "load_run run d0 = Some (set_status EXTRACTING r)"
    unfolding d0 using load_run_cas [OF assms(2), of "set_status EXTRACTING" from_status] True by (simp add: set_status_def)
  have "settles run (finish (resume_body u cfg ri run m ovs) (mark_reply_consumed mid n d0))" for m ovs mid n
  proof (rule finish_settles, rule resume_body_leaves)
    show "db_ok (mark_reply_consumed mid n d0)" using ok by simp
    show "load_run run (mark_reply_consumed mid n d0) = Some (set_status EXTRACTING r)" using r0 by simp
    show "status (set_status EXTRACTING r) = EXTRACTING" by (simp add: set_status_def)
  qed
  with True claim show ?thesis by (simp add: resume_pipeline_def Let_def)
qed

subsection \<open>A reply that is reclaimed\<close>

lemma run_stages_clarifies:
  assumes "final_action_of (gf_decision (gate u r si x)) = RequestClarification" "si_prior si = None"
  shows "\<exists>rr' sr dec x'. run_stages u fresh now r si x rr = Inr (rr', sr) \<and> sr_branch sr = ClarifyNow dec x'"
proof -
  have "\<not> list_ex (\<lambda>i. issue_kind i = FieldRegression) (gf_issues (gate u r si x))"
    using validate_no_regression assms(2) by (fastforce simp: gate_def Let_def list_ex_iff)
  with assms(1) show ?thesis by (simp add: run_stages_def Let_def)
qed

lemma clarify_already_sent:
  assumes "load_run run d = Some r" "clarification_round r = n" "n < MAX_CLARIFICATION_ROUNDS"
    "ob \<in> set (db_outbound d)" "in_slot run p n (reply_epoch r) ob" "ob_state ob = MailSent"
  shows "clarify u cfg ri run m dec ros x p d = (Inr (), await_reply run x (n + 1) d)"
proof -
  have "of_epoch run p d ob \<and> ob_state ob = MailSent \<and> ob_round ob = n"
    using assms(1,5,6) by (auto simp: of_epoch_def in_slot_def run_epoch_def)
  then have "latest (\<lambda>ob. of_epoch run p d ob \<and> ob_state ob = MailSent \<and> ob_round ob = n) (db_outbound d) \<noteq> None"
    unfolding latest_None using assms(4) by blast
  then obtain ob' where "latest (\<lambda>ob. of_epoch run p d ob \<and> ob_state ob = MailSent \<and> ob_round ob = n) (db_outbound d) = Some ob'" by blast
  moreover from latest_Some [OF this] have "ob_round ob' = n" by simp
  ultimately show ?thesis using assms(1-3)
    by (simp add: clarify_def Let_def get_clarification_round_def get_outbound_for_round_def writing_def)
qed

lemma bind_aliases_frame [simp]: "db_outbound (bind_aliases u r run cs d) = db_outbound d" "db_jobs (bind_aliases u r run cs d) = db_jobs d"
  by (simp_all add: bind_aliases_def Let_def)

text \<open>Resuming a run whose context was rewound, when the gate wants to ask: the sent question of round
  zero is found and nothing is sent.\<close>

lemma resume_finds_old_question:
  assumes "db_ok d" "load_run run d = Some r" "status r = RECEIVED" "clarified_fields r = None" "pre_clarify_extracted r = None"
    "clarification_round r = 0" "ob \<in> set (db_outbound d)" "in_slot run PurposeClarification 0 (reply_epoch r) ob" "ob_state ob = MailSent"
    "load_roster_for_business (business_id r) (db_staff d) = Inr ros" "\<And>m. ri_extract ri m ros = Inr x"
    "final_action_of (gf_decision (gate u ros (first_reply_inputs r []) x)) = RequestClarification"
  shows "\<exists>d' r'. resume_pipeline u cfg ri run (Some m) RECEIVED None d = (bounded_noop, d') \<and> db_outbound d' = db_outbound d
    \<and> db_jobs d' = db_jobs d \<and> load_run run d' = Some r' \<and> status r' = AWAITING_REPLY"
proof -
  obtain d0 where claim: "cas_run run RECEIVED (set_status EXTRACTING) d = (True, d0)"
    using cas_run_claimed [OF assms(1-3)] by blast
  then have d0: "d0 = snd (cas_run run RECEIVED (set_status EXTRACTING) d)" by simp
  let ?r = "set_status EXTRACTING r"
  have r0: "load_run run d0 = Some ?r" "db_outbound d0 = db_outbound d" "db_jobs d0 = db_jobs d" "db_staff d0 = db_staff d"
    unfolding d0 using load_run_cas [OF assms(2), of "set_status EXTRACTING" RECEIVED] assms(3) by (simp_all add: set_status_def cas_run_snd)
  define d1 where "d1 = mark_reply_consumed (ml_message_id m) (get_clarification_round run d0) d0"
  have r1: "load_run run d1 = Some ?r" "db_outbound d1 = db_outbound d" "db_jobs d1 = db_jobs d" "db_staff d1 = db_staff d"
    using r0 by (simp_all add: d1_def mark_reply_consumed_def load_run_def)
  have si: "first_reply_inputs ?r [] = first_reply_inputs r []"
    by (simp add: first_reply_inputs_def set_status_def pre_candidates_def prior_matches_of_def)
  have "si_prior (first_reply_inputs r []) = None" by (simp add: first_reply_inputs_def assms(5))
  from run_stages_clarifies [OF assms(12) this, of "ri_stub_id ri" "ri_clock ri" ?r]
  obtain rr' sr dec x' where q: "run_stages u (ri_stub_id ri) (ri_clock ri) ros (first_reply_inputs r []) x ?r = Inr (rr', sr)"
    and br: "sr_branch sr = ClarifyNow dec x'" by blast
  note row = run_stages_row [OF q]
  have id: "run_id rr' = run" using row load_run_Some [OF assms(2)] by (simp add: set_status_def)
  let ?d2 = "update_run run (\<lambda>_. rr') d1"
  have r2: "load_run run ?d2 = Some rr'" by (rule load_run_put [OF r1(1) id])
  let ?cm = "reply_context m run ?r d1"
  have ask: "clarify u cfg (ri_round ri) run ?cm dec ros x' PurposeClarification ?d2 = (Inr (), await_reply run x' (0 + 1) ?d2)"
  proof (rule clarify_already_sent [OF r2])
    show "clarification_round rr' = 0" using row assms(6) by (simp add: set_status_def)
    show "ob \<in> set (db_outbound ?d2)" using assms(7) r1 by simp
    show "in_slot run PurposeClarification 0 (reply_epoch rr') ob" using row assms(8) by (simp add: set_status_def)
  qed (simp_all add: assms(9) MAX_CLARIFICATION_ROUNDS_def)
  let ?d3 = "await_reply run x' (Suc 0) ?d2"
  have gp: "at_stage StageCompute (gate_and_persist u ri run ros (first_reply_inputs r []) x) d1 = (Inr sr, ?d2)"
    by (simp add: at_stage_def gate_and_persist_eq [OF r1(1)] q)
  have stages: "run_stages_on u cfg ri run ?cm ros (first_reply_inputs r []) x d1 = (Inr sr, ?d3)"
  proof -
    have "at_stage StageClarification (clarify u cfg (ri_round ri) run ?cm dec ros x' PurposeClarification) ?d2 = (Inr (), ?d3)"
      unfolding at_stage_def ask by simp
    then show ?thesis by (simp add: run_stages_on_def staged_bind_def gp br staged_return_def)
  qed
  have steps: "at_stage StageLoad (find_run run) d1 = (Inr ?r, d1)" "at_stage StageLoad (load_roster (business_id ?r)) d1 = (Inr ros, d1)"
    "at_stage StageLoad (reading (\<lambda>d. Inr (reply_context m run ?r d))) d1 = (Inr ?cm, d1)" "extract_from ri ?cm ros d1 = (Inr x, d1)"
    "load_clarified_fields ?r = []"
    using assms(4,10,11) r1
    by (simp_all add: at_stage_def find_run_def load_roster_def reading_def extract_from_def load_clarified_fields_def set_status_def)
  have last: "after_stages u cfg ri run [] ?cm ros (pre_candidates ?r) sr ?d3 = (Inr (), bind_aliases u ros run (pre_candidates ?r) ?d3)"
    by (simp add: after_stages_def br at_stage_def writing_def)
  have body: "resume_body u cfg ri run m [] d1 = (Inr (), bind_aliases u ros run (pre_candidates ?r) ?d3)"
    unfolding resume_body_def by (simp add: staged_bind_def steps si stages last)
  let ?d4 = "bind_aliases u ros run (pre_candidates ?r) ?d3"
  have r3: "load_run run ?d3 = Some (waiting x' (Suc 0) rr')" by (rule load_run_await [OF r2])
  have "\<exists>r'. load_run run ?d4 = Some r' \<and> status r' = AWAITING_REPLY"
    using r3 load_run_update_same [of "set_alias_candidates cs" for cs, OF _ r3] by (auto simp: bind_aliases_def Let_def)
  moreover have "resume_pipeline u cfg ri run (Some m) RECEIVED None d = (bounded_noop, ?d4)"
    by (simp add: resume_pipeline_def claim d1_def [symmetric] body finish_def)
  ultimately show ?thesis using r1 by auto
qed

lemma rewound_row:
  assumes "status r \<in> {EXTRACTING, COMPUTED, SENT}"
  shows "status (snd (rewind_for_reclaim r)) = RECEIVED" "clarified_fields (snd (rewind_for_reclaim r)) = None"
    "pre_clarify_extracted (snd (rewind_for_reclaim r)) = None" "clarification_round (snd (rewind_for_reclaim r)) = 0"
    "reply_epoch (snd (rewind_for_reclaim r)) = reply_epoch r" "business_id (snd (rewind_for_reclaim r)) = business_id r"
  using assms by (simp_all add: rewind_for_reclaim_def clear_reply_columns_def)

lemma rewind_run_id [simp]: "run_id (snd (rewind_for_reclaim r)) = run_id r"
  by (simp add: rewind_for_reclaim_def clear_reply_columns_def)

text \<open>A reply that is reclaimed loses the next question: a worker that dies while it resumes a run
  leaves it extracting; the reclaim rewinds the round to zero without a new epoch, so when the
  gate wants to ask again the question of round zero, sent long ago, is taken for the new one.
  The run waits for a reply, the job is reported done, and no mail is reserved or queued.\<close>

theorem reclaimed_reply_never_asks:
  assumes "db_ok d" "load_run run d = Some r" "status r = EXTRACTING"
    "cj_run_id c = Some run" "cj_email_id c = Some email" "1 < cj_attempts c"
    "get_inbound_email_by_id email d = Some b" "in_run b = Some run" "reply_sender_ok b r d"
    "ob \<in> set (db_outbound d)" "in_slot run PurposeClarification 0 (reply_epoch r) ob" "ob_state ob = MailSent"
    "load_roster_for_business (business_id r) (db_staff d) = Inr ros" "ri_extract ri = (\<lambda>m ros. Inr x)"
    "final_action_of (gf_decision (gate u ros (first_reply_inputs (snd (rewind_for_reclaim r)) []) x)) = RequestClarification"
  shows "\<exists>d' r'. handle_resume_reply (\<lambda>run m. resume_pipeline u cfg ri run (Some m) RECEIVED None) c d = (Inr bounded_noop, d')
    \<and> db_outbound d' = db_outbound d \<and> db_jobs d' = db_jobs d \<and> load_run run d' = Some r' \<and> status r' = AWAITING_REPLY"
proof -
  let ?r = "snd (rewind_for_reclaim r)" and ?d = "update_run run (\<lambda>r. snd (rewind_for_reclaim r)) d"
  have ok: "db_ok ?d" by (rule db_ok_update_run [OF assms(1)]) simp
  have r0: "load_run run ?d = Some ?r" by (rule load_run_update_same) (simp_all add: assms(2))
  note row = rewound_row [of r]
  have "\<exists>d' r'. resume_pipeline u cfg ri run (Some (row_to_inbound b)) RECEIVED None ?d = (bounded_noop, d') \<and> db_outbound d' = db_outbound ?d
    \<and> db_jobs d' = db_jobs ?d \<and> load_run run d' = Some r' \<and> status r' = AWAITING_REPLY"
    by (rule resume_finds_old_question [OF ok r0, where ob = ob and ros = ros and x = x])
      (use row assms(3,10-15) in simp_all)
  then obtain d' r' where "resume_pipeline u cfg ri run (Some (row_to_inbound b)) RECEIVED None ?d = (bounded_noop, d')"
    "db_outbound d' = db_outbound d" "db_jobs d' = db_jobs d" "load_run run d' = Some r'" "status r' = AWAITING_REPLY" by auto
  then show ?thesis using assms(2-9) by (auto simp: handle_resume_reply_def Let_def)
qed

definition sample_settings :: settings where
  "sample_settings = \<lparr>cf_from = ''pay@x'', cf_reply_to = [], cf_outbound_to = [], cf_job_attempts = 3\<rparr>"

definition empty_extraction :: extracted where
  "empty_extraction = \<lparr>extracted_run_id = 9, employees = [], pay_period_start = None, pay_period_end = None\<rparr>"

definition sample_round :: round_inputs where
  "sample_round = \<lparr>rd_now = 0, rd_ids = \<lparr>sl_email = 61, sl_snapshot = 62, sl_message_id = ''<q@x>'', sl_job = 63\<rparr>,
     rd_suggest = None, rd_draft = None\<rparr>"

definition sample_run_inputs :: run_inputs where
  "sample_run_inputs = \<lparr>ri_extract = (\<lambda>m ros. Inr empty_extraction), ri_stub_id = (\<lambda>n. of_nat n), ri_clock = 0, ri_round = sample_round\<rparr>"

lemma empty_extraction_clarifies:
  assumes "si_prior si = None"
  shows "final_action_of (gf_decision (gate u r si empty_extraction)) = RequestClarification"
  using assms by (simp add: gate_def Let_def empty_extraction_def decide_def)

text \<open>The reply to the question of round zero is being resumed; its worker died.\<close>

definition dead_reply_db :: db where
  "dead_reply_db = empty_db\<lparr>db_runs := [sample_run\<lparr>clarification_round := 1\<rparr>],
     db_outbound := [mail_slot\<lparr>ob_purpose := PurposeClarification, ob_state := MailSent\<rparr>], db_businesses := [(7, ''client@y'')],
     db_inbox := [(new_inbound 21 late_mail ''40 hours'')\<lparr>in_run := Some 9\<rparr>]\<rparr>"

definition dead_reply_claim :: claim where
  "dead_reply_claim = \<lparr>cj_id = 31, cj_kind = ResumeReply, cj_run_id = Some 9, cj_email_id = Some 21, cj_resolution_id = None,
     cj_event_id = None, cj_attempts = 2, cj_max_attempts = 3, cj_token = 77\<rparr>"

theorem reclaimed_reply_never_asks_witness:
  "\<exists>d' r'. handle_resume_reply (\<lambda>run m. resume_pipeline ascii sample_settings sample_run_inputs run (Some m) RECEIVED None)
      dead_reply_claim dead_reply_db = (Inr bounded_noop, d')
    \<and> length (db_outbound d') = 1 \<and> db_jobs d' = [] \<and> load_run 9 d' = Some r' \<and> status r' = AWAITING_REPLY"
proof -
  let ?r = "sample_run\<lparr>clarification_round := 1\<rparr>" and ?b = "(new_inbound 21 late_mail ''40 hours'')\<lparr>in_run := Some 9\<rparr>"
  have d: "db_ok dead_reply_db" "load_run 9 dead_reply_db = Some ?r" "get_inbound_email_by_id 21 dead_reply_db = Some ?b"
      "reply_sender_ok ?b ?r dead_reply_db"
      "load_roster_for_business (business_id ?r) (db_staff dead_reply_db) = Inr \<lparr>roster_business = 7, roster_employees = []\<rparr>"
    by (simp_all add: db_ok_def load_run_def get_inbound_email_by_id_def reply_sender_ok_def find_business_by_sender_def
        load_roster_for_business_def roster_valid_def dead_reply_db_def empty_db_def sample_run_def new_inbound_def late_mail_def)
  have s: "mail_slot\<lparr>ob_purpose := PurposeClarification, ob_state := MailSent\<rparr> \<in> set (db_outbound dead_reply_db)"
    "in_slot 9 PurposeClarification 0 (reply_epoch ?r) (mail_slot\<lparr>ob_purpose := PurposeClarification, ob_state := MailSent\<rparr>)"
    by (simp_all add: dead_reply_db_def in_slot_def mail_slot_def sample_run_def)
  have g: "final_action_of (gf_decision (gate ascii \<lparr>roster_business = 7, roster_employees = []\<rparr>
      (first_reply_inputs (snd (rewind_for_reclaim ?r)) []) empty_extraction)) = RequestClarification"
    by (rule empty_extraction_clarifies) (simp add: first_reply_inputs_def rewind_for_reclaim_def clear_reply_columns_def sample_run_def)
  have st: "status ?r = EXTRACTING" "in_run ?b = Some 9" by (simp_all add: sample_run_def)
  have ex: "ri_extract sample_run_inputs = (\<lambda>m ros. Inr empty_extraction)" by (simp add: sample_run_inputs_def)
  have c: "cj_run_id dead_reply_claim = Some 9" "cj_email_id dead_reply_claim = Some 21" "1 < cj_attempts dead_reply_claim"
    by (simp_all add: dead_reply_claim_def)
  have out: "length (db_outbound dead_reply_db) = 1" "db_jobs dead_reply_db = []" by (simp_all add: dead_reply_db_def empty_db_def)
  from reclaimed_reply_never_asks [OF d(1,2) st(1) c d(3) st(2) d(4) s _ d(5) ex g, of sample_settings] out
  show ?thesis by auto
qed

theorem run_pipeline_settles_witness: "settles 9 (run_pipeline ascii sample_settings sample_run_inputs 9 sample_db)"
  by (rule run_pipeline_settles [OF sample_db_facts(1,3)]) (simp add: sample_run_def)

theorem resume_pipeline_settles_witness:
  "settles 9 (resume_pipeline ascii sample_settings sample_run_inputs 9 (Some late_mail) AWAITING_REPLY None reply_db)"
proof -
  have ok: "db_ok reply_db" "load_run 9 reply_db = Some (sample_run\<lparr>status := AWAITING_REPLY\<rparr>)"
    by (simp_all add: db_ok_def load_run_def reply_db_def late_db_def empty_db_def sample_run_def)
  from resume_pipeline_settles [OF ok, of AWAITING_REPLY ascii sample_settings sample_run_inputs "Some late_mail" None] show ?thesis by simp
qed

definition open_decision :: decision where
  "open_decision = \<lparr>final_action_of = RequestClarification, gate_reasons = [''Bob: unresolved (no roster match)''],
     unresolved_names = [''Bob''], missing_fields = [], resolutions = []\<rparr>"

theorem clarify_asks_or_escalates_witness:
  "\<exists>d'. clarify ascii sample_settings sample_round 9 late_mail open_decision sample_roster empty_extraction PurposeClarification sample_db = (Inr (), d')
    \<and> awaiting 9 1 0 d' \<and> map ob_state (db_outbound d') = [Reserved] \<and> db_jobs d' = db_jobs sample_db @ [send_row 0 63 9 61]"
proof -
  obtain q d' where c: "clarify ascii sample_settings sample_round 9 late_mail open_decision sample_roster empty_extraction PurposeClarification sample_db = (q, d')"
    by (cases "clarify ascii sample_settings sample_round 9 late_mail open_decision sample_roster empty_extraction PurposeClarification sample_db")
  have d: "outbox_ok sample_db" "db_outbound sample_db = []" "message_ids sample_db = []"
    by (simp_all add: outbox_ok_def message_ids_def sample_db_def empty_db_def)
  have key: "send_outbound_dedup_key (sl_email (rd_ids sample_round)) \<notin> dedup_key ` set (db_jobs sample_db)"
    by (simp add: send_outbound_dedup_key_def sample_db_def claim_row_def sample_job_def)
  have env: "envelope_ok (question sample_settings sample_round late_mail open_decision sample_roster)"
    by (simp add: envelope_ok_def question_def clarification_envelope_def sample_settings_def nonblank_def resolve_outbound_recipient_def late_mail_def py_strip_def py_rstrip_def)
  have r: "clarification_round sample_run = 0" "reply_epoch sample_run = 0" by (simp_all add: sample_run_def)
  show ?thesis using clarify_asks_or_escalates [OF d(1) sample_db_facts(3) key c] c d env r by (simp add: sample_round_def)
qed

end
