(* ===== verification/OperatorResume.thy ===== *)
theory OperatorResume
  imports Resume
begin

section \<open>Operator resolutions\<close>

text \<open>
  \<open>app/db/repo/operator_resume_resolutions.py\<close>, the operator retry of \<open>job_settlement.py\<close> and
  \<open>app/queue/handlers/operator_resume.py\<close>: an operator maps the open names of a run to employees.
  The first committed mapping of a run is its authority, later ones are kept and superseded.
  The writer fence of the deployment is open. An employee id comes as text and is kept as a UUID.
\<close>

subsection \<open>Normalising a submission\<close>

fun normalize_overrides_aux :: "string list \<Rightarrow> (string \<times> string) list \<Rightarrow> (string \<times> uuid) list res" where
  "normalize_overrides_aux seen [] = Inr []"
| "normalize_overrides_aux seen ((n, e) # ps) =
     (if py_strip n = [] \<or> n \<in> set seen then Inl ValueError
      else (case uuid_parse e of
              None \<Rightarrow> Inl ValueError
            | Some i \<Rightarrow> bind_res (normalize_overrides_aux (n # seen) ps) (\<lambda>rest. Inr ((n, i) # rest))))"

definition normalize_overrides :: "(string \<times> string) list \<Rightarrow> (string \<times> uuid) list res" where
  "normalize_overrides ps = (if ps = [] then Inl ValueError else normalize_overrides_aux [] ps)"

definition normalize_remember :: "(string \<times> bool) list \<Rightarrow> string list \<Rightarrow> (string \<times> bool) list res" where
  "normalize_remember ps names =
     guard_res (list_all (\<lambda>(n, b). py_strip n \<noteq> []) ps \<and> distinct (map fst ps) \<and> set (map fst ps) = set names) ValueError ps"

definition operator_resume_dedup_key :: "uuid \<Rightarrow> uuid \<Rightarrow> string" where
  "operator_resume_dedup_key run resolution = ''operator_resume:'' @ uuid_str run @ '':'' @ uuid_str resolution"

text \<open>The mapping with the choice to remember, by name.\<close>

definition choices :: "(string \<times> uuid) list \<Rightarrow> (string \<times> bool) list \<Rightarrow> (string \<times> uuid \<times> bool) list" where
  "choices overrides remember = map (\<lambda>(n, i). (n, i, map_of remember n = Some True)) overrides"

subsection \<open>A stored generation\<close>

record submission =
  sb_id :: uuid
  sb_authoritative :: bool
  sb_winner :: uuid

definition generation_rows :: "uuid \<Rightarrow> db \<Rightarrow> resolution option" where
  "generation_rows i d = first_match (\<lambda>rs. rs_id rs = i) (db_resolutions d)"

definition names_ok :: "(string \<times> uuid \<times> bool) list \<Rightarrow> bool" where
  "names_ok ms \<longleftrightarrow> ms \<noteq> [] \<and> list_all (\<lambda>(n, c). py_strip n \<noteq> []) ms \<and> distinct (map fst ms)"

definition stored_generation :: "resolution option \<Rightarrow> (resolution \<times> uuid) res" where
  "stored_generation found =
     (case found of
        None \<Rightarrow> Inl ValueError
      | Some rs \<Rightarrow>
          if \<not> names_ok (rs_mapping rs) then Inl ValueError
          else if rs_authoritative rs then guard_res (rs_superseded rs = None) ValueError (rs, rs_id rs)
          else (case rs_superseded rs of
                  None \<Rightarrow> Inl ValueError
                | Some w \<Rightarrow> guard_res (w \<noteq> rs_id rs) ValueError (rs, w)))"

definition submission_of :: "resolution \<times> uuid \<Rightarrow> submission" where
  "submission_of g = \<lparr>sb_id = rs_id (fst g), sb_authoritative = rs_authoritative (fst g), sb_winner = snd g\<rparr>"

definition locked_run :: "uuid \<Rightarrow> db \<Rightarrow> (payroll_run \<times> decision) res" where
  "locked_run run d =
     (case load_run run d of
        None \<Rightarrow> Inl ValueError
      | Some r \<Rightarrow> (case decision_data r of None \<Rightarrow> Inl ValueError | Some dec \<Rightarrow> Inr (r, dec)))"

text \<open>A complete mapping of the open names onto employees of the run's own business.\<close>

definition validate_generation_for_run :: "uuid \<Rightarrow> (string \<times> uuid \<times> bool) list \<Rightarrow> payroll_run \<Rightarrow> decision \<Rightarrow> db \<Rightarrow> unit res" where
  "validate_generation_for_run grun ms r dec d =
     (let open_names = unresolved_names dec; staff = map emp_id (filter (\<lambda>e. emp_business e = business_id r) (db_staff d))
      in guard_res (open_names \<noteq> [] \<and> distinct open_names \<and> grun = run_id r \<and> set (map fst ms) = set open_names
           \<and> set (map (fst \<circ> snd) ms) \<subseteq> set staff) ValueError ())"

subsection \<open>Committing\<close>

definition winner_of :: "uuid \<Rightarrow> db \<Rightarrow> uuid option" where
  "winner_of run d = map_option rs_id (first_match (\<lambda>rs. rs_run rs = run \<and> rs_authoritative rs) (db_resolutions d))"

definition commit_operator_resume_resolution ::
  "uuid \<Rightarrow> uuid \<Rightarrow> (string \<times> string) list \<Rightarrow> (string \<times> bool) list \<Rightarrow> db \<Rightarrow> (submission \<times> db) res" where
  "commit_operator_resume_resolution run i overrides remember d =
     bind_res (normalize_overrides overrides) (\<lambda>ovs.
     bind_res (normalize_remember remember (map fst ovs)) (\<lambda>rem.
     bind_res (locked_run run d) (\<lambda>(r, dec).
       (let ms = choices ovs rem
        in case generation_rows i d of
             Some rs \<Rightarrow>
               bind_res (stored_generation (Some rs)) (\<lambda>g.
                 guard_res (rs_run rs = run \<and> set (rs_mapping rs) = set ms) ValueError (submission_of g, d))
           | None \<Rightarrow>
               if status r \<noteq> NEEDS_OPERATOR then Inl ValueError
               else bind_res (validate_generation_for_run run ms r dec d) (\<lambda>_.
                 (let w = winner_of run d;
                      rs = \<lparr>rs_id = i, rs_run = run, rs_authoritative = (w = None), rs_superseded = w, rs_mapping = sort_key fst ms\<rparr>
                  in Inr (\<lparr>sb_id = i, sb_authoritative = (w = None), sb_winner = (case w of None \<Rightarrow> i | Some v \<Rightarrow> v)\<rparr>,
                          d\<lparr>db_resolutions := db_resolutions d @ [rs]\<rparr>)))))))"

text \<open>Preparing the winner: the remembered names become bound candidates of the run.\<close>

definition remembered :: "(string \<times> uuid \<times> bool) list \<Rightarrow> (string, candidate_value) dict" where
  "remembered ms = map (\<lambda>(n, i, b). (n, CandDict (Some (uuid_str i)) (Some (uuid_str i)))) (filter (\<lambda>(n, i, b). b) ms)"

definition prepare_authoritative_operator_resume :: "uuid \<Rightarrow> uuid \<Rightarrow> db \<Rightarrow> (submission \<times> db) res" where
  "prepare_authoritative_operator_resume run i d =
     bind_res (locked_run run d) (\<lambda>(r, dec).
     bind_res (stored_generation (generation_rows i d)) (\<lambda>g.
     bind_res (validate_generation_for_run (rs_run (fst g)) (rs_mapping (fst g)) r dec d) (\<lambda>_.
       (let cs = remembered (rs_mapping (fst g))
        in Inr (submission_of g,
             if \<not> rs_authoritative (fst g) \<or> cs = [] then d else update_run run (set_alias_candidates cs) d)))))"

definition create_operator_resume_resolution :: "uuid \<Rightarrow> uuid \<Rightarrow> (string \<times> string) list \<Rightarrow> db \<Rightarrow> db res" where
  "create_operator_resume_resolution run i overrides d =
     bind_res (normalize_overrides overrides) (\<lambda>ovs.
       (case generation_rows i d of
          None \<Rightarrow> Inr (d\<lparr>db_resolutions := db_resolutions d @
             [\<lparr>rs_id = i, rs_run = run, rs_authoritative = False, rs_superseded = None,
               rs_mapping = sort_key fst (map (\<lambda>(n, e). (n, e, False)) ovs)\<rparr>]\<rparr>)
        | Some rs \<Rightarrow>
            guard_res (rs_run rs = run \<and> names_ok (rs_mapping rs)
              \<and> set (map (\<lambda>(n, e, b). (n, e)) (rs_mapping rs)) = set ovs) ValueError d))"

definition load_operator_resume_resolution :: "uuid \<Rightarrow> uuid \<Rightarrow> db \<Rightarrow> (string, string) dict res" where
  "load_operator_resume_resolution run i d =
     (case generation_rows i d of
        None \<Rightarrow> Inl ValueError
      | Some rs \<Rightarrow> guard_res (rs_run rs = run \<and> names_ok (rs_mapping rs)) ValueError
                    (map (\<lambda>(n, e, b). (n, uuid_str e)) (rs_mapping rs)))"

subsection \<open>The operator retry\<close>

definition enqueue_operator_resume_retry ::
  "instant \<Rightarrow> int \<Rightarrow> uuid \<Rightarrow> uuid \<Rightarrow> uuid \<Rightarrow> pipeline_result \<Rightarrow> delay_arg \<Rightarrow> db \<Rightarrow> (settlement \<times> db) res" where
  "enqueue_operator_resume_retry now cfg new_id run resolution result delay d =
     (if outcome result \<noteq> Retryable then Inl ValueError
      else (case load_operator_resume_resolution run resolution d of
              Inl e \<Rightarrow> Inr (SettledFenced, d)
            | Inr ovs \<Rightarrow>
                (case run_generation run d of
                   None \<Rightarrow> Inr (SettledFenced, d)
                 | Some (st, epoch) \<Rightarrow>
                     rewind_and_enqueue now cfg new_id
                       (retry_request OperatorResume (operator_resume_dedup_key run resolution) run None (Some resolution) delay result)
                       run st d)))"

subsection \<open>The operator handler\<close>

definition invalid_context :: pipeline_result where
  "invalid_context = default_result\<lparr>stage := StageLoad, reason := InvalidOperatorOverrideContext\<rparr>"

definition handle_operator_resume ::
  "(uuid \<Rightarrow> (string, string) dict \<Rightarrow> db \<Rightarrow> pipeline_result \<times> db) \<Rightarrow> claim \<Rightarrow> db \<Rightarrow> pipeline_result res \<times> db" where
  "handle_operator_resume resume c d =
     (case (cj_run_id c, cj_resolution_id c) of
        (Some run, Some resolution) \<Rightarrow>
          (case prepare_authoritative_operator_resume run resolution d of
             Inl e \<Rightarrow> (Inr invalid_context, d)
           | Inr (sub, d1) \<Rightarrow>
               if \<not> sb_authoritative sub then (Inr bounded_noop, d1)
               else (case (load_operator_resume_resolution run resolution d1, load_run run d1) of
                       (Inr ovs, Some r) \<Rightarrow>
                         (let go = (\<lambda>d'. (let (res, d'') = resume run ovs d' in (Inr res, d'')))
                          in if status r = NEEDS_OPERATOR
                             then (case cas_run run NEEDS_OPERATOR (set_status RECEIVED) d1 of
                                     (True, d2) \<Rightarrow> go d2 | (False, d2) \<Rightarrow> (Inr bounded_noop, d1))
                             else if 1 < cj_attempts c \<and> status r = RECEIVED then go d1
                             else if 1 < cj_attempts c \<and> status r \<in> {EXTRACTING, COMPUTED, SENT}
                             then go (update_run run (\<lambda>r. snd (rewind_for_reclaim r)) d1)
                             else (Inr bounded_noop, d1))
                     | _ \<Rightarrow> (Inr invalid_context, d1)))
      | _ \<Rightarrow> (Inl ValueError, d))"

subsection \<open>One authority per run\<close>

definition resolutions_ok :: "db \<Rightarrow> bool" where
  "resolutions_ok d \<longleftrightarrow> distinct (map rs_id (db_resolutions d))
     \<and> distinct (map rs_run (filter rs_authoritative (db_resolutions d)))
     \<and> (\<forall>rs \<in> set (db_resolutions d). rs_authoritative rs \<longrightarrow> rs_superseded rs = None)
     \<and> (\<forall>rs \<in> set (db_resolutions d). \<not> rs_authoritative rs \<longrightarrow>
          (case rs_superseded rs of None \<Rightarrow> True | Some w \<Rightarrow> winner_of (rs_run rs) d = Some w))"

lemma winner_Some: "winner_of run d = Some w \<Longrightarrow> \<exists>rs \<in> set (db_resolutions d). rs_run rs = run \<and> rs_authoritative rs \<and> rs_id rs = w"
  unfolding winner_of_def by (auto dest: first_match_SomeD)

lemma winner_None: "winner_of run d = None \<longleftrightarrow> (\<forall>rs \<in> set (db_resolutions d). \<not> (rs_run rs = run \<and> rs_authoritative rs))"
  by (simp add: winner_of_def first_match_None)

lemma winner_append:
  "winner_of run (d\<lparr>db_resolutions := db_resolutions d @ [rs]\<rparr>) =
     (case winner_of run d of Some w \<Rightarrow> Some w | None \<Rightarrow> if rs_run rs = run \<and> rs_authoritative rs then Some (rs_id rs) else None)"
  by (simp add: winner_of_def find_append split: option.split)

lemma generation_None: "generation_rows i d = None \<longleftrightarrow> i \<notin> rs_id ` set (db_resolutions d)"
  by (auto simp: generation_rows_def first_match_None)

text \<open>A successful commit: an old generation read back, or a new row in a run that waits for an operator.\<close>

lemma commit_cases [consumes 1, case_names again new]:
  assumes "commit_operator_resume_resolution run i overrides remember d = Inr (sub, d')"
  obtains rs w where "generation_rows i d = Some rs" "d' = d" "rs_run rs = run" "stored_generation (Some rs) = Inr (rs, w)"
      "sub = submission_of (rs, w)"
  | r dec ms where "generation_rows i d = None" "load_run run d = Some r" "decision_data r = Some dec" "status r = NEEDS_OPERATOR"
      "validate_generation_for_run run ms r dec d = Inr ()"
      "sub = \<lparr>sb_id = i, sb_authoritative = (winner_of run d = None), sb_winner = (case winner_of run d of None \<Rightarrow> i | Some v \<Rightarrow> v)\<rparr>"
      "d' = d\<lparr>db_resolutions := db_resolutions d @ [\<lparr>rs_id = i, rs_run = run, rs_authoritative = (winner_of run d = None),
         rs_superseded = winner_of run d, rs_mapping = sort_key fst ms\<rparr>]\<rparr>"
proof -
  obtain ovs rem r dec where n: "normalize_overrides overrides = Inr ovs" "normalize_remember remember (map fst ovs) = Inr rem"
    "locked_run run d = Inr (r, dec)"
    using assms by (auto simp: commit_operator_resume_resolution_def res_simps split: option.splits)
  have l: "load_run run d = Some r" "decision_data r = Some dec" using n(3) by (auto simp: locked_run_def split: option.splits)
  note body = assms [unfolded commit_operator_resume_resolution_def n bind_res.simps prod.case Let_def]
  show thesis
  proof (cases "generation_rows i d")
    case (Some rs)
    then obtain g where g: "stored_generation (Some rs) = Inr g" "rs_run rs = run" "sub = submission_of g" "d' = d"
      using body by (auto simp: res_simps)
    moreover have "fst g = rs" using g(1) by (auto simp: stored_generation_def split: if_splits option.splits)
    ultimately show thesis using that(1) [OF Some, of "snd g"] by (cases g) auto
  next
    case None
    then show thesis using that(2) [OF None l] body by (auto simp: res_simps split: if_splits)
  qed
qed

text \<open>A stored authority is the winner of its run, and a stored loser names that winner.\<close>

lemma stored_winner:
  assumes "resolutions_ok d" "rs \<in> set (db_resolutions d)" "stored_generation (Some rs) = Inr (rs, w)"
  shows "winner_of (rs_run rs) d = Some w \<and> (rs_authoritative rs \<longleftrightarrow> w = rs_id rs)"
proof (cases "rs_authoritative rs")
  case True
  have "winner_of (rs_run rs) d \<noteq> None" unfolding winner_None using assms(2) True by blast
  then obtain v where v: "winner_of (rs_run rs) d = Some v" by blast
  obtain rs' where rs': "rs' \<in> set (db_resolutions d)" "rs_run rs' = rs_run rs" "rs_authoritative rs'" "rs_id rs' = v"
    using winner_Some [OF v] by blast
  have "rs' = rs"
    by (rule distinct_key [of rs_run "filter rs_authoritative (db_resolutions d)"])
      (use assms(1,2) rs' True in \<open>auto simp: resolutions_ok_def\<close>)
  with v rs' True assms(3) show ?thesis by (auto simp: stored_generation_def split: if_splits)
next
  case False
  then have "rs_superseded rs = Some w" "w \<noteq> rs_id rs" using assms(3) by (auto simp: stored_generation_def split: if_splits option.splits)
  with assms(1,2) False show ?thesis by (auto simp: resolutions_ok_def split: option.splits)
qed

lemma resolutions_ok_append:
  assumes "resolutions_ok d" "rs_id rs \<notin> rs_id ` set (db_resolutions d)" "db_resolutions d' = db_resolutions d @ [rs]"
    "rs_authoritative rs = (winner_of (rs_run rs) d = None)" "rs_superseded rs = winner_of (rs_run rs) d"
  shows "resolutions_ok d'"
proof -
  have others: "winner_of run d' = Some w" if "winner_of run d = Some w" for run w
    using that assms(3) by (auto simp: winner_of_def find_append)
  have 1: "distinct (map rs_id (db_resolutions d'))" using assms(1-3) by (simp add: resolutions_ok_def)
  have 3: "\<forall>x \<in> set (db_resolutions d'). rs_authoritative x \<longrightarrow> rs_superseded x = None"
    using assms(1,3,4,5) by (auto simp: resolutions_ok_def)
  have 2: "distinct (map rs_run (filter rs_authoritative (db_resolutions d')))"
  proof (cases "winner_of (rs_run rs) d")
    case None
    then have "rs_run rs \<notin> rs_run ` set (filter rs_authoritative (db_resolutions d))" by (auto simp: winner_None)
    then show ?thesis using assms(1,3,4) None by (auto simp: resolutions_ok_def)
  qed (use assms(1,3,4) in \<open>simp add: resolutions_ok_def\<close>)
  have 4: "case rs_superseded x of None \<Rightarrow> True | Some w \<Rightarrow> winner_of (rs_run x) d' = Some w"
    if x: "x \<in> set (db_resolutions d')" "\<not> rs_authoritative x" for x
  proof (cases "x = rs")
    case True
    then show ?thesis using others assms(5) by (simp split: option.split)
  next
    case False
    then have "x \<in> set (db_resolutions d)" using x(1) assms(3) by simp
    then have "winner_of (rs_run x) d = Some w" if "rs_superseded x = Some w" for w
      using assms(1) x(2) that by (auto simp: resolutions_ok_def split: option.splits)
    then show ?thesis using others by (simp split: option.split)
  qed
  show ?thesis unfolding resolutions_ok_def using 1 2 3 4 by blast
qed

text \<open>C14. One authority per run, for ever: committing keeps the table in order, never moves an authority
  that is there, and a submission is authoritative exactly when it is the winner; so the first
  committed mapping of a run is its authority and every later one is superseded by it.\<close>

theorem first_resolution_is_the_authority:
  assumes "resolutions_ok d" "commit_operator_resume_resolution run i overrides remember d = Inr (sub, d')"
  shows "resolutions_ok d' \<and> winner_of run d' = Some (sb_winner sub) \<and> (sb_authoritative sub \<longleftrightarrow> sb_winner sub = i)
    \<and> (\<forall>w. winner_of run d = Some w \<longrightarrow> sb_winner sub = w)"
  using assms(2)
proof (cases rule: commit_cases)
  case (again rs w)
  have "rs \<in> set (db_resolutions d)" "rs_id rs = i" using again(1) by (auto simp: generation_rows_def dest: first_match_SomeD)
  with stored_winner [OF assms(1) this(1) again(4)] again(2,3,5) assms(1) show ?thesis by (auto simp: submission_of_def)
next
  case (new r dec ms)
  have id: "i \<notin> rs_id ` set (db_resolutions d)" using new(1) unfolding generation_None .
  let ?rs = "\<lparr>rs_id = i, rs_run = run, rs_authoritative = (winner_of run d = None), rs_superseded = winner_of run d, rs_mapping = sort_key fst ms\<rparr>"
  have win: "winner_of run d' = Some (sb_winner sub)" using new(6,7) winner_append [of run d ?rs] by (simp split: option.splits)
  have "resolutions_ok d'" by (rule resolutions_ok_append [OF assms(1), of ?rs]) (simp_all add: id new(7))
  moreover have "w \<noteq> i" if "winner_of run d = Some w" for w using winner_Some [OF that] id by auto
  ultimately show ?thesis using win new(6) by (auto split: option.splits)
qed

subsection \<open>Superseded and reclaimed resolutions\<close>

lemma prepare_rows:
  assumes "prepare_authoritative_operator_resume run i d = Inr (sub, d1)" "generation_rows i d = Some rs"
  shows "sb_authoritative sub = rs_authoritative rs \<and> (\<exists>r. load_run run d = Some r) \<and> names_ok (rs_mapping rs) \<and> rs_run rs = run
    \<and> d1 = (if \<not> rs_authoritative rs \<or> remembered (rs_mapping rs) = [] then d
            else update_run run (set_alias_candidates (remembered (rs_mapping rs))) d)"
proof -
  obtain r dec g where l: "locked_run run d = Inr (r, dec)" and g: "stored_generation (Some rs) = Inr g"
    and v: "validate_generation_for_run (rs_run (fst g)) (rs_mapping (fst g)) r dec d = Inr ()"
    and out: "sub = submission_of g" "d1 = (if \<not> rs_authoritative (fst g) \<or> remembered (rs_mapping (fst g)) = [] then d
            else update_run run (set_alias_candidates (remembered (rs_mapping (fst g)))) d)"
    using assms by (auto simp: prepare_authoritative_operator_resume_def Let_def res_simps)
  have "fst g = rs" "names_ok (rs_mapping rs)" using g by (auto simp: stored_generation_def split: if_splits option.splits)
  moreover have "load_run run d = Some r" using l by (auto simp: locked_run_def split: option.splits)
  moreover from load_run_Some [OF this] have "run_id r = run" by simp
  ultimately show ?thesis using v out by (auto simp: submission_of_def validate_generation_for_run_def Let_def)
qed

text \<open>An operator can resolve a run once in its life: when a run has an authority, every later submission is
  superseded, also after a retrigger has asked for new names, and its job does nothing in whatever
  state the run is then.\<close>

theorem later_resolution_is_never_applied:
  assumes "resolutions_ok d" "winner_of run d = Some w" "generation_rows i d = None"
    "commit_operator_resume_resolution run i overrides remember d = Inr (sub, d')"
    "cj_run_id c = Some run" "cj_resolution_id c = Some i" "db_resolutions e = db_resolutions d'"
  shows "\<not> sb_authoritative sub \<and> (\<exists>res. handle_operator_resume resume c e = (Inr res, e) \<and> outcome res \<noteq> Retryable)"
  using assms(4)
proof (cases rule: commit_cases)
  case (again rs w')
  with assms(3) show ?thesis by simp
next
  case (new r dec ms)
  let ?rs = "\<lparr>rs_id = i, rs_run = run, rs_authoritative = False, rs_superseded = Some w, rs_mapping = sort_key fst ms\<rparr>"
  have none: "first_match (\<lambda>rs. rs_id rs = i) (db_resolutions d) = None" using assms(3) by (simp add: generation_rows_def)
  have row: "generation_rows i e = Some ?rs"
    using none new(7) assms(2,7) by (simp add: generation_rows_def find_append)
  have "handle_operator_resume resume c e = (Inr invalid_context, e) \<or> handle_operator_resume resume c e = (Inr bounded_noop, e)"
  proof (cases "prepare_authoritative_operator_resume run i e")
    case (Inl err)
    then show ?thesis using assms(5,6) by (simp add: handle_operator_resume_def)
  next
    case (Inr q)
    obtain s d1 where q: "q = (s, d1)" by (cases q)
    from prepare_rows [OF Inr [unfolded q] row] have "\<not> sb_authoritative s" "d1 = e" by simp_all
    then show ?thesis using Inr q assms(5,6) by (simp add: handle_operator_resume_def)
  qed
  then show ?thesis using new(6) assms(2) by (auto simp: invalid_context_def bounded_noop_def default_result_def)
qed

text \<open>A reclaimed operator resume forgets what the operator asked to remember: the first attempt hands
  the body a run whose candidates carry every remembered name, bound; the attempt after a crash
  rewinds the run after preparing it and hands over a run with no candidates, so nothing is learned.\<close>

theorem reclaimed_operator_resume_forgets:
  assumes "db_ok d" "load_run run d = Some r" "cj_run_id c = Some run" "cj_resolution_id c = Some i"
    "prepare_authoritative_operator_resume run i d = Inr (sub, d1)" "generation_rows i d = Some rs" "rs_authoritative rs"
    "(n, e, True) \<in> set (rs_mapping rs)"
  shows "(status r = NEEDS_OPERATOR \<longrightarrow> (\<exists>ovs d2 r2 cs. handle_operator_resume resume c d = (let (res, d3) = resume run ovs d2 in (Inr res, d3))
        \<and> load_run run d2 = Some r2 \<and> alias_candidates r2 = Some cs \<and> map_of cs n = Some (CandDict (Some (uuid_str e)) (Some (uuid_str e)))))
    \<and> (status r = EXTRACTING \<and> 1 < cj_attempts c \<longrightarrow> (\<exists>ovs d2 r2. handle_operator_resume resume c d = (let (res, d3) = resume run ovs d2 in (Inr res, d3))
        \<and> load_run run d2 = Some r2 \<and> alias_candidates r2 = None))"
proof -
  note p = prepare_rows [OF assms(5,6)]
  let ?cs = "remembered (rs_mapping rs)" and ?r = "set_alias_candidates (remembered (rs_mapping rs)) r"
  have mem: "(n, CandDict (Some (uuid_str e)) (Some (uuid_str e))) \<in> set ?cs" using assms(8) by (force simp: remembered_def)
  have d1: "d1 = update_run run (set_alias_candidates ?cs) d" using p assms(7) mem by auto
  have r1: "load_run run d1 = Some ?r" unfolding d1 by (rule load_run_update_same) (simp_all add: assms(2))
  have ok: "db_ok d1" unfolding d1 by (rule db_ok_update_run [OF assms(1)]) simp
  have "generation_rows i d1 = Some rs" using assms(6) d1 by (simp add: generation_rows_def)
  then obtain ovs where ovs: "load_operator_resume_resolution run i d1 = Inr ovs"
    using p by (simp add: load_operator_resume_resolution_def)
  note start = assms(3-5) p assms(7) ovs r1
  have "distinct (map fst (rs_mapping rs))" using p by (simp add: names_ok_def)
  then have dist: "distinct (map fst ?cs)"
    unfolding remembered_def by (induction "rs_mapping rs") (force simp: distinct_map inj_on_def)+
  have look: "map_of (case alias_candidates ?r of None \<Rightarrow> [] | Some cs \<Rightarrow> cs) n = Some (CandDict (Some (uuid_str e)) (Some (uuid_str e)))"
    using mem dist by (simp add: set_alias_candidates_def map_of_fold_update map_add_Some_iff rev_map [symmetric])
  have first: "\<exists>ovs d2 r2 cs. handle_operator_resume resume c d = (let (res, d3) = resume run ovs d2 in (Inr res, d3))
      \<and> load_run run d2 = Some r2 \<and> alias_candidates r2 = Some cs \<and> map_of cs n = Some (CandDict (Some (uuid_str e)) (Some (uuid_str e)))"
    if st: "status r = NEEDS_OPERATOR"
  proof -
    have st1: "status ?r = NEEDS_OPERATOR" using st by simp
    obtain d2 where claim: "cas_run run NEEDS_OPERATOR (set_status RECEIVED) d1 = (True, d2)"
      using cas_run_claimed [OF ok r1 st1] by blast
    then have "d2 = snd (cas_run run NEEDS_OPERATOR (set_status RECEIVED) d1)" by simp
    then have "load_run run d2 = Some (set_status RECEIVED ?r)"
      using load_run_cas [OF r1, of "set_status RECEIVED" NEEDS_OPERATOR] st1 by (simp add: set_status_def)
    moreover have "handle_operator_resume resume c d = (let (res, d3) = resume run ovs d2 in (Inr res, d3))"
      using start st1 claim by (simp add: handle_operator_resume_def)
    moreover have "alias_candidates (set_status RECEIVED ?r) = Some (case alias_candidates ?r of None \<Rightarrow> [] | Some cs \<Rightarrow> cs)"
      by (simp add: set_status_def set_alias_candidates_def)
    ultimately show ?thesis using look by blast
  qed
  have again: "\<exists>ovs d2 r2. handle_operator_resume resume c d = (let (res, d3) = resume run ovs d2 in (Inr res, d3))
      \<and> load_run run d2 = Some r2 \<and> alias_candidates r2 = None"
    if st: "status r = EXTRACTING" "1 < cj_attempts c"
  proof -
    let ?d2 = "update_run run (\<lambda>r. snd (rewind_for_reclaim r)) d1"
    have st1: "status ?r = EXTRACTING" using st by simp
    have "load_run run ?d2 = Some (snd (rewind_for_reclaim ?r))" by (rule load_run_update_same) (simp_all add: r1)
    moreover have "alias_candidates (snd (rewind_for_reclaim ?r)) = None"
      using st1 by (simp add: rewind_for_reclaim_def clear_reply_columns_def)
    moreover have "handle_operator_resume resume c d = (let (res, d3) = resume run ovs ?d2 in (Inr res, d3))"
      using start st1 st(2) by (simp add: handle_operator_resume_def)
    ultimately show ?thesis by blast
  qed
  show ?thesis using first again by blast
qed

subsection \<open>A run that waits for an operator\<close>

definition stuck_run :: payroll_run where
  "stuck_run = sample_run\<lparr>status := NEEDS_OPERATOR, decision_data := Some open_decision, clarification_round := 3\<rparr>"

definition stuck_db :: db where
  "stuck_db = empty_db\<lparr>db_runs := [stuck_run], db_staff := [sample_employee]\<rparr>"

definition bob_is :: "uuid \<Rightarrow> bool \<Rightarrow> resolution" where
  "bob_is i authority = \<lparr>rs_id = i, rs_run = 9, rs_authoritative = authority, rs_superseded = (if authority then None else Some 70),
     rs_mapping = [(''Bob'', 1, True)]\<rparr>"

definition resolved_db :: db where
  "resolved_db = stuck_db\<lparr>db_resolutions := [bob_is 70 True]\<rparr>"

lemma bob_normal: "normalize_overrides [(''Bob'', uuid_str 1)] = Inr [(''Bob'', 1)]" "normalize_remember [(''Bob'', True)] [''Bob''] = Inr [(''Bob'', True)]"
  by (simp_all add: normalize_overrides_def normalize_remember_def py_strip_def py_rstrip_def py_space_def)

lemma commit_stuck:
  assumes "load_run 9 d = Some stuck_run" "db_staff d = [sample_employee]" "generation_rows i d = None"
  shows "commit_operator_resume_resolution 9 i [(''Bob'', uuid_str 1)] [(''Bob'', True)] d =
    Inr (\<lparr>sb_id = i, sb_authoritative = (winner_of 9 d = None), sb_winner = (case winner_of 9 d of None \<Rightarrow> i | Some v \<Rightarrow> v)\<rparr>,
      d\<lparr>db_resolutions := db_resolutions d @ [\<lparr>rs_id = i, rs_run = 9, rs_authoritative = (winner_of 9 d = None),
         rs_superseded = winner_of 9 d, rs_mapping = [(''Bob'', 1, True)]\<rparr>]\<rparr>)"
  using assms by (simp add: commit_operator_resume_resolution_def bob_normal locked_run_def stuck_run_def open_decision_def sample_run_def
      validate_generation_for_run_def sample_employee_def choices_def Let_def)

lemma resolved_db_facts:
  "load_run 9 resolved_db = Some stuck_run" "db_staff resolved_db = [sample_employee]" "generation_rows 71 resolved_db = None"
  "resolutions_ok resolved_db" "winner_of 9 resolved_db = Some 70" "db_ok resolved_db" "generation_rows 70 resolved_db = Some (bob_is 70 True)"
  by (simp_all add: load_run_def resolved_db_def stuck_db_def empty_db_def stuck_run_def sample_run_def generation_rows_def resolutions_ok_def
      winner_of_def bob_is_def db_ok_def)

theorem first_resolution_is_the_authority_witness:
  "\<exists>sub d'. commit_operator_resume_resolution 9 71 [(''Bob'', uuid_str 1)] [(''Bob'', True)] resolved_db = Inr (sub, d')
    \<and> resolutions_ok d' \<and> sb_winner sub = 70"
  using first_resolution_is_the_authority [OF resolved_db_facts(4) commit_stuck [OF resolved_db_facts(1-3)]]
    commit_stuck [OF resolved_db_facts(1-3)] resolved_db_facts(5) by auto

definition second_claim :: "uuid \<Rightarrow> int \<Rightarrow> claim" where
  "second_claim i tries = \<lparr>cj_id = 31, cj_kind = OperatorResume, cj_run_id = Some 9, cj_email_id = None, cj_resolution_id = Some i,
     cj_event_id = None, cj_attempts = tries, cj_max_attempts = 3, cj_token = 77\<rparr>"

theorem later_resolution_is_never_applied_witness:
  "\<exists>sub d'. commit_operator_resume_resolution 9 71 [(''Bob'', uuid_str 1)] [(''Bob'', True)] resolved_db = Inr (sub, d')
    \<and> \<not> sb_authoritative sub \<and> snd (handle_operator_resume (\<lambda>run ovs d. (bounded_noop, empty_db)) (second_claim 71 1) d') = d'"
proof -
  have c: "cj_run_id (second_claim 71 1) = Some 9" "cj_resolution_id (second_claim 71 1) = Some 71" by (simp_all add: second_claim_def)
  from later_resolution_is_never_applied [OF resolved_db_facts(4,5,3) commit_stuck [OF resolved_db_facts(1-3)] c refl,
      of "\<lambda>run ovs d. (bounded_noop, empty_db)"] commit_stuck [OF resolved_db_facts(1-3)]
  show ?thesis by auto
qed

theorem reclaimed_operator_resume_forgets_witness:
  "\<exists>d2 r2. handle_operator_resume (\<lambda>run ovs d. (bounded_noop, d)) (second_claim 70 2)
      (resolved_db\<lparr>db_runs := [stuck_run\<lparr>status := EXTRACTING\<rparr>]\<rparr>) = (Inr bounded_noop, d2)
    \<and> load_run 9 d2 = Some r2 \<and> alias_candidates r2 = None"
proof -
  let ?d = "resolved_db\<lparr>db_runs := [stuck_run\<lparr>status := EXTRACTING\<rparr>]\<rparr>" and ?r = "stuck_run\<lparr>status := EXTRACTING\<rparr>"
  have d: "db_ok ?d" "load_run 9 ?d = Some ?r" "generation_rows 70 ?d = Some (bob_is 70 True)"
    using resolved_db_facts(6,7) by (simp_all add: db_ok_def load_run_def generation_rows_def stuck_run_def sample_run_def)
  have c: "cj_run_id (second_claim 70 2) = Some 9" "cj_resolution_id (second_claim 70 2) = Some 70" "1 < cj_attempts (second_claim 70 2)"
    by (simp_all add: second_claim_def)
  obtain sub d1 where p: "prepare_authoritative_operator_resume 9 70 ?d = Inr (sub, d1)"
    using d by (simp add: prepare_authoritative_operator_resume_def locked_run_def stuck_run_def stored_generation_def bob_is_def names_ok_def
        validate_generation_for_run_def open_decision_def sample_run_def resolved_db_def stuck_db_def sample_employee_def py_strip_def
        py_rstrip_def py_space_def Let_def)
  have b: "rs_authoritative (bob_is 70 True)" "(''Bob'', 1, True) \<in> set (rs_mapping (bob_is 70 True))" by (simp_all add: bob_is_def)
  from reclaimed_operator_resume_forgets [OF d(1,2) c(1,2) p d(3) b, of "\<lambda>run ovs d. (bounded_noop, d)"] c(3)
  show ?thesis by (auto simp: Let_def)
qed

end
