(* ===== verification/Confirmation.thy ===== *)
theory Confirmation
  imports Settlement Compose
begin

section \<open>The text of a confirmation\<close>

text \<open>
  The second half of \<open>app/pipeline/compose_email.py\<close>: the template, the subject, and the guard on a
  draft. The draft of the language model is an argument, \<open>None\<close> when the call failed or returned nothing.
  The three regular expressions match within one line of the draft, so they are predicates on lines; the draft
  is Latin-1 text, where ASCII letters are the only characters that match a letter of a pattern without regard to case.
\<close>

subsection \<open>Amounts\<close>

text \<open>\<open>f"{d:,.2f}"\<close>: half-even cents, the integer digits in groups of three.\<close>

definition format_cents :: "decimal \<Rightarrow> nat" where
  "format_cents d =
     nat (if -2 \<le> dexp d then \<bar>coef d\<bar> * 10 ^ nat (dexp d + 2)
          else half_even_div \<bar>coef d\<bar> (10 ^ nat (-2 - dexp d)))"

fun group_reversed :: "string \<Rightarrow> string" where
  "group_reversed (a # b # c # d # ds) = a # b # c # CHR '','' # group_reversed (d # ds)"
| "group_reversed ds = ds"

definition group_thousands :: "string \<Rightarrow> string" where
  "group_thousands s = rev (group_reversed (rev s))"

definition money_text :: "decimal \<Rightarrow> string" where
  "money_text d =
     (let n = format_cents d
      in (if coef d < 0 then ''-'' else []) @ group_thousands (nat_str (n div 100)) @ ''.''
         @ nat_str (n mod 100 div 10) @ nat_str (n mod 10))"

subsection \<open>The template and the subject\<close>

definition CONFIRMATION_CLOSING :: string where
  "CONFIRMATION_CLOSING = ''Please contact us if you have any questions.''"

definition net_pay_line :: "paystub \<Rightarrow> string" where
  "net_pay_line item = ''- '' @ stub_name item @ '': $'' @ money_text (net_pay item) @ '' net''"

definition confirmation_template_body :: "paystub list \<Rightarrow> string" where
  "confirmation_template_body stubs =
     py_join newline
       ([''Your payroll run has been reviewed and approved. Please find the paystub PDFs attached.'', []]
        @ map net_pay_line stubs @ [[], CONFIRMATION_CLOSING])"

text \<open>The name of the business and the period, added to the run before the mail is written.\<close>

definition enriched_confirmation_run :: "string option \<Rightarrow> string option \<Rightarrow> string option \<Rightarrow> string \<times> string" where
  "enriched_confirmation_run business start stop =
     ((case business of None \<Rightarrow> ''Payroll Run'' | Some b \<Rightarrow> if b = [] then ''Payroll Run'' else b),
      (case (start, stop) of (Some s, Some e) \<Rightarrow> s @ '' to '' @ e | (Some s, None) \<Rightarrow> s | (None, _) \<Rightarrow> []))"

definition confirmation_subject :: "string \<times> string \<Rightarrow> string option \<Rightarrow> string" where
  "confirmation_subject run original =
     (let standalone = ''Payroll Confirmation '' @ em_dash @ '' '' @ fst run @ '' '' @ em_dash @ '' '' @ snd run
      in case original of None \<Rightarrow> standalone | Some s \<Rightarrow> if s = [] then standalone else as_reply standalone s)"

subsection \<open>The guard on a draft\<close>

definition blank :: "char \<Rightarrow> bool" where
  "blank c \<longleftrightarrow> c = CHR 0x20 \<or> c = CHR 0x09"

definition text_lines :: "string \<Rightarrow> string list" where
  "text_lines s = split_on (\<lambda>c. c = CHR 0x0A) s"

text \<open>\<open>_SUBJECT_LINE_RE\<close>: a match is the whole line and its newline.\<close>

definition subject_line :: "string \<Rightarrow> bool" where
  "subject_line l \<longleftrightarrow>
     (let t = dropWhile blank l
      in map lower_char (take 7 t) = ''subject'' \<and> take 1 (dropWhile blank (drop 7 t)) = '':'')"

fun strip_subject_lines :: "string list \<Rightarrow> string" where
  "strip_subject_lines [] = []"
| "strip_subject_lines [l] = (if subject_line l then [] else l)"
| "strip_subject_lines (l # m # ls) = (if subject_line l then [] else l @ newline) @ strip_subject_lines (m # ls)"

text \<open>\<open>_SIGN_OFF_RE\<close>: a line that is one of the phrases, with at most one punctuation mark after it.\<close>

definition SIGN_OFFS :: "string list list" where
  "SIGN_OFFS =
     [[''best'', ''regards''], [''kind'', ''regards''], [''warm'', ''regards''], [''warmest'', ''regards''],
      [''regards''], [''sincerely''], [''sincerely'', ''yours''], [''yours'', ''truly''], [''yours'', ''sincerely''],
      [''thanks''], [''thanks'', ''again''], [''thank'', ''you''], [''many'', ''thanks''], [''cheers''], [''best''],
      [''respectfully'']]"

definition drop_mark :: "string \<Rightarrow> string" where
  "drop_mark l = (case rev l of [] \<Rightarrow> [] | c # r \<Rightarrow> if c \<in> {CHR '','', CHR ''.'', CHR ''!''} then rev r else l)"

definition sign_off_line :: "string \<Rightarrow> bool" where
  "sign_off_line l \<longleftrightarrow>
     (let t = drop_mark (rev (dropWhile blank (rev (dropWhile blank l))))
      in filter (\<lambda>w. w \<noteq> []) (split_on blank (map lower_char t)) \<in> set SIGN_OFFS)"

fun before_sign_off :: "string list \<Rightarrow> string" where
  "before_sign_off [] = []"
| "before_sign_off (l # ls) =
     (if sign_off_line l then []
      else (case ls of [] \<Rightarrow> l | _ \<Rightarrow> l @ newline @ before_sign_off ls))"

definition strip_format_violations :: "string \<Rightarrow> string" where
  "strip_format_violations body =
     py_strip (before_sign_off (text_lines (strip_subject_lines (text_lines body))))"

text \<open>\<open>_BRACKET_PLACEHOLDER_RE\<close>; the first argument of the test is what follows an opening bracket.\<close>

definition bracket_closes :: "string \<Rightarrow> bool" where
  "bracket_closes s \<longleftrightarrow>
     (let inside = (\<lambda>c. c \<notin> {CHR ''['', CHR '']'', CHR 0x0A, CHR 0x0D}); n = length (takeWhile inside s)
      in 1 \<le> n \<and> n \<le> 80 \<and> take 1 (dropWhile inside s) = '']'')"

fun bracket_placeholder :: "string \<Rightarrow> bool" where
  "bracket_placeholder [] = False"
| "bracket_placeholder (c # s) = (c = CHR ''['' \<and> bracket_closes s \<or> bracket_placeholder s)"

definition compose_confirmation :: "string option \<Rightarrow> paystub list \<Rightarrow> string" where
  "compose_confirmation draft stubs =
     (case draft of
        None \<Rightarrow> confirmation_template_body stubs
      | Some body \<Rightarrow>
          if py_strip body = [] then confirmation_template_body stubs
          else (let stripped = strip_format_violations body
                in if stripped = [] then confirmation_template_body stubs
                   else if bracket_placeholder stripped then confirmation_template_body stubs
                   else if suffix CONFIRMATION_CLOSING stripped then stripped
                   else stripped @ newline @ newline @ CONFIRMATION_CLOSING))"

subsection \<open>Lines\<close>

lemma text_lines_id: "CHR 0x0A \<notin> set l \<Longrightarrow> text_lines l = [l]"
  unfolding text_lines_def by (rule split_on_id) auto

lemma text_lines_newline: "CHR 0x0A \<notin> set l \<Longrightarrow> text_lines (l @ newline @ s) = l # text_lines s"
  unfolding text_lines_def newline_def append_Cons append_Nil by (rule split_on_append_sep) auto

lemma text_lines_no_newline: "l \<in> set (text_lines s) \<Longrightarrow> CHR 0x0A \<notin> set l"
  unfolding text_lines_def by (blast dest: split_on_no_sep)

lemma text_lines_nonempty [simp]: "text_lines s \<noteq> []"
  by (simp add: text_lines_def)

lemma text_lines_Cons:
  "text_lines (c # s) = (if c = CHR 0x0A then [] # text_lines s else (c # hd (text_lines s)) # tl (text_lines s))"
  by (simp add: text_lines_def split: list.split)

lemma text_lines_chars: "l \<in> set (text_lines s) \<Longrightarrow> set l \<subseteq> set s"
proof (induction s arbitrary: l)
  case (Cons c s)
  obtain m ms where ms: "text_lines s = m # ms" by (cases "text_lines s") auto
  have "set k \<subseteq> set s" if "k \<in> set (m # ms)" for k using Cons.IH that ms by simp
  then show ?case using Cons.prems ms by (fastforce simp: text_lines_Cons split: if_splits)
qed (simp add: text_lines_def)

lemma text_lines_append:
  "text_lines (s @ t) = butlast (text_lines s) @ (last (text_lines s) @ hd (text_lines t)) # tl (text_lines t)"
proof (induction s)
  case (Cons c s)
  then show ?case by (cases "text_lines s") (auto simp: text_lines_Cons)
qed (simp add: text_lines_def)

lemma text_lines_rev: "text_lines (rev s) = map rev (rev (text_lines s))"
proof (induction s)
  case (Cons c s)
  obtain l ls where "text_lines s = l # ls" by (cases "text_lines s") auto
  with Cons show ?case by (simp add: text_lines_append text_lines_Cons [of c] text_lines_def [of "[]"] butlast_append)
qed (simp add: text_lines_def)

text \<open>Stripping trims the first and the last line that stay, when a text has no other space than blanks and newlines.\<close>

definition plain_spaces :: "string \<Rightarrow> bool" where
  "plain_spaces s \<longleftrightarrow> list_all (\<lambda>c. py_space c \<longrightarrow> blank c \<or> c = CHR 0x0A) s"

lemma lines_dropWhile:
  assumes "plain_spaces s" "\<forall>l \<in> set (text_lines s). P l" "\<And>b l. blank b \<Longrightarrow> P (b # l) \<Longrightarrow> P l"
  shows "\<forall>l \<in> set (text_lines (dropWhile py_space s)). P l"
  using assms(1,2)
proof (induction s)
  case (Cons c s)
  have "\<forall>l \<in> set (text_lines s). P l" if "py_space c"
  proof (cases "c = CHR 0x0A")
    case True
    then show ?thesis using Cons.prems(2) by (simp add: text_lines_Cons)
  next
    case False
    then have "blank c" using that Cons.prems(1) by (simp add: plain_spaces_def)
    then show ?thesis using False Cons.prems(2) assms(3) [of c]
      by (cases "text_lines s") (auto simp: text_lines_Cons)
  qed
  then show ?case using Cons by (auto simp: plain_spaces_def)
qed simp

lemma lines_py_strip:
  assumes "plain_spaces s" "\<forall>l \<in> set (text_lines s). P l"
    and front: "\<And>b l. blank b \<Longrightarrow> P (b # l) \<Longrightarrow> P l" and rear: "\<And>b l. blank b \<Longrightarrow> P (l @ [b]) \<Longrightarrow> P l"
  shows "\<forall>l \<in> set (text_lines (py_strip s)). P l"
proof -
  let ?t = "dropWhile py_space s"
  have "\<forall>l \<in> set (text_lines ?t). P l" by (rule lines_dropWhile [OF assms(1,2) front])
  then have "\<forall>l \<in> set (text_lines (rev ?t)). P (rev l)" by (simp add: text_lines_rev)
  moreover have "plain_spaces (rev ?t)"
    using assms(1) by (auto simp: plain_spaces_def list_all_iff dest: set_dropWhileD)
  ultimately have "\<forall>l \<in> set (text_lines (dropWhile py_space (rev ?t))). P (rev l)"
    by (intro lines_dropWhile) (use rear in auto)
  then show ?thesis by (simp add: py_strip_def py_rstrip_def text_lines_rev)
qed

subsection \<open>A draft that is sent is clean\<close>

definition clean_line :: "string \<Rightarrow> bool" where
  "clean_line l \<longleftrightarrow> \<not> subject_line l \<and> \<not> sign_off_line l"

lemma dropWhile_snoc: "dropWhile p (l @ x) = (if \<exists>c \<in> set l. \<not> p c then dropWhile p l @ x else dropWhile p x)"
  by (induction l) auto

lemma subject_line_append: "subject_line l \<Longrightarrow> subject_line (l @ x)"
proof -
  assume s: "subject_line l"
  define t where "t = dropWhile blank l"
  have t: "map lower_char (take 7 t) = ''subject''" "take 1 (dropWhile blank (drop 7 t)) = '':''"
    using s by (simp_all add: subject_line_def Let_def t_def)
  have "length (map lower_char (take 7 t)) = 7" by (subst t(1)) simp
  then have len: "7 \<le> length t" by simp
  have nil: "dropWhile blank (drop 7 t) \<noteq> []"
  proof
    assume "dropWhile blank (drop 7 t) = []"
    then show False using t(2) by (simp only: take_Nil) simp
  qed
  have "t \<noteq> []" using len by auto
  then have ne: "\<exists>c \<in> set l. \<not> blank c" unfolding t_def dropWhile_eq_Nil_conv by blast
  have "\<exists>c \<in> set (drop 7 t). \<not> blank c" using nil unfolding dropWhile_eq_Nil_conv by blast
  moreover have "drop 7 (t @ x) = drop 7 t @ x" using len by simp
  ultimately have "dropWhile blank (drop 7 (t @ x)) = dropWhile blank (drop 7 t) @ x" by (simp only: dropWhile_snoc if_True)
  then have "take 1 (dropWhile blank (drop 7 (t @ x))) = take 1 (dropWhile blank (drop 7 t))"
    using nil by (cases "dropWhile blank (drop 7 t)") simp_all
  moreover have "take 7 (t @ x) = take 7 t" "dropWhile blank (l @ x) = t @ x" using len ne by (simp_all add: dropWhile_snoc t_def)
  ultimately show ?thesis unfolding subject_line_def Let_def using t by (simp only:)
qed

lemma clean_line_front: "blank b \<Longrightarrow> clean_line (b # l) \<Longrightarrow> clean_line l"
  by (simp add: clean_line_def subject_line_def sign_off_line_def)

lemma clean_line_back:
  assumes "blank b" "clean_line (l @ [b])"
  shows "clean_line l"
proof -
  have "sign_off_line (l @ [b]) = sign_off_line l"
  proof (cases "\<exists>c \<in> set l. \<not> blank c")
    case False
    then have "dropWhile blank l = []" "dropWhile blank (l @ [b]) = []" using assms(1) by auto
    then show ?thesis unfolding sign_off_line_def by (simp only:)
  qed (simp add: sign_off_line_def dropWhile_snoc assms(1))
  then show ?thesis using assms(2) subject_line_append by (auto simp: clean_line_def)
qed

lemma clean_line_Nil [simp]: "clean_line []"
  by (simp add: clean_line_def subject_line_def sign_off_line_def drop_mark_def SIGN_OFFS_def)

lemma strip_subject_chars: "set (strip_subject_lines ls) \<subseteq> \<Union> (set ` set ls) \<union> {CHR 0x0A}"
  by (induction ls rule: strip_subject_lines.induct) (auto simp: newline_def)

lemma before_sign_off_chars: "set (before_sign_off ls) \<subseteq> \<Union> (set ` set ls) \<union> {CHR 0x0A}"
proof (induction ls)
  case (Cons l ls)
  have "set (before_sign_off (l # ls)) \<subseteq> set l \<union> {CHR 0x0A} \<union> set (before_sign_off ls)"
    by (subst before_sign_off.simps(2)) (auto simp: newline_def simp del: before_sign_off.simps(2) split: list.split)
  with Cons show ?case by auto
qed simp

lemma lines_strip_subject:
  assumes "\<forall>l \<in> set ls. CHR 0x0A \<notin> set l"
  shows "\<forall>l \<in> set (text_lines (strip_subject_lines ls)). l = [] \<or> \<not> subject_line l"
  using assms
  by (induction ls rule: strip_subject_lines.induct) (auto simp: text_lines_id text_lines_newline)

lemma lines_before_sign_off:
  assumes "\<forall>l \<in> set ls. CHR 0x0A \<notin> set l"
  shows "\<forall>l \<in> set (text_lines (before_sign_off ls)). l = [] \<or> l \<in> set ls \<and> \<not> sign_off_line l"
  using assms
proof (induction ls rule: before_sign_off.induct)
  case (2 l ls)
  then show ?case by (cases ls) (auto simp: text_lines_id text_lines_newline)
qed (simp add: text_lines_id)

lemma strip_clean:
  assumes "plain_spaces body"
  shows "\<forall>l \<in> set (text_lines (strip_format_violations body)). clean_line l"
proof -
  define s where "s = strip_subject_lines (text_lines body)"
  define t where "t = before_sign_off (text_lines s)"
  have "set s \<subseteq> set body \<union> {CHR 0x0A}"
    using strip_subject_chars [of "text_lines body"] text_lines_chars [of _ body] unfolding s_def by blast
  moreover have "set t \<subseteq> set s \<union> {CHR 0x0A}"
    using before_sign_off_chars [of "text_lines s"] text_lines_chars [of _ s] unfolding t_def by blast
  ultimately have "plain_spaces t" using assms by (auto simp: plain_spaces_def list_all_iff)
  moreover have "\<forall>l \<in> set (text_lines t). clean_line l"
    using lines_strip_subject [of "text_lines body"] lines_before_sign_off [of "text_lines s"] text_lines_no_newline
    unfolding t_def s_def clean_line_def by (metis clean_line_Nil clean_line_def)
  ultimately have "\<forall>l \<in> set (text_lines (py_strip t)). clean_line l"
    by (rule lines_py_strip) (fact clean_line_front clean_line_back)+
  then show ?thesis by (simp add: strip_format_violations_def t_def s_def)
qed

lemma bracket_closes_append: "bracket_closes (s @ newline @ x) = bracket_closes s"
proof -
  define inside where "inside = (\<lambda>c. c \<notin> {CHR ''['', CHR '']'', CHR 0x0A, CHR 0x0D})"
  have closes: "bracket_closes t \<longleftrightarrow> 1 \<le> length (takeWhile inside t) \<and> length (takeWhile inside t) \<le> 80
      \<and> take 1 (dropWhile inside t) = '']''" for t
    by (simp add: bracket_closes_def inside_def Let_def)
  show ?thesis
  proof (cases "\<forall>c \<in> set s. inside c")
    case True
    then have s: "dropWhile inside s = []" by auto
    have sx: "dropWhile inside (s @ newline @ x) = newline @ x"
      using True by (simp add: dropWhile_snoc newline_def inside_def)
    show ?thesis unfolding closes s sx by (simp add: newline_def)
  next
    case False
    then have "dropWhile inside s \<noteq> []" "takeWhile inside (s @ newline @ x) = takeWhile inside s"
      "dropWhile inside (s @ newline @ x) = dropWhile inside s @ newline @ x"
      by (auto simp: dropWhile_snoc)
    then show ?thesis unfolding closes by (cases "dropWhile inside s") simp_all
  qed
qed

lemma no_bracket: "CHR ''['' \<notin> set x \<Longrightarrow> \<not> bracket_placeholder x"
  by (induction x) auto

lemma bracket_placeholder_append: "CHR ''['' \<notin> set x \<Longrightarrow> bracket_placeholder (s @ newline @ x) = bracket_placeholder s"
proof (induction s)
  case Nil
  then show ?case by (simp add: no_bracket newline_def)
next
  case (Cons c s)
  then show ?case using bracket_closes_append [of s x] by simp
qed

lemma closing_facts:
  "CHR ''['' \<notin> set (newline @ CONFIRMATION_CLOSING)" "text_lines CONFIRMATION_CLOSING = [CONFIRMATION_CLOSING]"
  "clean_line CONFIRMATION_CLOSING"
  by code_simp+

lemma lines_with_closing:
  "text_lines (s @ newline @ newline @ CONFIRMATION_CLOSING) = text_lines s @ [[], CONFIRMATION_CLOSING]"
  by (simp add: text_lines_append text_lines_Cons newline_def closing_facts(2))

lemma suffix_join: "suffix x (py_join sep (xs @ [x]))"
  by (cases "xs = []") (simp_all add: py_join_snoc suffix_def)

lemma template_closing: "suffix CONFIRMATION_CLOSING (confirmation_template_body stubs)"
proof -
  have "[a, []] @ map net_pay_line stubs @ [[], CONFIRMATION_CLOSING]
      = ([a, []] @ map net_pay_line stubs @ [[]]) @ [CONFIRMATION_CLOSING]" for a by simp
  then show ?thesis unfolding confirmation_template_body_def by (simp only: suffix_join)
qed

lemma compose_confirmation_cases:
  "compose_confirmation draft stubs = confirmation_template_body stubs
   \<or> (\<exists>body. draft = Some body \<and> \<not> bracket_placeholder (strip_format_violations body)
        \<and> (compose_confirmation draft stubs = strip_format_violations body \<and> suffix CONFIRMATION_CLOSING (strip_format_violations body)
           \<or> compose_confirmation draft stubs = strip_format_violations body @ newline @ newline @ CONFIRMATION_CLOSING))"
  by (auto simp: compose_confirmation_def Let_def split: option.split)

text \<open>C26. The confirmation a client reads, whatever the model drafted, ends with the one closing line; and it is
  the template, or a text without a bracketed placeholder that begins with the whole of what the guard kept of the
  draft. When the draft has no other space than blanks, tabs and newlines, no line of that text is a subject line
  or a sign-off either; with other line ends a sign-off can stay.\<close>

theorem confirmation_text_is_clean:
  "suffix CONFIRMATION_CLOSING (compose_confirmation draft stubs)
    \<and> (compose_confirmation draft stubs = confirmation_template_body stubs
       \<or> (\<exists>body. draft = Some body \<and> prefix (strip_format_violations body) (compose_confirmation draft stubs)
          \<and> \<not> bracket_placeholder (compose_confirmation draft stubs)
          \<and> (plain_spaces body \<longrightarrow>
                (\<forall>l \<in> set (text_lines (compose_confirmation draft stubs)). \<not> subject_line l \<and> \<not> sign_off_line l))))"
proof (cases "compose_confirmation draft stubs = confirmation_template_body stubs")
  case True
  then show ?thesis by (simp add: template_closing)
next
  case False
  then obtain body where body: "draft = Some body" "\<not> bracket_placeholder (strip_format_violations body)"
    and c: "compose_confirmation draft stubs = strip_format_violations body \<and> suffix CONFIRMATION_CLOSING (strip_format_violations body)
      \<or> compose_confirmation draft stubs = strip_format_violations body @ newline @ newline @ CONFIRMATION_CLOSING"
    using compose_confirmation_cases [of draft stubs] by blast
  have "\<not> bracket_placeholder (strip_format_violations body @ newline @ newline @ CONFIRMATION_CLOSING)"
    using body(2) bracket_placeholder_append [OF closing_facts(1)] by simp
  moreover have "\<forall>l \<in> set (text_lines (compose_confirmation draft stubs)). clean_line l" if "plain_spaces body"
    using c strip_clean [OF that] closing_facts(3) by (auto simp: lines_with_closing)
  ultimately show ?thesis using c body by (auto simp: clean_line_def suffix_def)
qed

definition sample_draft :: string where
  "sample_draft = ''Subject: Payroll'' @ newline @ ''All is paid.'' @ newline @ ''Best regards,'' @ newline @ ''[Your Name]''"

theorem confirmation_text_is_clean_witness:
  "compose_confirmation (Some sample_draft) [] = ''All is paid.'' @ newline @ newline @ CONFIRMATION_CLOSING
   \<and> list_all (\<lambda>l. \<not> subject_line l \<and> \<not> sign_off_line l) (text_lines (compose_confirmation (Some sample_draft) []))"
proof -
  have "plain_spaces sample_draft" by code_simp
  moreover have "compose_confirmation (Some sample_draft) [] = ''All is paid.'' @ newline @ newline @ CONFIRMATION_CLOSING" by code_simp
  moreover have "compose_confirmation (Some sample_draft) [] \<noteq> confirmation_template_body []" by code_simp
  ultimately show ?thesis using confirmation_text_is_clean [of "Some sample_draft" "[]"] unfolding list_all_iff by blast
qed

text \<open>With the line ends of a mail, a sign-off is not seen: its pattern ends before a newline, not before the
  carriage return. The strip then makes it the last line of the text, over the closing.\<close>

lemma crlf_sign_off_survives:
  "compose_confirmation (Some (''All is paid.'' @ [CHR 0x0D, CHR 0x0A] @ ''Best regards,'' @ [CHR 0x0D, CHR 0x0A])) []
   = ''All is paid.'' @ [CHR 0x0D, CHR 0x0A] @ ''Best regards,'' @ newline @ newline @ CONFIRMATION_CLOSING"
  by code_simp

subsection \<open>The amount a client reads is the net pay\<close>

lemma char_digit:
  assumes "k < 10"
  shows "is_digit (char_of (48 + k :: nat))" "of_char (char_of (48 + k) :: char) - (48 :: int) = int k"
proof -
  have "of_char (char_of (48 + k) :: char) = int (of_char (char_of (48 + k) :: char))" by (simp only: of_nat_of_char)
  also have "\<dots> = int ((48 + k) mod 256)" by (simp only: of_char_of)
  finally show "of_char (char_of (48 + k) :: char) - (48 :: int) = int k" using assms by simp
qed (use assms in \<open>simp add: is_digit_def\<close>)

lemma digits_value_snoc: "digits_value (ds @ [c]) = 10 * digits_value ds + (of_char c - 48)"
  by (simp add: digits_value_def)

lemma nat_str_small: "n < 10 \<Longrightarrow> nat_str n = [char_of (48 + n)]"
  by (simp add: nat_str.simps [of n])

lemma nat_str_is_digit: "list_all is_digit (nat_str n)"
proof (induction n rule: nat_str.induct)
  case (1 n)
  then show ?case using char_digit(1) [of "n mod 10"] char_digit(1) [of n] by (simp add: nat_str.simps [of n])
qed

lemma nat_str_value: "digits_value (nat_str n) = int n"
proof (induction n rule: nat_str.induct)
  case (1 n)
  show ?case
  proof (cases "n < 10")
    case True
    then show ?thesis using char_digit(2) [of n] by (simp add: nat_str_small digits_value_def)
  next
    case False
    have "10 * int (n div 10) + int (n mod 10) = int n" by presburger
    then show ?thesis using False 1 char_digit(2) [of "n mod 10"] by (simp add: nat_str.simps [of n] digits_value_snoc)
  qed
qed

lemma nat_str_nonempty [simp]: "nat_str n \<noteq> []"
  by (simp add: nat_str.simps [of n])

lemma filter_group: "filter (\<lambda>c. c \<noteq> CHR '','') (group_thousands s) = filter (\<lambda>c. c \<noteq> CHR '','') s"
proof -
  have "filter (\<lambda>c. c \<noteq> CHR '','') (group_reversed t) = filter (\<lambda>c. c \<noteq> CHR '','') t" for t
    by (induction t rule: group_reversed.induct) auto
  then show ?thesis by (simp add: group_thousands_def rev_filter [symmetric])
qed

lemma digit_marks: "is_digit c \<Longrightarrow> c \<noteq> CHR '','' \<and> c \<noteq> CHR ''_'' \<and> c \<noteq> CHR ''-'' \<and> c \<noteq> CHR ''+'' \<and> c \<noteq> CHR ''.'' \<and> \<not> py_space c"
  by (auto simp: is_digit_def py_space_def)

lemma strip_nothing:
  assumes "\<forall>c \<in> set s. c \<noteq> CHR ''_'' \<and> \<not> py_space c"
  shows "filter (\<lambda>c. c \<noteq> CHR ''_'') (rev (dropWhile py_space (rev (dropWhile py_space s)))) = s"
proof -
  have keep: "dropWhile py_space t = t" if "set t \<subseteq> set s" for t
    using that assms by (cases t) auto
  then show ?thesis using keep [of s] keep [of "rev s"] assms by (simp add: filter_id_conv)
qed

text \<open>Two runs of digits around a point are read as the number they spell.\<close>

lemma decimal_parse_point:
  assumes "list_all is_digit ip" "ip \<noteq> []" "list_all is_digit fp"
  shows "decimal_parse ((if neg then ''-'' else []) @ ip @ ''.'' @ fp)
    = Some (Dec ((if neg then -1 else 1) * digits_value (ip @ fp)) (- int (length fp)))"
proof -
  let ?u = "ip @ ''.'' @ fp"
  let ?s = "(if neg then ''-'' else []) @ ?u"
  have marks: "\<forall>c \<in> set ip \<union> set fp. c \<noteq> CHR ''_'' \<and> \<not> py_space c" using assms(1,3) digit_marks by (auto simp: list_all_iff)
  have "\<not> py_space (CHR ''.'')" "\<not> py_space (CHR ''-'')" by (simp_all add: py_space_def)
  with marks have "\<forall>c \<in> set ?s. c \<noteq> CHR ''_'' \<and> \<not> py_space c" by auto
  then have strip: "filter (\<lambda>c. c \<noteq> CHR ''_'') (rev (dropWhile py_space (rev (dropWhile py_space ?s)))) = ?s"
    by (rule strip_nothing)
  have sign: "take_sign ?s = (if neg then -1 else 1, ?u)"
    using assms(1,2) digit_marks [of "hd ip"] by (cases ip) (auto simp: take_sign_def)
  have "\<not> is_digit (CHR ''.'')" "\<forall>c \<in> set ip. is_digit c" "\<forall>c \<in> set fp. is_digit c"
    using assms by (simp_all add: list_all_iff is_digit_def)
  then have parts: "takeWhile is_digit ?u = ip" "dropWhile is_digit ?u = ''.'' @ fp" "takeWhile is_digit fp = fp" "dropWhile is_digit fp = []"
    by (simp_all add: dropWhile_snoc takeWhile_tail)
  show ?thesis unfolding decimal_parse_def strip Let_def sign prod.case parts using assms(2) by (simp add: parts(3,4))
qed

lemma money_text_reads_back: "decimal_parse (filter (\<lambda>c. c \<noteq> CHR '','') (money_text (Dec n (-2)))) = Some (Dec n (-2))"
proof -
  define m where "m = nat \<bar>n\<bar>"
  define ip fp where "ip = nat_str (m div 100)" and "fp = nat_str (m mod 100 div 10) @ nat_str (m mod 10)"
  have d: "list_all is_digit ip" "ip \<noteq> []" "list_all is_digit fp" by (simp_all add: ip_def fp_def nat_str_is_digit)
  have keep: "filter (\<lambda>c. c \<noteq> CHR '','') ds = ds" if "list_all is_digit ds" for ds
    using that digit_marks by (auto simp: filter_id_conv list_all_iff)
  have "format_cents (Dec n (-2)) = m" by (simp add: format_cents_def m_def)
  then have "money_text (Dec n (-2)) = (if n < 0 then ''-'' else []) @ group_thousands ip @ ''.'' @ fp"
    by (simp add: money_text_def ip_def fp_def Let_def)
  then have "filter (\<lambda>c. c \<noteq> CHR '','') (money_text (Dec n (-2))) = (if n < 0 then ''-'' else []) @ ip @ ''.'' @ fp"
    using keep d by (simp add: filter_group)
  moreover have fp: "fp = [char_of (48 + m mod 100 div 10), char_of (48 + m mod 10)]"
    by (simp add: fp_def nat_str_small)
  moreover have "digits_value (ip @ fp) = \<bar>n\<bar>"
  proof -
    have "ip @ fp = (ip @ [char_of (48 + m mod 100 div 10)]) @ [char_of (48 + m mod 10)]" by (simp add: fp)
    then have "digits_value (ip @ fp) = 10 * (10 * int (m div 100) + int (m mod 100 div 10)) + int (m mod 10)"
      using char_digit(2) [of "m mod 100 div 10"] char_digit(2) [of "m mod 10"]
      by (simp only: digits_value_snoc) (simp add: ip_def nat_str_value)
    moreover have "10 * (10 * (m div 100) + m mod 100 div 10) + m mod 10 = m"
    proof -
      have "m mod 100 mod 10 = m mod 10" by (simp add: mod_mod_cancel)
      moreover have "x * 100 + c = m \<Longrightarrow> y * 10 + z = c \<Longrightarrow> 10 * (10 * x + y) + z = m" for x y z c :: nat by simp
      ultimately show ?thesis using div_mult_mod_eq [of m 100] div_mult_mod_eq [of "m mod 100" 10] by metis
    qed
    then have "int (10 * (10 * (m div 100) + m mod 100 div 10) + m mod 10) = int m" by simp
    ultimately show ?thesis by (simp add: m_def)
  qed
  ultimately show ?thesis using decimal_parse_point [OF d, of "n < 0"] by (simp add: abs_if)
qed

text \<open>C40. Without a usable draft the client reads, for every employee paid, a line with the name and an amount that reads back, its
  group separators removed, as exactly the net pay of the paystub.\<close>

theorem template_states_net_pay:
  assumes "item \<in> set stubs" "dexp (net_pay item) = -2"
  shows "\<exists>amount. sublist (''- '' @ stub_name item @ '': $'' @ amount @ '' net'') (compose_confirmation None stubs)
    \<and> decimal_parse (filter (\<lambda>c. c \<noteq> CHR '','') amount) = Some (net_pay item)"
proof (intro exI conjI)
  have "sublist (net_pay_line item) (confirmation_template_body stubs)"
    unfolding confirmation_template_body_def by (rule sublist_join) (use assms(1) in simp)
  then show "sublist (''- '' @ stub_name item @ '': $'' @ money_text (net_pay item) @ '' net'') (compose_confirmation None stubs)"
    by (simp add: net_pay_line_def compose_confirmation_def)
  show "decimal_parse (filter (\<lambda>c. c \<noteq> CHR '','') (money_text (net_pay item))) = Some (net_pay item)"
    using assms(2) money_text_reads_back by (cases "net_pay item") simp
qed

definition sample_stub :: paystub where
  "sample_stub = \<lparr>stub_id = 1, stub_run_id = 9, stub_employee_id = Some 2, stub_name = ''Ana Diaz'',
     stub_hours_regular = Dec 40 0, stub_hours_overtime = dec_zero, stub_hours_vacation = dec_zero, stub_hours_sick = dec_zero,
     stub_hours_holiday = dec_zero, gross_pay = Dec 150000 (-2), pretax_401k = Dec 0 (-2), fica_ss = Dec 9300 (-2),
     fica_medicare = Dec 2175 (-2), federal_withholding = Dec 10000 (-2), state_withholding = None, net_pay = Dec 128525 (-2),
     created_at = 0, additional_medicare_not_modeled = False\<rparr>"

theorem template_states_net_pay_witness:
  "\<exists>amount. sublist (''- '' @ ''Ana Diaz'' @ '': $'' @ amount @ '' net'') (compose_confirmation None [sample_stub])
    \<and> decimal_parse (filter (\<lambda>c. c \<noteq> CHR '','') amount) = Some (Dec 128525 (-2))"
proof -
  have s: "sample_stub \<in> set [sample_stub]" "dexp (net_pay sample_stub) = -2" "stub_name sample_stub = ''Ana Diaz''"
    "net_pay sample_stub = Dec 128525 (-2)" by (simp_all add: sample_stub_def)
  from template_states_net_pay [OF s(1,2)] show ?thesis unfolding s(3,4) .
qed

end
