(* ===== verification/Approval.thy ===== *)
theory Approval
  imports OperatorResume Confirmation
begin

section \<open>Approving a run\<close>

text \<open>
  \<open>app/pipeline/delivery.py\<close> and the approve and reject routes of \<open>app/routes/runs.py\<close>. The draft of
  the confirmation and the PDF of a paystub are arguments (a language model, a drawing library), as are the name of the
  business and the printed dates of the period, which the mail only quotes; the
  rest of an approval is one transaction that either commits or leaves an error on the run.
\<close>

subsection \<open>The confirmation\<close>

record confirmation_inputs =
  cn_now :: instant
  cn_ids :: slot_ids
  cn_business :: "string option"
  cn_period :: "string option \<times> string option"
  cn_draft :: "payroll_run \<Rightarrow> paystub list \<Rightarrow> string option"
  cn_pdf :: "paystub \<Rightarrow> string \<Rightarrow> employee option \<Rightarrow> 8 word list res"

definition ascii_word :: "char \<Rightarrow> bool" where
  "ascii_word c \<longleftrightarrow> (let n = of_char c :: nat in (48 \<le> n \<and> n \<le> 57) \<or> (65 \<le> n \<and> n \<le> 90) \<or> n = 95 \<or> (97 \<le> n \<and> n \<le> 122))"

definition safe_name :: "string \<Rightarrow> string" where
  "safe_name s =
     (let t = map (\<lambda>c. if ascii_word c \<or> c = CHR ''.'' \<or> c = CHR ''-'' then c else CHR ''_'') s
      in if t = [] then ''employee'' else t)"

definition stub_attachment :: "confirmation_inputs \<Rightarrow> roster \<Rightarrow> paystub \<Rightarrow> (string \<times> 8 word list) res" where
  "stub_attachment ci r item =
     (let e = Option.bind (stub_employee_id item) (\<lambda>i. map_of (dict_of (map (\<lambda>e. (emp_id e, e)) (roster_employees r))) i);
          name = (case e of Some emp \<Rightarrow> full_name emp
                  | None \<Rightarrow> if stub_name item = [] then ''Employee'' else stub_name item)
      in bind_res (cn_pdf ci item name e) (\<lambda>pdf. Inr (''paystub_'' @ safe_name name @ ''.pdf'', pdf)))"

definition chain_references :: "string option \<Rightarrow> string option \<Rightarrow> string option" where
  "chain_references prior reply =
     (if truthy prior \<and> truthy reply then Some (the prior @ '' '' @ the reply) else if truthy reply then reply else prior)"

text \<open>The alias batch runs in a savepoint; the two status writes follow whatever became of it.\<close>

definition complete_sent_confirmation :: "unicode \<Rightarrow> uuid \<Rightarrow> payroll_run \<Rightarrow> db \<Rightarrow> db res" where
  "complete_sent_confirmation u run r d =
     bind_res (load_roster_for_business (business_id r) (db_staff d)) (\<lambda>ros.
       (let (staff, batch) = write_aliases u (business_id r) (pre_candidates r) ros (db_staff d);
            d1 = (case batch of Inl e \<Rightarrow> d | Inr x \<Rightarrow> d\<lparr>db_staff := staff\<rparr>)
        in Inr (update_run run (set_status RECONCILED) (update_run run (set_status SENT) d1))))"

definition confirmation_envelope :: "settings \<Rightarrow> confirmation_inputs \<Rightarrow> uuid \<Rightarrow> payroll_run \<Rightarrow> db \<Rightarrow> envelope res" where
  "confirmation_envelope cfg ci run r d =
     bind_res (load_roster_for_business (business_id r) (db_staff d)) (\<lambda>ros.
     bind_res (map_res (stub_attachment ci ros) (line_items r)) (\<lambda>atts.
     bind_res (load_inbound_email run d) (\<lambda>inbound.
       (let reply = map_option ml_message_id inbound;
            composed = enriched_confirmation_run (cn_business ci) (fst (cn_period ci)) (snd (cn_period ci))
        in Inr \<lparr>en_from = cf_from cfg,
                en_to = resolve_outbound_recipient cfg (case inbound of None \<Rightarrow> [] | Some m \<Rightarrow> ml_from m),
                en_reply_to = str_or_none (cf_reply_to cfg), en_in_reply_to = reply,
                en_references = chain_references (get_outbound_references_chain run d) reply,
                en_subject = confirmation_subject composed (map_option ml_subject inbound),
                en_body = compose_confirmation (cn_draft ci r (line_items r)) (line_items r),
                en_attachments = atts\<rparr>))))"

definition deliver :: "unicode \<Rightarrow> settings \<Rightarrow> confirmation_inputs \<Rightarrow> uuid \<Rightarrow> payroll_run \<Rightarrow> db \<Rightarrow> (bool \<times> db) res" where
  "deliver u cfg ci run r d =
     (case get_outbound_message_id run PurposeConfirmation d of
        Some mid \<Rightarrow> bind_res (complete_sent_confirmation u run r d) (\<lambda>d1. Inr (False, d1))
      | None \<Rightarrow>
          (case outbound_replay_policy run PurposeConfirmation 0 d of
             Some email \<Rightarrow>
               bind_res (enqueue_send (cn_now ci) (cf_job_attempts cfg) (sl_job (cn_ids ci)) run email d) (\<lambda>d1. Inr (True, d1))
           | None \<Rightarrow>
               bind_res (confirmation_envelope cfg ci run r d) (\<lambda>en.
               bind_res (reserve_outbound_snapshot (cn_now ci) (cn_ids ci) run PurposeConfirmation 0 en d) (\<lambda>(ob, d1).
               bind_res (enqueue_send (cn_now ci) (cf_job_attempts cfg) (sl_job (cn_ids ci)) run (ob_email ob) d1) (\<lambda>d2.
               Inr (True, d2))))))"

subsection \<open>The routes\<close>

text \<open>A redirect to the run, with a fixed notice code or not.\<close>

datatype response = Redirect | Notice string | SupersededRedirect | NotFound

text \<open>The error a failed delivery leaves, in a transaction of its own; the detail is scrubbed text.\<close>

definition error_name :: "py_error \<Rightarrow> string" where
  "error_name e =
     (case e of ValueError \<Rightarrow> ''ValueError'' | TypeError \<Rightarrow> ''TypeError'' | KeyError \<Rightarrow> ''KeyError'' | RuntimeError \<Rightarrow> ''RuntimeError''
      | ValidationError \<Rightarrow> ''ValidationError'' | InvalidOperation \<Rightarrow> ''InvalidOperation'' | ZeroDivisionError \<Rightarrow> ''ZeroDivisionError''
      | PayrollCalculationError \<Rightarrow> ''PayrollCalculationError'' | DatabaseError \<Rightarrow> ''DatabaseError'')"

definition approve :: "unicode \<Rightarrow> settings \<Rightarrow> confirmation_inputs \<Rightarrow> (py_error \<Rightarrow> string option) \<Rightarrow> uuid \<Rightarrow> db \<Rightarrow> response \<times> db" where
  "approve u cfg ci detail run d =
     (case cas_run run AWAITING_APPROVAL (set_status APPROVED) d of
        (False, d1) \<Rightarrow> (Notice ''approve_claim_lost'', d)
      | (True, d1) \<Rightarrow>
          (case (case load_run run d1 of None \<Rightarrow> Inl TypeError | Some r \<Rightarrow> deliver u cfg ci run r d1) of
             Inr (wake, d2) \<Rightarrow> (Redirect, d2)
           | Inl e \<Rightarrow> (Redirect, update_run run (record_run_error (error_name e) (detail e)) d)))"

definition reject :: "uuid \<Rightarrow> db \<Rightarrow> response \<times> db" where
  "reject run d =
     (let (a, d1) = cas_run run AWAITING_APPROVAL (set_status REJECTED) d;
          (b, d2) = (if a then (True, d1) else cas_run run NEEDS_OPERATOR (set_status REJECTED) d1);
          (c, d3) = (if b then (True, d2) else cas_run run AWAITING_REPLY (set_status REJECTED) d2)
      in (Redirect, d3))"

subsection \<open>What an approval comes to\<close>

lemma complete_sent_form:
  assumes "complete_sent_confirmation u run r d = Inr d'"
  obtains staff where "d' = update_run run (set_status RECONCILED) (update_run run (set_status SENT) (d\<lparr>db_staff := staff\<rparr>))"
proof -
  obtain ros where ros: "load_roster_for_business (business_id r) (db_staff d) = Inr ros"
    using assms by (cases "load_roster_for_business (business_id r) (db_staff d)") (simp_all add: complete_sent_confirmation_def res_simps)
  obtain staff batch where w: "write_aliases u (business_id r) (pre_candidates r) ros (db_staff d) = (staff, batch)"
    by (cases "write_aliases u (business_id r) (pre_candidates r) ros (db_staff d)")
  have "d = d\<lparr>db_staff := db_staff d\<rparr>" by simp
  with assms ros w that [of "db_staff d"] that [of staff] show thesis
    by (cases batch) (simp_all add: complete_sent_confirmation_def res_simps)
qed

lemma complete_sent_status:
  assumes "complete_sent_confirmation u run r d = Inr d'" "load_run run d = Some r0"
  shows "load_run run d' = Some (set_status RECONCILED (set_status SENT r0)) \<and> db_outbound d' = db_outbound d \<and> db_jobs d' = db_jobs d"
proof -
  obtain staff where d': "d' = update_run run (set_status RECONCILED) (update_run run (set_status SENT) (d\<lparr>db_staff := staff\<rparr>))"
    using complete_sent_form [OF assms(1)] by blast
  have "load_run run (d\<lparr>db_staff := staff\<rparr>) = Some r0" using assms(2) by (simp add: load_run_def)
  then have "load_run run (update_run run (set_status SENT) (d\<lparr>db_staff := staff\<rparr>)) = Some (set_status SENT r0)"
    by (rule load_run_update_same [rotated]) (simp add: set_status_def)
  then have "load_run run d' = Some (set_status RECONCILED (set_status SENT r0))"
    unfolding d' by (rule load_run_update_same [rotated]) (simp add: set_status_def)
  then show ?thesis by (simp add: d')
qed

lemma complete_sent_total:
  assumes "load_roster_for_business (business_id r) (db_staff d) = Inr ros"
  shows "\<exists>d'. complete_sent_confirmation u run r d = Inr d'"
  by (simp add: complete_sent_confirmation_def assms Let_def split: prod.split)

text \<open>The row of the run, and the delivery tables, after a delivery.\<close>

definition run_stands :: "uuid \<Rightarrow> run_status \<Rightarrow> nat \<Rightarrow> db \<Rightarrow> bool" where
  "run_stands run s e d \<longleftrightarrow> (\<exists>r. load_run run d = Some r \<and> status r = s \<and> reply_epoch r = e)"

definition some_confirmation_sent :: "uuid \<Rightarrow> nat \<Rightarrow> db \<Rightarrow> bool" where
  "some_confirmation_sent run e d \<longleftrightarrow>
     (\<exists>ob \<in> set (db_outbound d). ob_run ob = run \<and> ob_purpose ob = PurposeConfirmation \<and> ob_epoch ob = e \<and> ob_state ob = MailSent)"

lemma sent_lookup:
  assumes "run_epoch run d = Some e"
  shows "get_outbound_message_id run PurposeConfirmation d = None \<longleftrightarrow> \<not> some_confirmation_sent run e d"
  using assms by (auto simp: get_outbound_message_id_def latest_None of_epoch_def some_confirmation_sent_def)

lemma deliver_sent:
  assumes "run_epoch run d = Some e" "some_confirmation_sent run e d"
  shows "deliver u cfg ci run r d = bind_res (complete_sent_confirmation u run r d) (\<lambda>d1. Inr (False, d1))"
  using sent_lookup [OF assms(1)] assms(2) by (auto simp: deliver_def split: option.split)

lemma deliver_reserved:
  assumes "outbox_ok d" "run_epoch run d = Some e" "\<not> some_confirmation_sent run e d"
    "first_match (in_slot run PurposeConfirmation 0 e) (db_outbound d) = Some ob"
  shows "deliver u cfg ci run r d =
    Inr (True, d\<lparr>db_jobs := with_send (cn_now ci) (sl_job (cn_ids ci)) run (ob_email ob) (db_jobs d)\<rparr>)"
proof -
  have "ob_state ob \<noteq> MailSent"
    using assms(3) first_match_SomeD [OF assms(4)] by (auto simp: some_confirmation_sent_def in_slot_def)
  then have "outbound_replay_policy run PurposeConfirmation 0 d = Some (ob_email ob)"
    using slot_lookups(2) [OF assms(1,2,4)] by simp
  then show ?thesis using sent_lookup [OF assms(2)] assms(3) by (simp add: deliver_def enqueue_send_eq)
qed

lemma deliver_fresh:
  assumes "outbox_ok d" "run_epoch run d = Some e" "\<not> some_confirmation_sent run e d"
    "first_match (in_slot run PurposeConfirmation 0 e) (db_outbound d) = None"
  shows "deliver u cfg ci run r d = bind_res (confirmation_envelope cfg ci run r d) (\<lambda>en.
    if sl_message_id (cn_ids ci) \<in> set (message_ids d) \<or> \<not> envelope_ok en then Inl DatabaseError
    else Inr (True, d\<lparr>db_outbound := db_outbound d @ [new_slot (cn_now ci) (cn_ids ci) run PurposeConfirmation 0 e en],
           db_jobs := with_send (cn_now ci) (sl_job (cn_ids ci)) run (sl_email (cn_ids ci)) (db_jobs d)\<rparr>))"
proof -
  have "outbound_replay_policy run PurposeConfirmation 0 d = None" using slot_lookups(1) [OF assms(1,2,4)] by simp
  then show ?thesis using sent_lookup [OF assms(2)] assms(2-4)
    by (cases "confirmation_envelope cfg ci run r d") (simp_all add: deliver_def reserve_outbound_snapshot_def enqueue_send_eq Let_def)
qed

lemma approve_claimed:
  assumes "db_ok d" "load_run run d = Some r" "status r = AWAITING_APPROVAL" "approve u cfg ci detail run d = (resp, d')"
    "d1 = d\<lparr>db_runs := update_rows (\<lambda>r. run_id r = run \<and> status r = AWAITING_APPROVAL) (set_status APPROVED) (db_runs d)\<rparr>"
  shows "resp = Redirect" "load_run run d1 = Some (set_status APPROVED r)"
    "deliver u cfg ci run (set_status APPROVED r) d1 = Inr (w, d2) \<Longrightarrow> d' = d2"
    "deliver u cfg ci run (set_status APPROVED r) d1 = Inl e \<Longrightarrow> (\<exists>r'. load_run run d' = Some r' \<and> status r' = ERROR \<and> error_reason r' = Some (error_name e))
       \<and> db_outbound d' = db_outbound d \<and> db_jobs d' = db_jobs d \<and> db_staff d' = db_staff d"
proof -
  have claim: "cas_run run AWAITING_APPROVAL (set_status APPROVED) d = (True, d1)"
    unfolding assms(5) by (rule cas_run_claimed [OF assms(1-3)])
  show r1: "load_run run d1 = Some (set_status APPROVED r)"
    using load_run_cas [OF assms(2), of "set_status APPROVED" AWAITING_APPROVAL] claim assms(3) by (simp add: set_status_def)
  show "resp = Redirect" using assms(4) claim r1 by (auto simp: approve_def split: sum.splits prod.splits)
  show "d' = d2" if "deliver u cfg ci run (set_status APPROVED r) d1 = Inr (w, d2)" using assms(4) claim r1 that by (simp add: approve_def)
  assume "deliver u cfg ci run (set_status APPROVED r) d1 = Inl e"
  then have "d' = update_run run (record_run_error (error_name e) (detail e)) d" using assms(4) claim r1 by (simp add: approve_def)
  moreover have "load_run run (update_run run (record_run_error (error_name e) (detail e)) d) = Some (record_run_error (error_name e) (detail e) r)"
    by (rule load_run_update_same [OF _ assms(2)]) (simp add: record_run_error_def set_status_def)
  ultimately show "(\<exists>r'. load_run run d' = Some r' \<and> status r' = ERROR \<and> error_reason r' = Some (error_name e))
      \<and> db_outbound d' = db_outbound d \<and> db_jobs d' = db_jobs d \<and> db_staff d' = db_staff d"
    using assms(3) by (simp add: record_run_error_def set_status_def TERMINAL_STATUSES_def)
qed

text \<open>C15. An approval, exactly. A run that does not wait for approval is left alone. Otherwise: when a confirmation of
  the epoch was sent, no mail is made and the run is reconciled; when its slot is reserved or failed, that mail keeps its
  text and gets a send job, due now, unless a job for it exists; and without a slot the confirmation is
  reserved with such a job and the run is approved. The run shows an error instead, and no mail is reserved or queued,
  exactly when the roster does not load in the first case, and in the last one when the envelope cannot be made, is not usable or its message id is taken.\<close>

theorem approve_table:
  assumes "db_ok d" "outbox_ok d" "load_run run d = Some r" "approve u cfg ci detail run d = (resp, d')"
    "send_outbound_dedup_key (sl_email (cn_ids ci)) \<notin> dedup_key ` set (db_jobs d)"
    "d1 = d\<lparr>db_runs := update_rows (\<lambda>r. run_id r = run \<and> status r = AWAITING_APPROVAL) (set_status APPROVED) (db_runs d)\<rparr>"
    "failed = (\<lambda>e. (\<exists>r'. load_run run d' = Some r' \<and> status r' = ERROR \<and> error_reason r' = Some (error_name e))
       \<and> db_outbound d' = db_outbound d \<and> db_jobs d' = db_jobs d \<and> db_staff d' = db_staff d)"
  shows "if status r \<noteq> AWAITING_APPROVAL then resp = Notice ''approve_claim_lost'' \<and> d' = d
    else resp = Redirect \<and>
      (if some_confirmation_sent run (reply_epoch r) d
       then (case load_roster_for_business (business_id r) (db_staff d) of
               Inl e \<Rightarrow> failed e
             | Inr ros \<Rightarrow> run_stands run RECONCILED (reply_epoch r) d' \<and> db_outbound d' = db_outbound d \<and> db_jobs d' = db_jobs d)
       else (case first_match (in_slot run PurposeConfirmation 0 (reply_epoch r)) (db_outbound d) of
               Some ob \<Rightarrow> run_stands run APPROVED (reply_epoch r) d' \<and> db_outbound d' = db_outbound d
                 \<and> db_jobs d' = (if send_outbound_dedup_key (ob_email ob) \<in> dedup_key ` set (db_jobs d) then db_jobs d
                                  else db_jobs d @ [send_row (cn_now ci) (sl_job (cn_ids ci)) run (ob_email ob)])
             | None \<Rightarrow>
                 (case confirmation_envelope cfg ci run (set_status APPROVED r) d1 of
                    Inl e \<Rightarrow> failed e
                  | Inr en \<Rightarrow>
                      if sl_message_id (cn_ids ci) \<in> set (message_ids d) \<or> \<not> envelope_ok en then failed DatabaseError
                      else run_stands run APPROVED (reply_epoch r) d'
                        \<and> db_outbound d' = db_outbound d @ [new_slot (cn_now ci) (cn_ids ci) run PurposeConfirmation 0 (reply_epoch r) en]
                        \<and> db_jobs d' = db_jobs d @ [send_row (cn_now ci) (sl_job (cn_ids ci)) run (sl_email (cn_ids ci))])))"
proof (cases "status r = AWAITING_APPROVAL")
  case False
  then have "\<not> fst (cas_run run AWAITING_APPROVAL (set_status APPROVED) d)" using cas_run_iff [OF assms(1,3)] by simp
  then show ?thesis using False assms(4) by (cases "cas_run run AWAITING_APPROVAL (set_status APPROVED) d") (simp add: approve_def)
next
  case True
  let ?e = "reply_epoch r" and ?r = "set_status APPROVED r"
  note claimed = approve_claimed [OF assms(1,3) True assms(4,6)]
  have same: "db_outbound d1 = db_outbound d" "db_jobs d1 = db_jobs d" "db_staff d1 = db_staff d" "message_ids d1 = message_ids d"
    "some_confirmation_sent run ?e d1 = some_confirmation_sent run ?e d"
    by (simp_all add: assms(6) message_ids_def some_confirmation_sent_def)
  have out1: "outbox_ok d1" using assms(2) same by (simp add: outbox_ok_def)
  have e1: "run_epoch run d1 = Some ?e" using claimed(2) by (simp add: run_epoch_def set_status_def)
  have stands: "run_stands run APPROVED ?e (d1\<lparr>db_outbound := obs, db_jobs := js\<rparr>)" "run_stands run APPROVED ?e (d1\<lparr>db_jobs := js\<rparr>)" for obs js
    using claimed(2) by (simp_all add: run_stands_def load_run_def set_status_def)
  have bad: "failed e" if "deliver u cfg ci run ?r d1 = Inl e" for e unfolding assms(7) by (rule claimed(4) [OF that])
  show ?thesis
  proof (cases "some_confirmation_sent run ?e d")
    case sent: True
    show ?thesis
    proof (cases "load_roster_for_business (business_id r) (db_staff d)")
      case (Inl e)
      then have "complete_sent_confirmation u run ?r d1 = Inl e" by (simp add: complete_sent_confirmation_def same set_status_def)
      then show ?thesis using bad deliver_sent [OF e1, of u cfg ci ?r] sent same Inl True claimed(1) by simp
    next
      case (Inr ros)
      then obtain d2 where c: "complete_sent_confirmation u run ?r d1 = Inr d2"
        using complete_sent_total [of ?r d1 ros u run] same by (auto simp: set_status_def)
      then have "d' = d2" using claimed(3) [of False d2] deliver_sent [OF e1, of u cfg ci ?r] sent same by simp
      then show ?thesis using complete_sent_status [OF c claimed(2)] Inr same sent True claimed(1) by (simp add: run_stands_def set_status_def)
    qed
  next
    case unsent: False
    show ?thesis
    proof (cases "first_match (in_slot run PurposeConfirmation 0 ?e) (db_outbound d)")
      case None
      then show ?thesis using bad claimed(1,3) deliver_fresh [OF out1 e1, of u cfg ci ?r] unsent same stands assms(5) True
        by (cases "confirmation_envelope cfg ci run ?r d1") (auto simp: with_send_def)
    next
      case (Some ob)
      then show ?thesis using claimed(1,3) deliver_reserved [OF out1 e1, of ob u cfg ci ?r] unsent same stands True by (simp add: with_send_def)
    qed
  qed
qed

definition approval_db :: db where
  "approval_db = empty_db\<lparr>db_runs := [sample_run\<lparr>status := AWAITING_APPROVAL\<rparr>]\<rparr>"

definition sample_confirmation :: confirmation_inputs where
  "sample_confirmation = \<lparr>cn_now = 0, cn_ids = \<lparr>sl_email = 61, sl_snapshot = 62, sl_message_id = ''<c@x>'', sl_job = 63\<rparr>,
     cn_business = Some ''Cafe'', cn_period = (Some ''2026-01-01'', Some ''2026-01-14''), cn_draft = (\<lambda>r stubs. Some ''Your payroll is ready''), cn_pdf = (\<lambda>p n e. Inr [])\<rparr>"

theorem approve_table_witness:
  "let (resp, d') = approve ascii (sample_settings\<lparr>cf_outbound_to := ''client@y''\<rparr>) sample_confirmation (\<lambda>e. None) 9 approval_db
   in resp = Redirect \<and> run_stands 9 APPROVED 0 d' \<and> map ob_state (db_outbound d') = [Reserved] \<and> db_jobs d' = [send_row 0 63 9 61]"
proof -
  let ?cfg = "sample_settings\<lparr>cf_outbound_to := ''client@y''\<rparr>"
  let ?d1 = "approval_db\<lparr>db_runs := update_rows (\<lambda>r. run_id r = 9 \<and> status r = AWAITING_APPROVAL) (set_status APPROVED) (db_runs approval_db)\<rparr>"
  let ?r = "sample_run\<lparr>status := AWAITING_APPROVAL\<rparr>"
  obtain resp d' where a: "approve ascii ?cfg sample_confirmation (\<lambda>e. None) 9 approval_db = (resp, d')"
    by (cases "approve ascii ?cfg sample_confirmation (\<lambda>e. None) 9 approval_db")
  have ok: "db_ok approval_db" "outbox_ok approval_db" "load_run 9 approval_db = Some ?r"
    "send_outbound_dedup_key (sl_email (cn_ids sample_confirmation)) \<notin> dedup_key ` set (db_jobs approval_db)"
    by (simp_all add: db_ok_def outbox_ok_def message_ids_def approval_db_def empty_db_def load_run_def sample_run_def)
  have none: "db_outbound approval_db = []" "db_jobs approval_db = []" "message_ids approval_db = []" "reply_epoch sample_run = 0"
    by (simp_all add: approval_db_def empty_db_def sample_run_def message_ids_def)
  obtain en where en: "confirmation_envelope ?cfg sample_confirmation 9 (set_status APPROVED ?r) ?d1 = Inr en" "envelope_ok en"
    by (auto simp: confirmation_envelope_def load_run_def update_rows_def load_roster_for_business_def roster_valid_def load_inbound_email_def source_inbound_def approval_db_def
        empty_db_def sample_run_def set_status_def resolve_outbound_recipient_def py_strip_def py_rstrip_def py_space_def envelope_ok_def nonblank_def sample_settings_def sample_confirmation_def)
  have ids: "cn_now sample_confirmation = 0" "sl_job (cn_ids sample_confirmation) = 63" "sl_email (cn_ids sample_confirmation) = 61"
    by (simp_all add: sample_confirmation_def)
  show ?thesis
    using approve_table [OF ok(1-3) a ok(4) refl refl] none en by (simp add: a ids some_confirmation_sent_def)
qed

end
