(* ===== verification/Review.thy ===== *)
theory Review
  imports Approval
begin

section \<open>The console of one run\<close>

text \<open>
  The rest of \<open>app/routes/runs.py\<close> that writes: resolving names, sending a stuck run round again and
  the actions of a delivery review; with \<open>app/models/delivery_review.py\<close> and the two \<open>advance\<close>
  operations of \<open>app/db/repo/jobs.py\<close>. A route is one transaction, or leaves the database alone; an
  exception it catches becomes a notice. \<open>frozenset\<close>s are iterated in an order that is an argument.
\<close>

subsection \<open>The categories of a failed delivery\<close>

record review_category =
  ct_label :: string
  ct_uncertainty :: string
  ct_replay_same_ok :: bool
  ct_fresh_send_ok :: bool
  ct_blocker :: "string option"

definition open_category :: "string \<Rightarrow> string \<Rightarrow> review_category" where
  "open_category label uncertainty = \<lparr>ct_label = label, ct_uncertainty = uncertainty, ct_replay_same_ok = True, ct_fresh_send_ok = True, ct_blocker = None\<rparr>"

definition DELIVERY_REVIEW_CATEGORIES :: "(string \<times> review_category) list" where
  "DELIVERY_REVIEW_CATEGORIES =
     [(''transport'', open_category ''Transport uncertainty''
         ''A network problem interrupted the send before the provider confirmed whether it was received.''),
      (''provider_5xx'', open_category ''Provider service failure''
         ''The provider failed while processing the send, so it is unclear whether the email went out.''),
      (''rate_limited'', open_category ''Provider rate limit''
         ''The provider throttled the send before confirming whether it went out.''),
      (''authorization_expired'', open_category ''Delivery authorization expired''
         ''The authorization window for this send closed before the provider confirmed whether it was received.''),
      (''unknown'', open_category ''Unknown delivery outcome''
         ''The failure did not match a known provider category, so what happened to this send is unclassified.''),
      (''payload_mismatch'', \<lparr>ct_label = ''Frozen payload mismatch'',
         ct_uncertainty = ''The provider rejected a replay because the frozen payload no longer matches its reserved idempotency key.'',
         ct_replay_same_ok = False, ct_fresh_send_ok = True,
         ct_blocker = Some ''the frozen payload no longer matches its reserved key; only a new slot mints a fresh one''\<rparr>),
      (''final_attempt_lease_expired'', \<lparr>ct_label = ''Final attempt lease expired'',
         ct_uncertainty = ''The automatic retry budget for this reservation was spent before the provider confirmed the send.'',
         ct_replay_same_ok = False, ct_fresh_send_ok = True,
         ct_blocker = Some ''the replay budget for this reservation is spent''\<rparr>),
      (''authorization'', \<lparr>ct_label = ''Provider authorization issue'',
         ct_uncertainty = ''The provider rejected the credentials or sender permission for this send.'',
         ct_replay_same_ok = False, ct_fresh_send_ok = False,
         ct_blocker = Some ''the provider rejected the credentials or the sender permission; the API key or sending domain must change first''\<rparr>),
      (''validation'', \<lparr>ct_label = ''Provider validation issue'',
         ct_uncertainty = ''The provider rejected the message itself, most often because the recipient address could not accept mail.'',
         ct_replay_same_ok = False, ct_fresh_send_ok = False,
         ct_blocker = Some ''the provider rejected the message itself, most often an undeliverable recipient address; the recipient or sender configuration must change first''\<rparr>),
      (''configuration'', \<lparr>ct_label = ''Delivery configuration issue'',
         ct_uncertainty = ''Delivery is not configured for this deployment.'',
         ct_replay_same_ok = False, ct_fresh_send_ok = False,
         ct_blocker = Some ''delivery is not configured (no provider API key is set)''\<rparr>)]"

subsection \<open>Loading a review\<close>

datatype review_kind = ReviewConfirmation | ReviewClarification

record delivery_review =
  dr_category :: string
  dr_kind :: review_kind
  dr_slot :: outbound
  dr_attempts :: nat

definition review_marker :: "string \<Rightarrow> review_kind option" where
  "review_marker why =
     (if why = ''DeliveryReview'' then Some ReviewConfirmation
      else if why = ''ClarificationDeliveryReview'' then Some ReviewClarification else None)"

definition review_purposes :: "purpose list \<Rightarrow> review_kind \<Rightarrow> purpose list" where
  "review_purposes order k = (case k of ReviewConfirmation \<Rightarrow> [PurposeConfirmation]
     | ReviewClarification \<Rightarrow> filter (\<lambda>p. p \<noteq> PurposeConfirmation) order)"

text \<open>The first purpose with an unconfirmed mail; the round is left at its default, zero.\<close>

fun pending_of :: "purpose list \<Rightarrow> uuid \<Rightarrow> db \<Rightarrow> outbound option" where
  "pending_of [] run d = None"
| "pending_of (p # ps) run d =
     (case get_unconfirmed_outbound run p 0 d of None \<Rightarrow> pending_of ps run d | Some ob \<Rightarrow> Some ob)"

definition load_delivery_review_snapshot :: "uuid \<Rightarrow> uuid \<Rightarrow> db \<Rightarrow> (outbound \<times> nat) option" where
  "load_delivery_review_snapshot run email d =
     map_option (\<lambda>ob. (ob, length (filter (\<lambda>a. fst a = ob_snapshot ob) (db_deliveries d)))) (lock_frozen_snapshot run email d)"

definition load_delivery_review :: "purpose list \<Rightarrow> uuid \<Rightarrow> db \<Rightarrow> delivery_review option" where
  "load_delivery_review order run d =
     (case load_run run d of
        None \<Rightarrow> None
      | Some r \<Rightarrow>
          (case (if status r = NEEDS_OPERATOR then Option.bind (error_reason r) review_marker else None) of
             None \<Rightarrow> None
           | Some k \<Rightarrow>
               (case Option.bind (error_detail r) (removeprefix ''delivery_review:'') of
                  None \<Rightarrow> None
                | Some category \<Rightarrow>
                    if category \<notin> fst ` set DELIVERY_REVIEW_CATEGORIES then None
                    else (case pending_of (review_purposes order k) run d of
                            None \<Rightarrow> None
                          | Some pending \<Rightarrow>
                              (case load_delivery_review_snapshot run (ob_email pending) d of
                                 None \<Rightarrow> None
                               | Some (ob, n) \<Rightarrow>
                                   if ob_purpose ob \<in> set (review_purposes order k) \<and> n \<le> 100
                                   then Some \<lparr>dr_category = category, dr_kind = k, dr_slot = ob, dr_attempts = n\<rparr>
                                   else None)))))"

definition is_delivery_review_marker :: "payroll_run option \<Rightarrow> bool" where
  "is_delivery_review_marker run =
     (case run of None \<Rightarrow> False
      | Some r \<Rightarrow> status r = NEEDS_OPERATOR \<and> Option.bind (error_reason r) review_marker \<noteq> None)"

text \<open>The review the action is for, and its mail.\<close>

definition review_slot :: "review_kind \<Rightarrow> purpose list \<Rightarrow> uuid \<Rightarrow> db \<Rightarrow> outbound option" where
  "review_slot k order run d =
     (case load_delivery_review order run d of
        None \<Rightarrow> None
      | Some v \<Rightarrow> if dr_kind v = k then Some (dr_slot v) else None)"

text \<open>\<open>except Exception\<close> around the transaction: the fixed notice, and nothing committed.\<close>

definition or_notice :: "string \<Rightarrow> (response \<times> db) res \<Rightarrow> db \<Rightarrow> response \<times> db" where
  "or_notice code x d = (case x of Inl e \<Rightarrow> (Notice code, d) | Inr y \<Rightarrow> y)"

subsection \<open>Advancing a delivery job\<close>

datatype advance_outcome = AdvanceMissing | AdvanceExpired | AdvanceNotPending | AdvanceDone

definition send_job_of :: "uuid \<Rightarrow> uuid \<Rightarrow> db \<Rightarrow> job option" where
  "send_job_of run email d =
     first_match (\<lambda>j. job_kind_of j = SendOutbound \<and> job_run_id j = Some run \<and> job_email_id j = Some email) (db_jobs d)"

definition in_review :: "uuid \<Rightarrow> string \<Rightarrow> db \<Rightarrow> bool" where
  "in_review run why d \<longleftrightarrow> (case load_run run d of None \<Rightarrow> False | Some r \<Rightarrow> status r = NEEDS_OPERATOR \<and> error_reason r = Some why)"

definition advance_job :: "instant \<Rightarrow> job \<Rightarrow> db \<Rightarrow> advance_outcome \<times> db" where
  "advance_job now j d =
     (let (hit, js) = advance_due_now now (job_id j) (db_jobs d)
      in (if hit then AdvanceDone else AdvanceNotPending, d\<lparr>db_jobs := js\<rparr>))"

definition advance_existing_send_job_due_now :: "instant \<Rightarrow> uuid \<Rightarrow> uuid \<Rightarrow> db \<Rightarrow> advance_outcome \<times> db" where
  "advance_existing_send_job_due_now now run email d =
     (case send_job_of run email d of
        None \<Rightarrow> (AdvanceMissing, d)
      | Some j \<Rightarrow>
          if job_state j \<noteq> Pending then (AdvanceNotPending, d)
          else (case lock_frozen_snapshot run email d of
                  None \<Rightarrow> (AdvanceMissing, d)
                | Some ob \<Rightarrow>
                    if ob_purpose ob \<noteq> PurposeConfirmation \<or> ob_state ob \<noteq> Reserved then (AdvanceMissing, d)
                    else if \<not> replay_window_open now ob then (AdvanceExpired, d)
                    else if \<not> in_review run ''DeliveryReview'' d then (AdvanceMissing, d)
                    else advance_job now j d))"

definition advance_existing_clarification_delivery_review_job_due_now :: "instant \<Rightarrow> uuid \<Rightarrow> uuid \<Rightarrow> db \<Rightarrow> advance_outcome \<times> db" where
  "advance_existing_clarification_delivery_review_job_due_now now run email d =
     (case send_job_of run email d of
        None \<Rightarrow> (AdvanceMissing, d)
      | Some j \<Rightarrow>
          if job_state j \<noteq> Pending then (AdvanceNotPending, d)
          else (case lock_frozen_snapshot run email d of
                  None \<Rightarrow> (AdvanceMissing, d)
                | Some ob \<Rightarrow>
                    if \<not> replay_window_open now ob then (AdvanceExpired, d)
                    else if ob_purpose ob = PurposeConfirmation \<or> ob_state ob \<noteq> Reserved then (AdvanceMissing, d)
                    else if \<not> in_review run ''ClarificationDeliveryReview'' d then (AdvanceMissing, d)
                    else advance_job now j d))"

subsection \<open>The actions of a review\<close>

definition advance_notice :: "advance_outcome \<Rightarrow> response" where
  "advance_notice out = (case out of AdvanceMissing \<Rightarrow> Notice ''retry_missing'' | AdvanceExpired \<Rightarrow> Notice ''retry_expired''
     | AdvanceNotPending \<Rightarrow> Notice ''retry_not_pending'' | AdvanceDone \<Rightarrow> Redirect)"

definition retry_now :: "review_kind \<Rightarrow> (uuid \<Rightarrow> uuid \<Rightarrow> db \<Rightarrow> advance_outcome \<times> db) \<Rightarrow> purpose list \<Rightarrow> uuid \<Rightarrow> db \<Rightarrow> response \<times> db" where
  "retry_now k advance order run d =
     (case review_slot k order run d of
        None \<Rightarrow> (Notice ''review_unavailable'', d)
      | Some ob \<Rightarrow> (let (out, d1) = advance run (ob_email ob) d in (advance_notice out, d1)))"

definition retry_delivery_now :: "instant \<Rightarrow> purpose list \<Rightarrow> uuid \<Rightarrow> db \<Rightarrow> response \<times> db" where
  "retry_delivery_now now = retry_now ReviewConfirmation (advance_existing_send_job_due_now now)"

definition retry_clarification_delivery_now :: "instant \<Rightarrow> purpose list \<Rightarrow> uuid \<Rightarrow> db \<Rightarrow> response \<times> db" where
  "retry_clarification_delivery_now now = retry_now ReviewClarification (advance_existing_clarification_delivery_review_job_due_now now)"

definition finish_clarification_delivery_review :: "instant \<Rightarrow> run_status \<Rightarrow> bool \<Rightarrow> purpose list \<Rightarrow> uuid \<Rightarrow> db \<Rightarrow> response \<times> db" where
  "finish_clarification_delivery_review now target acknowledge order run d =
     (case review_slot ReviewClarification order run d of
        None \<Rightarrow> (Notice ''review_unavailable'', d)
      | Some ob \<Rightarrow>
          (case cas_run run NEEDS_OPERATOR (set_status target) d of
             (False, d1) \<Rightarrow> (Notice ''review_state_changed'', d)
           | (True, d1) \<Rightarrow> (Redirect, if acknowledge then snd (mark_outbound_operator_acknowledged now run (ob_email ob) d1) else d1)))"

definition mark_clarification_delivery_handled :: "instant \<Rightarrow> purpose list \<Rightarrow> uuid \<Rightarrow> db \<Rightarrow> response \<times> db" where
  "mark_clarification_delivery_handled now = finish_clarification_delivery_review now AWAITING_REPLY True"

definition reject_clarification_delivery :: "instant \<Rightarrow> purpose list \<Rightarrow> uuid \<Rightarrow> db \<Rightarrow> response \<times> db" where
  "reject_clarification_delivery now = finish_clarification_delivery_review now REJECTED False"

definition mark_delivery_delivered :: "instant \<Rightarrow> purpose list \<Rightarrow> uuid \<Rightarrow> db \<Rightarrow> response \<times> db" where
  "mark_delivery_delivered now order run d =
     (case review_slot ReviewConfirmation order run d of
        None \<Rightarrow> (Notice ''review_unavailable'', d)
      | Some ob \<Rightarrow>
          (case cas_run run NEEDS_OPERATOR (set_status RECONCILED) d of
             (False, d1) \<Rightarrow> (Notice ''review_state_changed'', d)
           | (True, d1) \<Rightarrow>
               or_notice ''review_unavailable''
                 (bind_res (resolve_handoff_for_review now run (ob_email ob) (ob_snapshot ob) ReleaseFinalized d1) (\<lambda>(resolved_it, d2).
                    guard_res resolved_it ValueError (Redirect, d2))) d))"

text \<open>\<open>clear_reply_context\<close> on the table: the lock, the fence, the columns and the next epoch.\<close>

definition clear_reply_context_on :: "uuid \<Rightarrow> db \<Rightarrow> (nat \<times> db) res" where
  "clear_reply_context_on run d =
     (case load_run run d of
        None \<Rightarrow> Inl RuntimeError
      | Some r \<Rightarrow>
          bind_res (clear_reply_context (active_handoff_of run (db_handoffs d) \<noteq> None) r) (\<lambda>r'.
          Inr (reply_epoch r', update_run run (\<lambda>_. r') d)))"

definition new_confirmation :: "instant \<Rightarrow> int \<Rightarrow> slot_ids \<Rightarrow> uuid \<Rightarrow> outbound \<Rightarrow> db \<Rightarrow> (response \<times> db) res" where
  "new_confirmation now cfg ids run ob d =
     bind_res (resolve_handoff_for_review now run (ob_email ob) (ob_snapshot ob) ReleaseReview d) (\<lambda>(resolved_it, d2).
     if \<not> resolved_it then Inl ValueError
     else (case lock_frozen_snapshot run (ob_email ob) d2 of
             None \<Rightarrow> Inl ValueError
           | Some original \<Rightarrow>
               bind_res (clear_reply_context_on run d2) (\<lambda>(epoch, d3).
               bind_res (reserve_outbound_snapshot now ids run PurposeConfirmation 0 (ob_envelope original) d3) (\<lambda>(fresh, d4).
               bind_res (enqueue_send now cfg (sl_job ids) run (ob_email fresh) d4) (\<lambda>d5. Inr (Redirect, d5))))))"

definition NEW_CONFIRMATION_ACKNOWLEDGEMENT :: string where
  "NEW_CONFIRMATION_ACKNOWLEDGEMENT = ''AUTHORIZE A NEW CONFIRMATION''"

definition authorize_new_confirmation :: "instant \<Rightarrow> int \<Rightarrow> slot_ids \<Rightarrow> string \<Rightarrow> purpose list \<Rightarrow> uuid \<Rightarrow> db \<Rightarrow> response \<times> db" where
  "authorize_new_confirmation now cfg ids acknowledgement order run d =
     (if acknowledgement \<noteq> NEW_CONFIRMATION_ACKNOWLEDGEMENT then (Notice ''authorize_bad_ack'', d)
      else (case review_slot ReviewConfirmation order run d of
              None \<Rightarrow> (Notice ''review_unavailable'', d)
            | Some ob \<Rightarrow>
                (case cas_run run NEEDS_OPERATOR (set_status APPROVED) d of
                   (False, d1) \<Rightarrow> (Notice ''review_state_changed'', d)
                 | (True, d1) \<Rightarrow> or_notice ''review_unavailable'' (new_confirmation now cfg ids run ob d1) d)))"

subsection \<open>Resolving names\<close>

text \<open>The form: the posted employee of the \<open>i\<close>-th open name, and whether its box is ticked.\<close>

fun posted_choices :: "string list \<Rightarrow> (nat \<Rightarrow> string option \<times> bool) \<Rightarrow> nat \<Rightarrow> string list
    \<Rightarrow> (string, string) dict \<times> (string, bool) dict \<Rightarrow> ((string, string) dict \<times> (string, bool) dict) option" where
  "posted_choices ids form i [] acc = Some acc"
| "posted_choices ids form i (t # ts) (ovs, rem) =
     (case form i of
        (None, b) \<Rightarrow> None
      | (Some posted, b) \<Rightarrow>
          if posted \<notin> set ids then None
          else posted_choices ids form (Suc i) ts (AList.update t posted ovs, AList.update t b rem))"

definition commit_and_enqueue :: "job_source \<Rightarrow> uuid \<Rightarrow> uuid \<Rightarrow> (string, string) dict \<Rightarrow> (string, bool) dict \<Rightarrow> db \<Rightarrow> (submission \<times> db) res" where
  "commit_and_enqueue js run i ovs rem d =
     bind_res (commit_operator_resume_resolution run i ovs rem d) (\<lambda>(sub, d1).
     bind_res (enqueue_on (jb_now js) (jb_cfg js) (jb_id js)
         (plain_request OperatorResume (operator_resume_dedup_key run i) run None (Some i)) d1) (\<lambda>(k, d2).
     Inr (sub, d2)))"

definition resolve :: "job_source \<Rightarrow> uuid \<Rightarrow> (nat \<Rightarrow> string option \<times> bool) \<Rightarrow> uuid \<Rightarrow> db \<Rightarrow> response res \<times> db" where
  "resolve js i form run d =
     (case load_run run d of
        None \<Rightarrow> (Inr NotFound, d)
      | Some r \<Rightarrow>
          if status r \<noteq> NEEDS_OPERATOR then (Inr (Notice ''resolve_not_needs_operator''), d)
          else if is_delivery_review_marker (Some r) then (Inr (Notice ''resolve_delivery_review''), d)
          else (let tokens = (case decision_data r of None \<Rightarrow> [] | Some dec \<Rightarrow> unresolved_names dec)
                in if tokens = [] then (Inr (Notice ''resolve_nothing_unresolved''), d)
                   else (case load_roster_for_business (business_id r) (db_staff d) of
                           Inl e \<Rightarrow> (Inr (Notice ''resolve_roster_unavailable''), d)
                         | Inr ros \<Rightarrow>
                             (case posted_choices (map (uuid_str \<circ> emp_id) (roster_employees ros)) form 0 tokens ([], []) of
                                None \<Rightarrow> (Inr (Notice ''resolve_invalid_employee''), d)
                              | Some (ovs, rem) \<Rightarrow>
                                  (case commit_and_enqueue js run i ovs rem d of
                                     Inl e \<Rightarrow> (if e = ValueError then Inr (Notice ''resolve_superseded_conflict'') else Inl e, d)
                                   | Inr (sub, d1) \<Rightarrow> (Inr (if sb_authoritative sub then Redirect else SupersededRedirect), d1))))))"

subsection \<open>Sending a run round again\<close>

text \<open>\<open>old\<close>: the row was last written more than fifteen minutes ago.\<close>

definition claim_stale_in_flight :: "bool \<Rightarrow> uuid \<Rightarrow> db \<Rightarrow> bool \<times> db" where
  "claim_stale_in_flight old run d =
     (case load_run run d of
        None \<Rightarrow> (False, d)
      | Some r \<Rightarrow>
          if \<not> (old \<and> status r \<in> {RECEIVED, EXTRACTING, COMPUTED, SENT}) then (False, d)
          else if status r = RECEIVED then (True, d)
          else cas_run run (status r) (set_status RECEIVED) d)"

definition claim_for_retrigger :: "bool \<Rightarrow> uuid \<Rightarrow> db \<Rightarrow> bool \<times> db" where
  "claim_for_retrigger old run d =
     (case cas_run run ERROR (set_status RECEIVED) d of
        (True, d1) \<Rightarrow> (True, d1)
      | (False, d1) \<Rightarrow>
          (case cas_run run APPROVED (set_status RECEIVED) d1 of
             (True, d2) \<Rightarrow> (True, d2)
           | (False, d2) \<Rightarrow> claim_stale_in_flight old run d2))"

text \<open>Only the error of the provider fence is caught; any other leaves the route.\<close>

definition retrigger :: "job_source \<Rightarrow> bool \<Rightarrow> uuid \<Rightarrow> db \<Rightarrow> response res \<times> db" where
  "retrigger js old run d =
     (if is_delivery_review_marker (load_run run d) then (Inr (Notice ''retrigger_delivery_review''), d)
      else (case claim_for_retrigger old run d of
              (False, d1) \<Rightarrow> (Inr Redirect, d)
            | (True, d1) \<Rightarrow>
                if active_handoff_of run (db_handoffs d1) \<noteq> None then (Inr (Notice ''retrigger_active_handoff''), d)
                else (case bind_res (clear_reply_context_on run d1) (\<lambda>(epoch, d2).
                             enqueue_on (jb_now js) (jb_cfg js) (jb_id js) (plain_request RunPipeline (run_pipeline_key run epoch) run None None) d2) of
                        Inl e \<Rightarrow> (Inl e, d)
                      | Inr (k, d3) \<Rightarrow> (Inr Redirect, d3))))"

subsection \<open>A simulated reply\<close>

definition simulate_reply :: "job_source \<Rightarrow> uuid \<Rightarrow> string \<Rightarrow> string \<Rightarrow> uuid \<Rightarrow> db \<Rightarrow> response \<times> db" where
  "simulate_reply js i mid body run d =
     (case load_run run d of
        None \<Rightarrow> (NotFound, d)
      | Some r \<Rightarrow>
          if status r \<noteq> AWAITING_REPLY then (Redirect, d)
          else (let sent = get_outbound_message_id run PurposeClarification d;
                    asked = (if truthy sent then sent else get_operator_acknowledged_message_id run PurposeClarification d)
                in if \<not> truthy asked then (Notice ''reply_no_proof'', d)
                   else (case load_inbound_email run d of
                           Inr (Some m) \<Rightarrow>
                             (let reply = \<lparr>ml_message_id = mid, ml_in_reply_to = asked, ml_references = asked,
                                    ml_subject = ''Re: '' @ (if ml_subject m = [] then ''your payroll question'' else ml_subject m),
                                    ml_from = ml_from m, ml_to = ml_to m, ml_body = body\<rparr>
                              in (case persist_and_enqueue_reply js i reply (clean_body body) d of
                                    Inl e \<Rightarrow> (Notice ''reply_enqueue_failed'', d)
                                  | Inr (out, d1) \<Rightarrow> (Redirect, d1)))
                         | _ \<Rightarrow> (Notice ''reply_missing_source'', d))))"

subsection \<open>Which failed deliveries an operator can act on\<close>

lemma cas_run_miss: "\<not> fst (cas_run run s f d) \<Longrightarrow> snd (cas_run run s f d) = d"
proof -
  have "update_rows p f rs = rs" if "\<forall>r \<in> set rs. \<not> p r" for p f and rs :: "payroll_run list"
    using that by (induction rs) (simp_all add: update_rows_def)
  then show "\<not> fst (cas_run run s f d) \<Longrightarrow> snd (cas_run run s f d) = d"
    by (simp add: cas_run_fst cas_run_snd)
qed

lemma settle_delivery_review_Inr:
  assumes "settle_delivery_review now c result run ob expected d = Inr (out, d')" "db_ok d" "load_run run d = Some r"
  shows "load_run run d' = Some (to_review (ob_purpose ob) (delivery_failure_category (reason result)) r) \<and> status r = expected
    \<and> db_outbound d' = db_outbound d \<and> db_handoffs d' = db_handoffs d \<and> db_inbox d' = db_inbox d
    \<and> db_deliveries d' = db_deliveries d @ [(ob_snapshot ob, AttemptNeedsOperator, delivery_failure_category (reason result))]
    \<and> db_jobs d' = update_rows (held (cj_id c) (cj_token c)) (finish_row now Done (Some (diagnostic_code result))) (db_jobs d)"
proof -
  let ?cat = "delivery_failure_category (reason result)"
  let ?d0 = "append_delivery_attempt (ob_snapshot ob) AttemptNeedsOperator ?cat d"
  let ?f = "to_review (ob_purpose ob) ?cat"
  have claim: "fst (cas_run run expected ?f ?d0)"
    and d': "d' = snd (cas_job (cj_id c) (cj_token c) (finish_row now Done (Some (diagnostic_code result))) (snd (cas_run run expected ?f ?d0)))"
    using assms(1) by (auto simp: settle_delivery_review_def Let_def res_simps)
  have d0: "load_run run ?d0 = Some r" "db_ok ?d0" using assms(2,3) by (simp_all add: append_delivery_attempt_def load_run_def db_ok_def)
  have "status r = expected" using claim cas_run_iff [OF d0(2,1)] by blast
  moreover have "load_run run (snd (cas_run run expected ?f ?d0)) = Some (?f r)"
    using load_run_cas [OF d0(1), of ?f expected] \<open>status r = expected\<close> by (simp add: to_review_def)
  moreover have "load_run run d' = load_run run (snd (cas_run run expected ?f ?d0))"
    by (rule load_run_cong) (simp add: d' cas_job_snd)
  ultimately show ?thesis by (simp add: d' cas_job_snd cas_run_snd append_delivery_attempt_def)
qed

lemma review_marker_reason [simp]:
  "review_marker (review_reason p) = Some (if p = PurposeConfirmation then ReviewConfirmation else ReviewClarification)"
  by (simp add: review_marker_def review_reason_def)

lemma detail_category [simp]: "removeprefix ''delivery_review:'' (''delivery_review:'' @ c) = Some c"
  by (simp add: removeprefix_def)

lemma category_known: "delivery_failure_category r \<in> fst ` set DELIVERY_REVIEW_CATEGORIES"
  by (cases r) (simp_all add: delivery_failure_category_def DELIVERY_REVIEW_CATEGORIES_def)

text \<open>Every category a settlement or the reaper writes has its row, no row is for anything else,
  and exactly the rows with both actions open name nothing that blocks them.\<close>

lemma categories_are_the_produced_ones:
  "set (map fst DELIVERY_REVIEW_CATEGORIES) = insert ''final_attempt_lease_expired'' (set all_producer_failure_categories)
   \<and> list_all (\<lambda>(k, c). ct_blocker c = None \<longleftrightarrow> ct_replay_same_ok c \<and> ct_fresh_send_ok c) DELIVERY_REVIEW_CATEGORIES"
  by (auto simp: DELIVERY_REVIEW_CATEGORIES_def all_producer_failure_categories_def all_reasons_def delivery_failure_category_def open_category_def)

lemma pending_None: "pending_of ps run d = None \<longleftrightarrow> (\<forall>p \<in> set ps. get_unconfirmed_outbound run p 0 d = None)"
  by (induction ps) (simp_all split: option.split)

lemma unconfirmed_None:
  "get_unconfirmed_outbound run p n d = None \<longleftrightarrow>
    (\<forall>ob \<in> set (db_outbound d). \<not> (of_epoch run p d ob \<and> ob_round ob = n \<and> ob_state ob \<in> {Reserved, SendFailed}))"
  by (simp add: get_unconfirmed_outbound_def latest_None)

text \<open>The mail of a question after the first one failed: the run waits for an operator, but the review looks for
  round zero and finds nothing, so every action of the review is unavailable, and the marker on
  the run closes the two other ways out, resolving and sending round again.\<close>

theorem later_question_review_is_unreachable:
  assumes "settle_delivery_review now c result run ob AWAITING_REPLY d = Inr (out, d')" "db_ok d" "load_run run d = Some r"
    "ob_purpose ob \<noteq> PurposeConfirmation"
    "\<forall>o' \<in> set (db_outbound d). ob_run o' = run \<and> ob_purpose o' \<noteq> PurposeConfirmation \<and> ob_round o' = 0 \<longrightarrow> ob_state o' = MailSent"
  shows "load_delivery_review order run d' = None
    \<and> retry_clarification_delivery_now t order run d' = (Notice ''review_unavailable'', d')
    \<and> mark_clarification_delivery_handled t order run d' = (Notice ''review_unavailable'', d')
    \<and> reject_clarification_delivery t order run d' = (Notice ''review_unavailable'', d')
    \<and> resolve js i form run d' = (Inr (Notice ''resolve_delivery_review''), d')
    \<and> retrigger js old run d' = (Inr (Notice ''retrigger_delivery_review''), d')"
proof -
  note s = settle_delivery_review_Inr [OF assms(1-3)]
  have "get_unconfirmed_outbound run p 0 d' = None" if "p \<noteq> PurposeConfirmation" for p
    unfolding unconfirmed_None using assms(5) s that by (auto simp: of_epoch_def)
  then have "pending_of (review_purposes order ReviewClarification) run d' = None"
    by (simp add: pending_None review_purposes_def)
  then have none: "load_delivery_review order run d' = None"
    using s assms(4) by (simp add: load_delivery_review_def to_review_def split: option.split)
  have mark: "is_delivery_review_marker (load_run run d')" using s by (simp add: is_delivery_review_marker_def to_review_def)
  show ?thesis
    using none mark s by (simp add: retry_clarification_delivery_now_def retry_now_def mark_clarification_delivery_handled_def
        reject_clarification_delivery_def finish_clarification_delivery_review_def review_slot_def resolve_def retrigger_def to_review_def)
qed

text \<open>The one mail of a slot, found by its identifier.\<close>

lemma slot_by_email:
  assumes "outbox_ok d" "ob \<in> set (db_outbound d)" "ob_run ob = run"
  shows "lock_frozen_snapshot run (ob_email ob) d = Some ob"
proof (cases "lock_frozen_snapshot run (ob_email ob) d")
  case None
  then show ?thesis using assms(2,3) unfolding lock_frozen_snapshot_def first_match_None by auto
next
  case (Some o')
  have "o' = ob"
    by (rule distinct_key [of ob_email "db_outbound d"])
      (use assms Some in \<open>auto simp: outbox_ok_def lock_frozen_snapshot_def dest: first_match_SomeD\<close>)
  with Some show ?thesis by simp
qed

lemma unconfirmed_slot:
  assumes "outbox_ok d" "ob \<in> set (db_outbound d)" "in_slot run p n e ob" "run_epoch run d = Some e" "ob_state ob = Reserved"
  shows "get_unconfirmed_outbound run p n d = Some ob"
proof (cases "get_unconfirmed_outbound run p n d")
  case None
  then show ?thesis using assms(2-5) unfolding unconfirmed_None by (auto simp: of_epoch_def in_slot_def)
next
  case (Some o')
  then have "o' \<in> set (db_outbound d)" "in_slot run p n e o'"
    using latest_Some [OF Some [unfolded get_unconfirmed_outbound_def]] assms(4) by (auto simp: of_epoch_def in_slot_def)
  then have "o' = ob" using assms(1-3) distinct_key [of slot_key "db_outbound d" o' ob] by (auto simp: outbox_ok_def in_slot_key)
  with Some show ?thesis by simp
qed

text \<open>The confirmation of a run failed for good: its review shows that very mail with the category of the failure,
  and \<open>retry now\<close> can never queue it, because the settlement that opened the review has closed the job.\<close>

theorem confirmation_review_shows_the_failure:
  assumes "settle_delivery_review now c result run ob APPROVED d = Inr (out, d')" "db_ok d" "load_run run d = Some r"
    "outbox_ok d" "ob \<in> set (db_outbound d)" "in_slot run PurposeConfirmation 0 (reply_epoch r) ob" "ob_state ob = Reserved"
    "length (filter (\<lambda>a. fst a = ob_snapshot ob) (db_deliveries d)) < 100"
    "send_job_of run (ob_email ob) d = Some j" "held (cj_id c) (cj_token c) j"
  shows "\<exists>v. load_delivery_review order run d' = Some v \<and> dr_kind v = ReviewConfirmation \<and> dr_slot v = ob
      \<and> dr_category v = delivery_failure_category (reason result)
      \<and> retry_delivery_now t order run d' = (Notice ''retry_not_pending'', d')"
proof -
  note s = settle_delivery_review_Inr [OF assms(1-3)]
  have p: "ob_purpose ob = PurposeConfirmation" "ob_run ob = run" using assms(6) by (simp_all add: in_slot_def)
  have ok: "outbox_ok d'" using assms(4) s by (simp add: outbox_ok_def message_ids_def)
  have "get_unconfirmed_outbound run PurposeConfirmation 0 d' = Some ob"
    by (rule unconfirmed_slot [OF ok]) (use assms(5-7) s in \<open>simp_all add: run_epoch_def to_review_def\<close>)
  moreover have slot: "lock_frozen_snapshot run (ob_email ob) d' = Some ob" by (rule slot_by_email [OF ok]) (use assms(5) p s in simp_all)
  moreover have "length (filter (\<lambda>a. fst a = ob_snapshot ob) (db_deliveries d')) \<le> 100" using assms(8) s by simp
  moreover have "load_run run d' = Some (to_review PurposeConfirmation (delivery_failure_category (reason result)) r)" using s p by simp
  ultimately have v: "load_delivery_review order run d' = Some \<lparr>dr_category = delivery_failure_category (reason result),
      dr_kind = ReviewConfirmation, dr_slot = ob, dr_attempts = length (filter (\<lambda>a. fst a = ob_snapshot ob) (db_deliveries d'))\<rparr>"
    using category_known [of "reason result"] p(1)
    by (simp add: load_delivery_review_def to_review_def review_purposes_def load_delivery_review_snapshot_def removeprefix_def)
  have "send_job_of run (ob_email ob) d' = Some (finish_row now Done (Some (diagnostic_code result)) j)"
    using s assms(9,10) unfolding send_job_of_def
    by (simp add: first_match_update finish_row_def settle_row_def)
  then have "advance_existing_send_job_due_now t run (ob_email ob) d' = (AdvanceNotPending, d')"
    by (simp add: advance_existing_send_job_due_now_def finish_row_def settle_row_def)
  with v show ?thesis by (simp add: retry_delivery_now_def retry_now_def review_slot_def advance_notice_def)
qed

subsection \<open>Sending a run round again\<close>

lemma claim_for_retrigger_cases:
  assumes "db_ok d" "load_run run d = Some r"
  shows "if status r \<in> {ERROR, APPROVED} \<or> old \<and> status r \<in> {RECEIVED, EXTRACTING, COMPUTED, SENT}
    then \<exists>d1. claim_for_retrigger old run d = (True, d1) \<and> load_run run d1 = Some (set_status RECEIVED r)
      \<and> db_handoffs d1 = db_handoffs d \<and> db_jobs d1 = db_jobs d \<and> db_outbound d1 = db_outbound d
    else \<exists>d1. claim_for_retrigger old run d = (False, d1)"
proof -
  have cas: "\<exists>d1. cas_run run s (set_status RECEIVED) d = (status r = s, d1) \<and> (status r \<noteq> s \<longrightarrow> d1 = d)
      \<and> (status r = s \<longrightarrow> load_run run d1 = Some (set_status RECEIVED r))
      \<and> db_handoffs d1 = db_handoffs d \<and> db_jobs d1 = db_jobs d \<and> db_outbound d1 = db_outbound d" for s
    using cas_run_iff [OF assms, of s "set_status RECEIVED"] cas_run_miss [of run s "set_status RECEIVED" d]
      load_run_cas [OF assms(2), of "set_status RECEIVED" s] cas_run_snd [of run s "set_status RECEIVED" d]
    by (cases "cas_run run s (set_status RECEIVED) d") (auto simp: set_status_def)
  have same: "set_status RECEIVED r = r" if "status r = RECEIVED" using that by (cases r) (simp add: set_status_def)
  obtain e where e: "cas_run run ERROR (set_status RECEIVED) d = (status r = ERROR, e)" "status r \<noteq> ERROR \<Longrightarrow> e = d"
    "status r = ERROR \<Longrightarrow> load_run run e = Some (set_status RECEIVED r)"
    "db_handoffs e = db_handoffs d" "db_jobs e = db_jobs d" "db_outbound e = db_outbound d" using cas by blast
  obtain a where a: "cas_run run APPROVED (set_status RECEIVED) d = (status r = APPROVED, a)" "status r \<noteq> APPROVED \<Longrightarrow> a = d"
    "status r = APPROVED \<Longrightarrow> load_run run a = Some (set_status RECEIVED r)"
    "db_handoffs a = db_handoffs d" "db_jobs a = db_jobs d" "db_outbound a = db_outbound d" using cas by blast
  obtain i where i: "cas_run run (status r) (set_status RECEIVED) d = (True, i)" "load_run run i = Some (set_status RECEIVED r)"
    "db_handoffs i = db_handoffs d" "db_jobs i = db_jobs d" "db_outbound i = db_outbound d" using cas [of "status r"] by auto
  consider "status r = ERROR" | "status r = APPROVED" | "status r \<noteq> ERROR" "status r \<noteq> APPROVED" by blast
  then show ?thesis
  proof cases
    case 3
    have c: "claim_for_retrigger old run d = (if \<not> (old \<and> status r \<in> {RECEIVED, EXTRACTING, COMPUTED, SENT}) then (False, d)
        else if status r = RECEIVED then (True, d) else (True, i))"
      using 3 e(1,2) a(1,2) assms(2) i(1) by (simp add: claim_for_retrigger_def claim_stale_in_flight_def)
    show ?thesis
    proof (cases "old \<and> status r \<in> {RECEIVED, EXTRACTING, COMPUTED, SENT}")
      case True
      then show ?thesis using 3 c assms(2) i same by (cases "status r = RECEIVED") simp_all
    qed (use 3 c in auto)
  qed (use e a in \<open>simp_all add: claim_for_retrigger_def\<close>)
qed

lemma enqueue_run_pipeline:
  assumes "enqueue_on now cfg jid (plain_request RunPipeline key run None None) d = Inr (k, d')"
  shows "key \<in> dedup_key ` set (db_jobs d') \<and> (\<exists>new. d' = d\<lparr>db_jobs := db_jobs d @ new\<rparr>)"
proof -
  have "\<exists>new. d' = d\<lparr>db_jobs := db_jobs d @ new\<rparr> \<and> key \<in> dedup_key ` set (db_jobs d @ new)"
    using assms by (auto simp: enqueue_on_def enqueue_job_def res_simps plain_request_def image_iff intro: exI [of _ "[]"] split: if_splits)
  then show ?thesis by auto
qed

lemma enqueue_run_pipeline_total: "\<exists>k d'. enqueue_on now cfg jid (plain_request RunPipeline key run None None) d = Inr (k, d')"
  by (simp add: enqueue_on_def enqueue_job_def plain_request_def bad_context_def delay_micros_def seconds_def attempt_ceiling_def)

lemma clear_reply_context_on_eq:
  assumes "load_run run d = Some r" "active_handoff_of run (db_handoffs d) = None"
  shows "clear_reply_context_on run d =
    Inr (reply_epoch r + 1, update_run run (\<lambda>_. (clear_reply_columns r)\<lparr>reply_epoch := reply_epoch r + 1\<rparr>) d)"
  using assms by (simp add: clear_reply_context_on_def clear_reply_context_def)


subsection \<open>Authorizing a new confirmation\<close>

lemma review_slot_Some:
  assumes "review_slot k order run d = Some ob"
  shows "lock_frozen_snapshot run (ob_email ob) d = Some ob \<and> ob_run ob = run \<and> ob_purpose ob \<in> set (review_purposes order k)"
proof -
  obtain v where v: "load_delivery_review order run d = Some v" "dr_kind v = k" "dr_slot v = ob"
    using assms by (auto simp: review_slot_def split: option.splits if_splits)
  obtain pending :: outbound and n where s: "load_delivery_review_snapshot run (ob_email pending) d = Some (ob, n)" "ob_purpose ob \<in> set (review_purposes order k)"
    using v by (auto simp: load_delivery_review_def split: option.splits if_splits)
  have l: "lock_frozen_snapshot run (ob_email pending) d = Some ob" using s(1) by (auto simp: load_delivery_review_snapshot_def)
  then have e: "ob_email ob = ob_email pending" "ob_run ob = run"
    using first_match_SomeD [OF l [unfolded lock_frozen_snapshot_def]] by simp_all
  show ?thesis unfolding e(1) using l e(2) s(2) by simp
qed

lemma resolve_handoff_Inr:
  assumes "resolve_handoff_for_review now run email snapshot why d = Inr (True, d')"
  shows "db_runs d' = db_runs d \<and> db_outbound d' = db_outbound d \<and> db_inbox d' = db_inbox d \<and> db_jobs d' = db_jobs d"
  using assms by (auto simp: resolve_handoff_for_review_def split: if_splits option.splits)

lemma reserve_in_free_slot:
  assumes "reserve_outbound_snapshot now ids run p rnd en d = Inr (ob, d')" "run_epoch run d = Some e"
    "\<And>o'. o' \<in> set (db_outbound d) \<Longrightarrow> \<not> in_slot run p (nat rnd) e o'"
  shows "ob = new_slot now ids run p (nat rnd) e en \<and> d' = d\<lparr>db_outbound := db_outbound d @ [ob]\<rparr>"
  using assms(1)
proof (cases rule: reserve_cases)
  case (found e')
  then show ?thesis using assms(2,3) by auto
next
  case (new e')
  then show ?thesis using assms(2) by simp
qed

lemma new_confirmation_Inr:
  assumes "new_confirmation now cfg ids run ob d = Inr q" "load_run run d = Some r" "lock_frozen_snapshot run (ob_email ob) d = Some ob"
    "\<And>o'. o' \<in> set (db_outbound d) \<Longrightarrow> ob_run o' = run \<Longrightarrow> ob_epoch o' \<le> reply_epoch r"
  obtains d' fresh where "q = (Redirect, d')"
    "load_run run d' = Some ((clear_reply_columns r)\<lparr>reply_epoch := reply_epoch r + 1\<rparr>)"
    "fresh = new_slot now ids run PurposeConfirmation 0 (reply_epoch r + 1) (ob_envelope ob)" "fresh \<in> set (db_outbound d')"
    "send_outbound_dedup_key (ob_email fresh) \<in> dedup_key ` set (db_jobs d')"
proof -
  obtain d2 where res: "resolve_handoff_for_review now run (ob_email ob) (ob_snapshot ob) ReleaseReview d = Inr (True, d2)"
    and rest: "(case lock_frozen_snapshot run (ob_email ob) d2 of
       None \<Rightarrow> Inl ValueError
     | Some original \<Rightarrow>
         bind_res (clear_reply_context_on run d2) (\<lambda>(epoch, d3).
         bind_res (reserve_outbound_snapshot now ids run PurposeConfirmation 0 (ob_envelope original) d3) (\<lambda>(fresh, d4).
         bind_res (enqueue_send now cfg (sl_job ids) run (ob_email fresh) d4) (\<lambda>d5. Inr (Redirect, d5))))) = Inr q"
    using assms(1) by (auto simp: new_confirmation_def res_simps split: if_splits)
  note same = resolve_handoff_Inr [OF res]
  have froz: "lock_frozen_snapshot run (ob_email ob) d2 = Some ob" using assms(3) same by (simp add: lock_frozen_snapshot_def)
  have r2: "load_run run d2 = Some r" using assms(2) same load_run_cong [of d2 d] by simp
  let ?r = "(clear_reply_columns r)\<lparr>reply_epoch := reply_epoch r + 1\<rparr>"
  obtain d3 where d3: "d3 = update_run run (\<lambda>_. ?r) d2" by blast
  have "active_handoff_of run (db_handoffs d2) = None"
    using rest froz r2 by (auto simp: clear_reply_context_on_def clear_reply_context_def res_simps split: if_splits)
  then have clear: "clear_reply_context_on run d2 = Inr (reply_epoch r + 1, d3)" using clear_reply_context_on_eq [OF r2] d3 by simp
  obtain fresh d4 d5 where f: "reserve_outbound_snapshot now ids run PurposeConfirmation 0 (ob_envelope ob) d3 = Inr (fresh, d4)"
    and e: "enqueue_send now cfg (sl_job ids) run (ob_email fresh) d4 = Inr d5" and q: "q = (Redirect, d5)"
    using rest froz clear by (auto simp: res_simps)
  have r3: "load_run run d3 = Some ?r" unfolding d3
    by (rule load_run_put [OF r2]) (use load_run_Some [OF assms(2)] in \<open>simp add: clear_reply_columns_def\<close>)
  have "\<not> in_slot run PurposeConfirmation (nat 0) (reply_epoch r + 1) o'" if "o' \<in> set (db_outbound d3)" for o'
    using assms(4) [of o'] that same by (auto simp: in_slot_def d3)
  then have new: "fresh = new_slot now ids run PurposeConfirmation (nat 0) (reply_epoch r + 1) (ob_envelope ob) \<and> d4 = d3\<lparr>db_outbound := db_outbound d3 @ [fresh]\<rparr>"
    using r3 by (intro reserve_in_free_slot [OF f]) (simp_all add: run_epoch_def)
  obtain more where d5: "d5 = d4\<lparr>db_jobs := db_jobs d4 @ more\<rparr>" "send_outbound_dedup_key (ob_email fresh) \<in> dedup_key ` set (db_jobs d5)"
    using enqueue_send_Inr [OF e] by auto
  have "load_run run d5 = load_run run d3" by (rule load_run_cong) (simp add: d5(1) new)
  then show thesis using that [OF q] r3 new d5 by simp
qed

text \<open>The transaction of a new confirmation, from the claimed run to the reserved slot.\<close>

lemma new_confirmation_reserves:
  assumes "db_ok d" "load_run run d = Some r" "\<forall>o' \<in> set (db_outbound d). ob_run o' = run \<longrightarrow> ob_epoch o' \<le> reply_epoch r"
    "lock_frozen_snapshot run (ob_email ob) d = Some ob" "cas_run run NEEDS_OPERATOR (set_status APPROVED) d = (True, d1)"
    "new_confirmation now cfg ids run ob d1 = Inr q"
  shows "\<exists>e fresh r'. q = (Redirect, e) \<and> load_run run e = Some r' \<and> status r' = APPROVED \<and> reply_epoch r' = reply_epoch r + 1
      \<and> fresh \<in> set (db_outbound e) \<and> in_slot run PurposeConfirmation 0 (reply_epoch r + 1) fresh \<and> ob_state fresh = Reserved
      \<and> ob_envelope fresh = ob_envelope ob \<and> send_outbound_dedup_key (ob_email fresh) \<in> dedup_key ` set (db_jobs e)"
proof -
  have d1: "d1 = snd (cas_run run NEEDS_OPERATOR (set_status APPROVED) d)" using assms(5) by simp
  have st: "status r = NEEDS_OPERATOR" using cas_run_iff [OF assms(1,2)] assms(5) by (metis fst_conv)
  have r1: "load_run run d1 = Some (set_status APPROVED r)"
    using load_run_cas [OF assms(2), of "set_status APPROVED" NEEDS_OPERATOR] st d1 by (simp add: set_status_def)
  have same: "db_outbound d1 = db_outbound d" by (simp add: d1 cas_run_snd)
  have froz: "lock_frozen_snapshot run (ob_email ob) d1 = Some ob" using assms(4) same by (simp add: lock_frozen_snapshot_def)
  have old: "ob_epoch o' \<le> reply_epoch (set_status APPROVED r)" if "o' \<in> set (db_outbound d1)" "ob_run o' = run" for o'
    using that assms(3) same by (simp add: set_status_def)
  obtain e fresh where new: "q = (Redirect, e)"
    "load_run run e = Some ((clear_reply_columns (set_status APPROVED r))\<lparr>reply_epoch := reply_epoch (set_status APPROVED r) + 1\<rparr>)"
    "fresh = new_slot now ids run PurposeConfirmation 0 (reply_epoch (set_status APPROVED r) + 1) (ob_envelope ob)"
    "fresh \<in> set (db_outbound e)" "send_outbound_dedup_key (ob_email fresh) \<in> dedup_key ` set (db_jobs e)"
    using new_confirmation_Inr [OF assms(6) r1 froz old] by blast
  have "in_slot run PurposeConfirmation 0 (reply_epoch r + 1) fresh" "ob_state fresh = Reserved" "ob_envelope fresh = ob_envelope ob"
    using new(3) by (simp_all add: in_slot_def set_status_def)
  moreover have "status ((clear_reply_columns (set_status APPROVED r))\<lparr>reply_epoch := n\<rparr>) = APPROVED" for n
    by (simp add: clear_reply_columns_def set_status_def)
  ultimately show ?thesis using new(1,2,4,5) by (auto simp: set_status_def)
qed


subsection \<open>A marker that outlives its review\<close>

text \<open>Once an operator has marked a failed question as handled, the marker of that review stays on the run: when the
  client's answer leaves names open and the rounds are used up, the escalated run can neither be resolved
  nor sent round again.\<close>

theorem handled_review_blocks_the_operator:
  assumes "mark_clarification_delivery_handled t order run d = (Redirect, d1)" "db_ok d"
    "load_run run d1 = Some r1" "load_run run e = Some r" "error_reason r = error_reason r1"
    "clarify u cfg ri run m dec ros x p e = (Inr (), e')" "MAX_CLARIFICATION_ROUNDS \<le> get_clarification_round run e"
  shows "status r1 = AWAITING_REPLY \<and> resolve js i form run e' = (Inr (Notice ''resolve_delivery_review''), e')
    \<and> retrigger js old run e' = (Inr (Notice ''retrigger_delivery_review''), e')"
proof -
  obtain ob where slot: "review_slot ReviewClarification order run d = Some ob"
    using assms(1) by (cases "review_slot ReviewClarification order run d")
      (simp_all add: mark_clarification_delivery_handled_def finish_clarification_delivery_review_def)
  then obtain v where v: "load_delivery_review order run d = Some v" "dr_kind v = ReviewClarification"
    by (auto simp: review_slot_def split: option.splits if_splits)
  then obtain q where q: "load_run run d = Some q" "status q = NEEDS_OPERATOR" "Option.bind (error_reason q) review_marker \<noteq> None"
    by (auto simp: load_delivery_review_def split: option.splits if_splits)
  obtain d0 where d0: "cas_run run NEEDS_OPERATOR (set_status AWAITING_REPLY) d = (True, d0)"
    "d1 = snd (mark_outbound_operator_acknowledged t run (ob_email ob) d0)"
    using assms(1) slot by (auto simp: mark_clarification_delivery_handled_def finish_clarification_delivery_review_def split: prod.splits bool.splits)
  have "load_run run d1 = load_run run d0" by (rule load_run_cong) (simp add: d0(2) mark_outbound_operator_acknowledged_def Let_def)
  moreover have "d0 = snd (cas_run run NEEDS_OPERATOR (set_status AWAITING_REPLY) d)" using d0(1) by simp
  ultimately have r1: "r1 = set_status AWAITING_REPLY q"
    using load_run_cas [OF q(1), of "set_status AWAITING_REPLY" NEEDS_OPERATOR] q(2) assms(3) by (simp add: set_status_def)
  have e': "e' = update_run run (set_status NEEDS_OPERATOR) e" using assms(6,7) by (simp add: clarify_def writing_def)
  have "load_run run e' = Some (set_status NEEDS_OPERATOR r)" unfolding e'
    by (rule load_run_update_same [OF _ assms(4)]) (simp add: set_status_def)
  moreover have "is_delivery_review_marker (Some (set_status NEEDS_OPERATOR r))"
    using q(3) r1 assms(5) by (simp add: is_delivery_review_marker_def set_status_def)
  ultimately show ?thesis using r1 by (simp add: resolve_def retrigger_def set_status_def)
qed

subsection \<open>The operator's table at work\<close>

definition question_slot :: "nat \<Rightarrow> outbound" where
  "question_slot n = new_slot 0 \<lparr>sl_email = 61, sl_snapshot = 62, sl_message_id = ''<q@x>'', sl_job = 63\<rparr> 9 PurposeClarification n 0 sample_envelope"

definition confirmation_slot :: outbound where
  "confirmation_slot = new_slot 0 \<lparr>sl_email = 61, sl_snapshot = 62, sl_message_id = ''<c@x>'', sl_job = 63\<rparr> 9 PurposeConfirmation 0 0 sample_envelope"

definition delivery_job :: job where
  "delivery_job = sample_job\<lparr>job_kind_of := SendOutbound, job_email_id := Some 61\<rparr>"

definition failing_db :: "run_status \<Rightarrow> outbound \<Rightarrow> db" where
  "failing_db s ob = empty_db\<lparr>db_jobs := [claim_row 0 (seconds 900) 11 delivery_job], db_runs := [sample_run\<lparr>status := s\<rparr>], db_outbound := [ob]\<rparr>"

definition failing_claim :: claim where
  "failing_claim = claim_of 11 (claim_row 0 (seconds 900) 11 delivery_job)"

lemma failing_facts:
  "db_ok (failing_db s ob)" "load_run 9 (failing_db s ob) = Some (sample_run\<lparr>status := s\<rparr>)"
  "locked_job failing_claim (failing_db s ob) = Some (claim_row 0 (seconds 900) 11 delivery_job)"
  "db_outbound (failing_db s ob) = [ob]" "db_deliveries (failing_db s ob) = []"
  by (simp_all add: db_ok_def failing_db_def empty_db_def failing_claim_def row_ok_def lease_coherent_def context_ok_def claim_row_def
      claim_of_def delivery_job_def sample_job_def sample_run_def locked_job_def held_def load_run_def)

theorem later_question_review_is_unreachable_witness:
  "\<exists>d'. settle_delivery_review 0 failing_claim default_result 9 (question_slot 1) AWAITING_REPLY (failing_db AWAITING_REPLY (question_slot 1)) = Inr (SettledDone, d')
    \<and> load_delivery_review [PurposeClarification, PurposeFieldRegression] 9 d' = None
    \<and> retrigger sample_source False 9 d' = (Inr (Notice ''retrigger_delivery_review''), d')"
proof -
  obtain d' q where s: "settle_delivery_review 0 failing_claim default_result 9 (question_slot 1) AWAITING_REPLY (failing_db AWAITING_REPLY (question_slot 1)) = Inr (SettledDone, d')"
    by (rule settle_delivery_review_ok [OF failing_facts(1,3,2)]) auto
  have p: "ob_purpose (question_slot 1) \<noteq> PurposeConfirmation" "ob_round (question_slot 1) = 1" by (simp_all add: question_slot_def)
  have "\<forall>o' \<in> set (db_outbound (failing_db AWAITING_REPLY (question_slot 1))). ob_run o' = 9 \<and> ob_purpose o' \<noteq> PurposeConfirmation \<and> ob_round o' = 0 \<longrightarrow> ob_state o' = MailSent"
    using p by (simp add: failing_facts)
  from later_question_review_is_unreachable [OF s failing_facts(1,2) p(1) this] s show ?thesis by blast
qed

theorem confirmation_review_shows_the_failure_witness:
  "\<exists>d' v. settle_delivery_review 0 failing_claim default_result 9 confirmation_slot APPROVED (failing_db APPROVED confirmation_slot) = Inr (SettledDone, d')
    \<and> load_delivery_review [] 9 d' = Some v \<and> dr_slot v = confirmation_slot \<and> retry_delivery_now 5 [] 9 d' = (Notice ''retry_not_pending'', d')"
proof -
  let ?d = "failing_db APPROVED confirmation_slot"
  obtain d' q where s: "settle_delivery_review 0 failing_claim default_result 9 confirmation_slot APPROVED ?d = Inr (SettledDone, d')"
    by (rule settle_delivery_review_ok [OF failing_facts(1,3,2)]) auto
  have slot: "ob_purpose confirmation_slot = PurposeConfirmation" "ob_run confirmation_slot = 9" "ob_round confirmation_slot = 0"
    "ob_epoch confirmation_slot = 0" "ob_state confirmation_slot = Reserved" "ob_email confirmation_slot = 61" by (simp_all add: confirmation_slot_def)
  have "outbox_ok ?d" by (simp add: outbox_ok_def failing_facts message_ids_def) (simp add: failing_db_def empty_db_def)
  moreover have "confirmation_slot \<in> set (db_outbound ?d)" by (simp add: failing_facts)
  moreover have "in_slot 9 PurposeConfirmation 0 (reply_epoch (sample_run\<lparr>status := APPROVED\<rparr>)) confirmation_slot"
    by (simp add: in_slot_def slot sample_run_def)
  moreover have "length (filter (\<lambda>a. fst a = ob_snapshot confirmation_slot) (db_deliveries ?d)) < 100" by (simp add: failing_facts)
  moreover have "send_job_of 9 (ob_email confirmation_slot) ?d = Some (claim_row 0 (seconds 900) 11 delivery_job)"
    by (simp add: send_job_of_def slot failing_db_def claim_row_def delivery_job_def sample_job_def)
  moreover have "held (cj_id failing_claim) (cj_token failing_claim) (claim_row 0 (seconds 900) 11 delivery_job)"
    by (simp add: held_def failing_claim_def claim_row_def claim_of_def)
  ultimately show ?thesis
    using confirmation_review_shows_the_failure [OF s failing_facts(1,2) _ _ _ slot(5), of _ "[]" 5] s by blast
qed

definition review_run :: "purpose \<Rightarrow> payroll_run" where
  "review_run p = to_review p ''transport'' sample_run"

definition review_db :: "outbound \<Rightarrow> db" where
  "review_db ob = empty_db\<lparr>db_runs := [review_run (ob_purpose ob)], db_outbound := [ob]\<rparr>"

lemma review_facts:
  "db_ok (review_db ob)" "load_run 9 (review_db ob) = Some (review_run (ob_purpose ob))" "db_outbound (review_db ob) = [ob]"
  "db_handoffs (review_db ob) = []" "db_deliveries (review_db ob) = []" "db_jobs (review_db ob) = []" "db_inbox (review_db ob) = []"
  by (simp_all add: review_db_def review_run_def to_review_def db_ok_def empty_db_def load_run_def sample_run_def)

lemma review_loaded:
  assumes "ob_state ob = Reserved" "ob_run ob = 9" "ob_round ob = 0" "ob_epoch ob = 0"
  shows "review_slot (if ob_purpose ob = PurposeConfirmation then ReviewConfirmation else ReviewClarification) [ob_purpose ob] 9 (review_db ob) = Some ob"
proof -
  have e: "run_epoch 9 (review_db ob) = Some 0" by (simp add: run_epoch_def review_facts review_run_def to_review_def sample_run_def)
  have g: "get_unconfirmed_outbound 9 (ob_purpose ob) 0 (review_db ob) = Some ob"
    using assms e by (simp add: get_unconfirmed_outbound_def latest_def of_epoch_def review_facts)
  have l: "load_delivery_review_snapshot 9 (ob_email ob) (review_db ob) = Some (ob, 0)"
    using assms by (simp add: load_delivery_review_snapshot_def lock_frozen_snapshot_def review_facts)
  have c: "''transport'' \<in> fst ` set DELIVERY_REVIEW_CATEGORIES" by (simp add: DELIVERY_REVIEW_CATEGORIES_def)
  have row: "load_run 9 (review_db ob) = Some (review_run (ob_purpose ob))" by (rule review_facts)
  show ?thesis
  proof (cases "ob_purpose ob = PurposeConfirmation")
    case True
    with g l c row show ?thesis
      by (simp add: review_slot_def load_delivery_review_def review_run_def to_review_def review_purposes_def removeprefix_def)
  next
    case False
    with g l c row show ?thesis
      by (simp add: review_slot_def load_delivery_review_def review_run_def to_review_def review_purposes_def removeprefix_def)
  qed
qed



theorem handled_review_blocks_the_operator_witness:
  "\<exists>d1 e'. mark_clarification_delivery_handled 5 [PurposeClarification] 9 (review_db (question_slot 0)) = (Redirect, d1)
    \<and> clarify ascii sample_settings sample_round 9 late_mail open_decision sample_roster empty_extraction PurposeClarification
        (d1\<lparr>db_runs := [(review_run PurposeClarification)\<lparr>status := EXTRACTING, clarification_round := 3\<rparr>]\<rparr>) = (Inr (), e')
    \<and> fst (retrigger sample_source False 9 e') = Inr (Notice ''retrigger_delivery_review'')"
proof -
  have v: "review_slot ReviewClarification [PurposeClarification] 9 (review_db (question_slot 0)) = Some (question_slot 0)"
    using review_loaded [of "question_slot 0"] by (simp add: question_slot_def)
  have p: "ob_purpose (question_slot 0) = PurposeClarification" by (simp add: question_slot_def)
  obtain d0 where d0: "cas_run 9 NEEDS_OPERATOR (set_status AWAITING_REPLY) (review_db (question_slot 0)) = (True, d0)"
    "load_run 9 d0 = Some (set_status AWAITING_REPLY (review_run PurposeClarification))"
    by (simp add: cas_run_def review_facts load_run_def update_rows_def p)
      (simp add: review_db_def empty_db_def review_run_def to_review_def set_status_def sample_run_def p)
  let ?d1 = "snd (mark_outbound_operator_acknowledged 5 9 (ob_email (question_slot 0)) d0)"
  have m: "mark_clarification_delivery_handled 5 [PurposeClarification] 9 (review_db (question_slot 0)) = (Redirect, ?d1)"
    using v d0(1) by (simp add: mark_clarification_delivery_handled_def finish_clarification_delivery_review_def)
  have r1: "load_run 9 ?d1 = Some (set_status AWAITING_REPLY (review_run PurposeClarification))"
    using d0(2) by (simp add: mark_outbound_operator_acknowledged_def Let_def load_run_def)
  let ?r = "(review_run PurposeClarification)\<lparr>status := EXTRACTING, clarification_round := 3\<rparr>"
  let ?e = "?d1\<lparr>db_runs := [?r]\<rparr>"
  have re: "load_run 9 ?e = Some ?r" by (simp add: load_run_def review_run_def to_review_def sample_run_def)
  have n: "MAX_CLARIFICATION_ROUNDS \<le> get_clarification_round 9 ?e"
    by (simp add: get_clarification_round_def re MAX_CLARIFICATION_ROUNDS_def)
  obtain e' where c: "clarify ascii sample_settings sample_round 9 late_mail open_decision sample_roster empty_extraction PurposeClarification ?e = (Inr (), e')"
    using n by (simp add: clarify_def writing_def)
  have "error_reason ?r = error_reason (set_status AWAITING_REPLY (review_run PurposeClarification))" by (simp add: set_status_def)
  from handled_review_blocks_the_operator [OF m review_facts(1) r1 re this c n] m c show ?thesis by auto
qed

end
