(* ===== verification/Console.thy ===== *)
theory Console
  imports Review
begin

section \<open>What an operator sees\<close>

text \<open>
  The reading half of \<open>app/routes/runs.py\<close>: a failed run is shown through fixed labels that are looked
  up from the stored diagnostic, never the stored text itself; the queue state of a run; the notes
  on names that an alias resolved; the frozen mail of a review as a download.
\<close>

subsection \<open>The diagnostic of a failed run\<close>

definition code_char :: "char \<Rightarrow> bool" where
  "code_char c \<longleftrightarrow> (let n = of_char c :: nat in 97 \<le> n \<and> n \<le> 122 \<or> n = 95)"

definition digit :: "char \<Rightarrow> bool" where
  "digit c \<longleftrightarrow> (let n = of_char c :: nat in 48 \<le> n \<and> n \<le> 57)"

definition decimal_of :: "string \<Rightarrow> int" where
  "decimal_of ds = foldl (\<lambda>n c. 10 * n + (of_char c - 48)) 0 ds"

text \<open>\<open>_DIAGNOSTIC_CODE_RE\<close>, which has one way to match: stage, reason and the counts, if any.\<close>

definition diagnostic_counts :: "string \<Rightarrow> (int \<times> int) option option" where
  "diagnostic_counts s =
     (if s = [] then Some None
      else (case removeprefix '';attempts='' s of
              None \<Rightarrow> None
            | Some t \<Rightarrow>
                (case (takeWhile digit t, dropWhile digit t) of
                   (a # as, c # m) \<Rightarrow>
                     if c = CHR ''/'' \<and> m \<noteq> [] \<and> list_all digit m then Some (Some (decimal_of (a # as), decimal_of m)) else None
                 | _ \<Rightarrow> None)))"

definition diagnostic_match :: "string \<Rightarrow> (string \<times> string \<times> (int \<times> int) option) option" where
  "diagnostic_match s =
     (case (takeWhile code_char s, dropWhile code_char s) of
        (st # sts, c # rest) \<Rightarrow>
          if c \<noteq> CHR '':'' \<or> takeWhile code_char rest = [] then None
          else map_option (\<lambda>counts. (st # sts, takeWhile code_char rest, counts)) (diagnostic_counts (dropWhile code_char rest))
      | _ \<Rightarrow> None)"

definition STAGE_LABELS :: "(string \<times> string) list" where
  "STAGE_LABELS =
     [(''unknown'', ''Unknown stage''), (''load'', ''Load''), (''extract'', ''Extraction''), (''persist'', ''Persistence''),
      (''clarification'', ''Clarification''), (''compute'', ''Computation''), (''delivery'', ''Delivery'')]"

definition REASON_LABELS :: "(string \<times> string) list" where
  "REASON_LABELS =
     [(''unclassified'', ''Unclassified failure''), (''provider_connection_failure'', ''Provider connection failure''),
      (''provider_timeout'', ''Provider timeout''), (''provider_rate_limit'', ''Provider rate limit''),
      (''provider_server_failure'', ''Provider server failure''), (''schema_or_parse_failure'', ''Schema or parse failure''),
      (''client_request_failure'', ''Client request failure''), (''ambiguous_send_failure'', ''Ambiguous send failure''),
      (''invalid_operator_override_context'', ''Invalid operator override context''),
      (''final_attempt_lease_expired'', ''Final attempt lease expired'')]"

definition bounded_attempts :: "(int \<times> int) option \<Rightarrow> string option" where
  "bounded_attempts counts =
     (case counts of
        None \<Rightarrow> None
      | Some (a, m) \<Rightarrow> if 1 \<le> a \<and> a \<le> m \<and> m \<le> 100 then Some (int_str a @ '' of '' @ int_str m @ '' attempts'') else None)"

record failure_presentation =
  fp_secondary :: "string option"
  fp_stage :: "string option"
  fp_reason :: "string option"
  fp_attempts :: "string option"

definition generic_failure :: failure_presentation where
  "generic_failure = \<lparr>fp_secondary = None, fp_stage = None, fp_reason = None, fp_attempts = None\<rparr>"

definition reason_agrees :: "string \<Rightarrow> string \<Rightarrow> string \<Rightarrow> bool" where
  "reason_agrees error st why \<longleftrightarrow>
     (if error = ''FinalAttemptLeaseExpired'' then st = ''unknown'' \<and> why = ''final_attempt_lease_expired''
      else if error = ''RetryExhausted'' then why \<noteq> ''final_attempt_lease_expired'' else error = why)"

text \<open>\<open>job_counts\<close>: the attempts of the run's latest job, where the query joined it.\<close>

definition safe_failure_presentation :: "payroll_run \<Rightarrow> (int \<times> int) option \<Rightarrow> failure_presentation" where
  "safe_failure_presentation r job_counts =
     (if status r \<noteq> ERROR then generic_failure
      else (case (error_reason r, Option.bind (error_detail r) diagnostic_match) of
              (Some error, Some (st, why, counts)) \<Rightarrow>
                (case (map_of STAGE_LABELS st, map_of REASON_LABELS why) of
                   (Some stage_label, Some reason_label) \<Rightarrow>
                     if \<not> reason_agrees error st why then generic_failure
                     else \<lparr>fp_secondary = (if error \<in> {''RetryExhausted'', ''FinalAttemptLeaseExpired''} then Some ''Retries exhausted'' else None),
                           fp_stage = Some stage_label, fp_reason = Some reason_label,
                           fp_attempts = (case bounded_attempts counts of None \<Rightarrow> bounded_attempts job_counts | Some t \<Rightarrow> Some t)\<rparr>
                 | _ \<Rightarrow> generic_failure)
            | _ \<Rightarrow> generic_failure))"

subsection \<open>The row of a run\<close>

record browser_run =
  bw_status :: run_status
  bw_failure :: failure_presentation
  bw_queue_label :: "string option"
  bw_badge :: string
  bw_open_job :: bool

definition QUEUE_BADGE_CLASSES :: "(string \<times> string) list" where
  "QUEUE_BADGE_CLASSES = [(''Running'', ''running''), (''Queued'', ''neutral''), (''Retry queued'', ''neutral'')]"

definition safe_run_for_browser :: "string option \<Rightarrow> (int \<times> int) option \<Rightarrow> payroll_run \<Rightarrow> browser_run" where
  "safe_run_for_browser label job_counts r =
     (let badge = Option.bind label (map_of QUEUE_BADGE_CLASSES)
      in \<lparr>bw_status = status r, bw_failure = safe_failure_presentation r job_counts,
          bw_queue_label = (if badge = None then None else label),
          bw_badge = (case badge of None \<Rightarrow> ''neutral'' | Some b \<Rightarrow> b), bw_open_job = (badge \<noteq> None)\<rparr>)"

definition run_status_poll :: "instant \<Rightarrow> uuid \<Rightarrow> db \<Rightarrow> browser_run option" where
  "run_status_poll now run d =
     map_option (safe_run_for_browser (get_run_queue_label now run (db_jobs d)) None) (load_run run d)"

text \<open>The roster is what the lookup returned; a failed lookup shows no notes.\<close>

definition alias_rationale_notes :: "roster res \<Rightarrow> payroll_run \<Rightarrow> string list" where
  "alias_rationale_notes ros r =
     (case (decision_data r, ros) of
        (Some dec, Inr rr) \<Rightarrow>
          concat (map (\<lambda>m. if match_source_of m \<noteq> SrcAlias then []
              else (let who = (case matched_employee_id m of
                        None \<Rightarrow> ''unknown''
                      | Some i \<Rightarrow> (case map_of (dict_of (map (\<lambda>e. (emp_id e, full_name e)) (roster_employees rr))) i of
                          None \<Rightarrow> uuid_str i | Some n \<Rightarrow> n))
                    in [''Resolved '' @ quote_mark @ match_name m @ quote_mark @ '' to '' @ who @ '' (known nickname from a prior confirmed run).'']))
            (resolutions dec))
      | _ \<Rightarrow> [])"

definition frozen_mail_text :: "outbound \<Rightarrow> string" where
  "frozen_mail_text ob =
     (let en = ob_envelope ob
      in concat (map (\<lambda>l. l @ newline)
           ([''Subject: '' @ en_subject en, ''Message-ID: '' @ ob_message_id ob]
            @ (case en_in_reply_to en of None \<Rightarrow> [] | Some s \<Rightarrow> [''In-Reply-To: '' @ s])
            @ (case en_references en of None \<Rightarrow> [] | Some s \<Rightarrow> [''References: '' @ s]) @ [[]])) @ en_body en)"

definition delivery_review_email :: "purpose list \<Rightarrow> uuid \<Rightarrow> db \<Rightarrow> (string \<times> string) option" where
  "delivery_review_email order run d =
     (case load_delivery_review order run d of
        None \<Rightarrow> None
      | Some v \<Rightarrow>
          map_option (\<lambda>ob. (if ob_purpose ob = PurposeConfirmation then ''frozen-confirmation.txt'' else ''frozen-clarification.txt'',
                            frozen_mail_text ob))
            (lock_frozen_snapshot run (ob_email (dr_slot v)) d))"

subsection \<open>The page of a delivery review\<close>

text \<open>\<open>ids\<close> are the row ids of the frozen attachments, in their order.\<close>

record review_page =
  rp_purpose :: purpose
  rp_kind :: review_kind
  rp_recipient :: string
  rp_subject :: string
  rp_reserved_at :: instant
  rp_attempts :: nat
  rp_category :: string
  rp_uncertainty :: string
  rp_can_replay :: bool
  rp_can_fresh_send :: bool
  rp_blocker :: "string option"
  rp_message_id :: string
  rp_email_url :: string
  rp_attachments :: "(string \<times> string) list"

definition safe_delivery_review_projection :: "uuid list \<Rightarrow> uuid \<Rightarrow> delivery_review \<Rightarrow> review_page option" where
  "safe_delivery_review_projection ids run v =
     (case map_of DELIVERY_REVIEW_CATEGORIES (dr_category v) of
        None \<Rightarrow> None
      | Some c \<Rightarrow>
          (let ob = dr_slot v; en = ob_envelope ob
           in Some \<lparr>rp_purpose = ob_purpose ob, rp_kind = dr_kind v, rp_recipient = en_to en, rp_subject = en_subject en,
                    rp_reserved_at = ob_reserved_at ob, rp_attempts = dr_attempts v, rp_category = ct_label c,
                    rp_uncertainty = ct_uncertainty c, rp_can_replay = ct_replay_same_ok c, rp_can_fresh_send = ct_fresh_send_ok c,
                    rp_blocker = ct_blocker c, rp_message_id = ob_message_id ob,
                    rp_email_url = ''/runs/'' @ uuid_str run @ ''/delivery-review/email'',
                    rp_attachments = map (\<lambda>(a, i). (fst a, ''/runs/'' @ uuid_str run @ ''/delivery-review/attachments/'' @ uuid_str i))
                      (zip (en_attachments en) ids)\<rparr>))"

text \<open>A review that loads has a page, which names a blocker exactly when it withholds an action.\<close>

lemma loaded_review_has_page:
  assumes "load_delivery_review order run d = Some v"
  shows "\<exists>p. safe_delivery_review_projection ids run v = Some p \<and> (rp_blocker p = None \<longleftrightarrow> rp_can_replay p \<and> rp_can_fresh_send p)"
proof -
  have "dr_category v \<in> fst ` set DELIVERY_REVIEW_CATEGORIES"
    using assms by (auto simp: load_delivery_review_def split: option.splits if_splits prod.splits) (metis fst_conv image_eqI)
  then obtain c where c: "map_of DELIVERY_REVIEW_CATEGORIES (dr_category v) = Some c" by (metis map_of_eq_None_iff not_None_eq)
  then have "(dr_category v, c) \<in> set DELIVERY_REVIEW_CATEGORIES" by (rule map_of_SomeD)
  then have "ct_blocker c = None \<longleftrightarrow> ct_replay_same_ok c \<and> ct_fresh_send_ok c"
    using bspec [OF conjunct2 [OF categories_are_the_produced_ones, unfolded list_all_iff]] by fastforce
  then show ?thesis by (simp add: safe_delivery_review_projection_def c Let_def)
qed

subsection \<open>What the settlement wrote is what the console shows\<close>

lemma nat_str_digits: "list_all digit (nat_str n)"
  and decimal_nat_str: "decimal_of (nat_str n) = int n"
proof -
  have "digit = is_digit" "decimal_of = digits_value"
    by (simp_all add: fun_eq_iff digit_def is_digit_def decimal_of_def digits_value_def Let_def)
  then show "list_all digit (nat_str n)" "decimal_of (nat_str n) = int n" by (simp_all add: nat_str_is_digit nat_str_value)
qed

lemma int_str_digits: "0 \<le> i \<Longrightarrow> list_all digit (int_str i)"
  and int_str_nonempty: "int_str i \<noteq> []"
  and decimal_int_str: "0 \<le> i \<Longrightarrow> decimal_of (int_str i) = i"
  by (simp_all add: int_str_def nat_str_digits decimal_nat_str)

lemma nat_str_short: "n \<le> 100 \<Longrightarrow> length (nat_str n) \<le> 3"
  by (subst nat_str.simps, simp, subst nat_str.simps, simp, subst nat_str.simps) simp

lemma counts_roundtrip:
  assumes "0 \<le> a" "0 \<le> m"
  shows "diagnostic_counts ('';attempts='' @ int_str a @ ''/'' @ int_str m) = Some (Some (a, m))"
proof -
  have slash: "\<not> digit (CHR ''/'')" by (simp add: digit_def)
  obtain x xs where a: "int_str a = x # xs" using int_str_nonempty [of a] by (cases "int_str a") auto
  have all: "\<forall>c \<in> set (int_str a). digit c" using int_str_digits [OF assms(1)] by (simp add: list_all_iff)
  have t: "takeWhile digit (int_str a @ ''/'' @ int_str m) = x # xs" "dropWhile digit (int_str a @ ''/'' @ int_str m) = CHR ''/'' # int_str m"
    using all slash a by (simp_all add: takeWhile_append2 dropWhile_append2)
  have p: "removeprefix '';attempts='' ('';attempts='' @ int_str a @ ''/'' @ int_str m) = Some (int_str a @ ''/'' @ int_str m)"
    by (simp add: removeprefix_def)
  have ne: "'';attempts='' @ int_str a @ ''/'' @ int_str m \<noteq> []" by simp
  have "decimal_of (x # xs) = a" using decimal_int_str [OF assms(1)] a by simp
  then show ?thesis unfolding diagnostic_counts_def if_not_P [OF ne] p option.case t
    using int_str_nonempty [of m] int_str_digits [OF assms(2)] decimal_int_str [OF assms(2)] by simp
qed

definition code_word :: "string \<Rightarrow> bool" where
  "code_word s \<longleftrightarrow> s \<noteq> [] \<and> list_all code_char s"

lemma diagnostic_match_code:
  assumes "code_word st" "code_word why" "diagnostic_counts rest = Some counts" "rest = [] \<or> \<not> code_char (hd rest)"
  shows "diagnostic_match (st @ '':'' @ why @ rest) = Some (st, why, counts)"
proof -
  have colon: "\<not> code_char (CHR '':'')" by (simp add: code_char_def)
  obtain x xs where st: "st = x # xs" using assms(1) by (cases st) (auto simp: code_word_def)
  have 1: "\<forall>c \<in> set st. code_char c" "\<forall>c \<in> set why. code_char c" "why \<noteq> []" using assms(1,2) by (auto simp: code_word_def list_all_iff)
  have 2: "takeWhile code_char (st @ '':'' @ why @ rest) = x # xs" "dropWhile code_char (st @ '':'' @ why @ rest) = CHR '':'' # why @ rest"
    using 1(1) colon st by (simp_all add: takeWhile_append2 dropWhile_append2)
  have 3: "takeWhile code_char (why @ rest) = why" "dropWhile code_char (why @ rest) = rest"
    using 1(2) assms(4) by (cases rest; simp add: takeWhile_append2 dropWhile_append2)+
  show ?thesis unfolding diagnostic_match_def 2 using 1(3) 3 assms(3) st by simp
qed

lemma codes [simp]: "code_word (stage_value st)" "code_word (reason_value why)"
  by (cases st; simp add: code_word_def code_char_def Let_def) (cases why; simp add: code_word_def code_char_def Let_def)

lemma stage_labelled: "\<exists>l. map_of STAGE_LABELS (stage_value st) = Some l"
  by (cases st) (simp_all add: STAGE_LABELS_def)

lemma bounded_attempts_Some: "1 \<le> a \<Longrightarrow> a \<le> m \<Longrightarrow> m \<le> 100 \<Longrightarrow> bounded_attempts (Some (a, m)) = Some (int_str a @ '' of '' @ int_str m @ '' attempts'')"
  by (simp add: bounded_attempts_def)

lemma value_short: "length (stage_value st) \<le> 13" "length (reason_value why) \<le> 40"
  by (cases st; simp) (cases why; simp)

lemma int_str_short: "0 \<le> i \<Longrightarrow> i \<le> 100 \<Longrightarrow> length (int_str i) \<le> 3"
  using nat_str_short [of "nat i"] by (simp add: int_str_def)

text \<open>C35. A run that a settlement or the reaper failed is explained: the stored diagnostic reads back as the stage, the
  reason and the attempts that were written, and an exhausted job is said to be one.\<close>

theorem failure_reads_back:
  assumes "reason_value (reason result) \<in> fst ` set REASON_LABELS" "1 \<le> a" "a \<le> m" "m \<le> 100"
  shows "safe_failure_presentation (fail_run ''RetryExhausted'' (bounded_detail result (Some (a, m))) r) cs =
      \<lparr>fp_secondary = Some ''Retries exhausted'', fp_stage = map_of STAGE_LABELS (stage_value (stage result)),
       fp_reason = map_of REASON_LABELS (reason_value (reason result)), fp_attempts = Some (int_str a @ '' of '' @ int_str m @ '' attempts'')\<rparr>
    \<and> safe_failure_presentation (fail_run (reason_value (reason result)) (bounded_detail result None) r) cs =
      \<lparr>fp_secondary = None, fp_stage = map_of STAGE_LABELS (stage_value (stage result)),
       fp_reason = map_of REASON_LABELS (reason_value (reason result)), fp_attempts = bounded_attempts cs\<rparr>"
proof -
  let ?s = "stage_value (stage result)" and ?w = "reason_value (reason result)"
  have "map_of REASON_LABELS ?w \<noteq> None" unfolding map_of_eq_None_iff using assms(1) by blast
  then obtain sl wl where l: "map_of STAGE_LABELS ?s = Some sl" "map_of REASON_LABELS ?w = Some wl"
    using stage_labelled [of "stage result"] by blast
  have w: "?w \<noteq> ''final_attempt_lease_expired''" "?w \<noteq> ''RetryExhausted''" "?w \<noteq> ''FinalAttemptLeaseExpired''"
    by (cases "reason result"; simp)+
  have semi: "\<not> code_char (CHR '';'')" by (simp add: code_char_def)
  have counts: "diagnostic_match (?s @ '':'' @ ?w @ '';attempts='' @ int_str a @ ''/'' @ int_str m) = Some (?s, ?w, Some (a, m))"
    by (rule diagnostic_match_code [OF codes counts_roundtrip]) (use assms semi in simp_all)
  have plain: "diagnostic_match (?s @ '':'' @ ?w) = Some (?s, ?w, None)"
    using diagnostic_match_code [OF codes, of "[]" None "stage result" "reason result"] by (simp add: diagnostic_counts_def)
  have len: "length (?s @ '':'' @ ?w @ '';attempts='' @ int_str a @ ''/'' @ int_str m) \<le> 200" "length (?s @ '':'' @ ?w) \<le> 200"
    using value_short(1) [of "stage result"] value_short(2) [of "reason result"] int_str_short [of a] int_str_short [of m] assms(2-4) by simp_all
  have b1: "bounded_detail result (Some (a, m)) = ?s @ '':'' @ ?w @ '';attempts='' @ int_str a @ ''/'' @ int_str m"
    using len(1) by (simp add: bounded_detail_def diagnostic_code_def)
  have b2: "bounded_detail result None = ?s @ '':'' @ ?w" using len(2) by (simp add: bounded_detail_def diagnostic_code_def)
  have st: "status (fail_run e t r) = ERROR" "error_reason (fail_run e t r) = Some e" "error_detail (fail_run e t r) = Some t" for e t
    by (simp_all add: fail_run_def)
  have b: "Option.bind (Some (bounded_detail result (Some (a, m)))) diagnostic_match = Some (?s, ?w, Some (a, m))"
    "Option.bind (Some (bounded_detail result None)) diagnostic_match = Some (?s, ?w, None)"
    unfolding b1 b2 by (simp_all only: Option.bind.simps counts plain)
  have at: "bounded_attempts (Some (a, m)) = Some (int_str a @ '' of '' @ int_str m @ '' attempts'')" "bounded_attempts None = None"
    by (rule bounded_attempts_Some) (use assms in \<open>simp_all add: bounded_attempts_def\<close>)
  show ?thesis unfolding safe_failure_presentation_def st b using l w at by (simp add: reason_agrees_def)
qed

text \<open>Whatever text a failure left on the run, the console shows labels of the fixed tables and bounded counts only.\<close>

theorem console_shows_labels_only:
  "case safe_failure_presentation r cs of p \<Rightarrow>
     fp_secondary p \<in> {None, Some ''Retries exhausted''} \<and> fp_stage p \<in> insert None (Some ` snd ` set STAGE_LABELS)
     \<and> fp_reason p \<in> insert None (Some ` snd ` set REASON_LABELS)
     \<and> (case fp_attempts p of None \<Rightarrow> True | Some t \<Rightarrow> \<exists>a m. 1 \<le> a \<and> a \<le> m \<and> m \<le> 100 \<and> t = int_str a @ '' of '' @ int_str m @ '' attempts'')"
proof -
  have at: "case bounded_attempts c of None \<Rightarrow> True | Some t \<Rightarrow> \<exists>a m. 1 \<le> a \<and> a \<le> m \<and> m \<le> 100 \<and> t = int_str a @ '' of '' @ int_str m @ '' attempts''" for c
    by (auto simp: bounded_attempts_def split: option.split prod.split)
  have lab: "Some l \<in> Some ` snd ` set t" if "map_of t k = Some l" for t :: "(string \<times> string) list" and k l
    using map_of_SomeD [OF that] by (force simp: image_iff)
  have at2: "case (case bounded_attempts c of None \<Rightarrow> bounded_attempts c' | Some t \<Rightarrow> Some t) of None \<Rightarrow> True
      | Some t \<Rightarrow> \<exists>a m. 1 \<le> a \<and> a \<le> m \<and> m \<le> 100 \<and> t = int_str a @ '' of '' @ int_str m @ '' attempts''" for c c'
    using at [of c] at [of c'] by (cases "bounded_attempts c") simp_all
  consider "safe_failure_presentation r cs = generic_failure"
    | st sl why wl x c where "map_of STAGE_LABELS st = Some sl" "map_of REASON_LABELS why = Some wl" "x \<in> {None, Some ''Retries exhausted''}"
        "safe_failure_presentation r cs = \<lparr>fp_secondary = x, fp_stage = Some sl, fp_reason = Some wl,
           fp_attempts = (case bounded_attempts c of None \<Rightarrow> bounded_attempts cs | Some t \<Rightarrow> Some t)\<rparr>"
  proof (cases "safe_failure_presentation r cs = generic_failure")
    case False
    then obtain error st why c sl wl where k: "error_reason r = Some error" "Option.bind (error_detail r) diagnostic_match = Some (st, why, c)"
      "map_of STAGE_LABELS st = Some sl" "map_of REASON_LABELS why = Some wl" "reason_agrees error st why" "status r = ERROR"
      unfolding safe_failure_presentation_def by (auto split: option.splits if_splits)
    then show thesis
      using that(2) [OF k(3,4), of "if error \<in> {''RetryExhausted'', ''FinalAttemptLeaseExpired''} then Some ''Retries exhausted'' else None" c]
      by (simp add: safe_failure_presentation_def)
  qed (rule that(1))
  then show ?thesis
  proof cases
    case 1
    then show ?thesis by (simp add: generic_failure_def)
  next
    case 2
    then show ?thesis using lab [OF 2(1)] lab [OF 2(2)] at2 [of cs c] by simp
  qed
qed

definition broken_extraction :: pipeline_result where
  "broken_extraction = \<lparr>outcome = Retryable, stage = StageExtract, reason = ProviderTimeout\<rparr>"

theorem failure_reads_back_witness:
  "safe_failure_presentation (fail_run ''RetryExhausted'' (bounded_detail broken_extraction (Some (3, 3))) sample_run) None =
     \<lparr>fp_secondary = Some ''Retries exhausted'', fp_stage = Some ''Extraction'', fp_reason = Some ''Provider timeout'',
      fp_attempts = Some ''3 of 3 attempts''\<rparr>"
proof -
  have "reason_value (reason broken_extraction) \<in> fst ` set REASON_LABELS" by (simp add: broken_extraction_def REASON_LABELS_def)
  from conjunct1 [OF failure_reads_back [OF this, of 3 3 sample_run None]]
  have "safe_failure_presentation (fail_run ''RetryExhausted'' (bounded_detail broken_extraction (Some (3, 3))) sample_run) None =
      \<lparr>fp_secondary = Some ''Retries exhausted'', fp_stage = Some ''Extraction'', fp_reason = Some ''Provider timeout'',
       fp_attempts = Some (int_str 3 @ '' of '' @ int_str 3 @ '' attempts'')\<rparr>"
    by (simp add: STAGE_LABELS_def REASON_LABELS_def broken_extraction_def)
  moreover have "int_str 3 = ''3''" by code_simp
  ultimately show ?thesis by simp
qed

end
