(* ===== verification/Pool.thy ===== *)
theory Pool
  imports Prelude
begin

section \<open>The pool of worker threads\<close>

text \<open>
  \<open>app/queue/worker.py\<close> and \<open>wake.py\<close>, with the lease registry of \<open>drain.py\<close>, as a step relation: every thread
  moves through its loop one shared access at a time, producers commit and then signal, and one caller at a
  time starts or stops the pool under the lifecycle lock. A stop event is named by its generation,
  since \<open>start\<close> mints one for each; a join may time out whenever it likes. A lease is a number drawn by the claim.

  Jobs are numbers, and a job is claimable, delayed (its \<open>available_at\<close> lies ahead) or leased; an expired lease makes its
  job claimable while it still stands. A job becomes claimable with a signal when a producer commits it or an operator advances it, and without one
  when its delay or its lease runs out or when it appears otherwise (from another process, from an enqueue inside a handler, from under a lock that a claim
  skipped). What these do to the rows is \<open>JobTable\<close>.
\<close>

subsection \<open>Threads and the module state\<close>

datatype pc = AtTop | AtClear | AtDrain | Claiming | Granted nat | EmptyHanded | Working nat | AtRecheck | AtWait | Exited

record worker =
  wk_gen :: nat
  wk_pc :: pc

datatype stop_phase = Quiet | Joining | Releasing "nat list"

text \<open>\<open>po_unannounced\<close> and \<open>po_forgotten\<close> are no state of the program: they record the claimable jobs no signal has announced, and the
  leases whose token was dropped while they stand.\<close>

record pool =
  po_workers :: "worker list"
  po_threads :: "nat list"
  po_orphans :: "nat list"
  po_generation :: nat
  po_stop :: "nat option"
  po_set :: "nat list"
  po_phase :: stop_phase
  po_wake :: bool
  po_work :: "nat list"
  po_delayed :: "nat list"
  po_unannounced :: "nat list"
  po_unsignalled :: nat
  po_flight :: nat
  po_leased :: "(nat \<times> nat) list"
  po_held :: "nat list"
  po_forgotten :: "nat list"
  po_next :: nat

definition empty_pool :: pool where
  "empty_pool = \<lparr>po_workers = [], po_threads = [], po_orphans = [], po_generation = 0, po_stop = None, po_set = [], po_phase = Quiet,
     po_wake = False, po_work = [], po_delayed = [], po_unannounced = [], po_unsignalled = 0, po_flight = 0, po_leased = [], po_held = [],
     po_forgotten = [], po_next = 0\<rparr>"

definition alive :: "worker \<Rightarrow> bool" where
  "alive w \<longleftrightarrow> wk_pc w \<noteq> Exited"

definition alive_at :: "pool \<Rightarrow> nat \<Rightarrow> bool" where
  "alive_at p i \<longleftrightarrow> i < length (po_workers p) \<and> alive (po_workers p ! i)"

definition goto :: "nat \<Rightarrow> pc \<Rightarrow> pool \<Rightarrow> pool" where
  "goto i q p = p\<lparr>po_workers := (po_workers p)[i := (po_workers p ! i)\<lparr>wk_pc := q\<rparr>]\<rparr>"

subsection \<open>Jobs from outside the pool\<close>

definition absent :: "nat \<Rightarrow> pool \<Rightarrow> bool" where
  "absent j p \<longleftrightarrow> j \<notin> set (po_work p) \<and> j \<notin> set (po_delayed p) \<and> j \<notin> snd ` set (po_leased p)"

definition offer_silently :: "nat \<Rightarrow> pool \<Rightarrow> pool" where
  "offer_silently j p = p\<lparr>po_work := j # po_work p, po_unannounced := j # po_unannounced p\<rparr>"

definition drop_job :: "nat \<Rightarrow> pool \<Rightarrow> pool" where
  "drop_job j p = p\<lparr>po_work := removeAll j (po_work p), po_unannounced := removeAll j (po_unannounced p)\<rparr>"

text \<open>A producer commits a job, due now or later, and has yet to signal; an operator makes a delayed one due.\<close>

definition commit_job :: "nat \<Rightarrow> bool \<Rightarrow> pool \<Rightarrow> pool option" where
  "commit_job j later p =
     (if \<not> absent j p then None
      else Some ((if later then p\<lparr>po_delayed := j # po_delayed p\<rparr> else p\<lparr>po_work := j # po_work p\<rparr>)\<lparr>po_unsignalled := po_unsignalled p + 1\<rparr>))"

definition advance_due :: "nat \<Rightarrow> pool \<Rightarrow> pool option" where
  "advance_due j p =
     (if j \<in> set (po_delayed p)
      then Some (p\<lparr>po_delayed := removeAll j (po_delayed p), po_work := j # po_work p, po_unsignalled := po_unsignalled p + 1\<rparr>) else None)"

text \<open>\<open>wake\<close>: whoever waits, or will wait, sees every job that is there.\<close>

definition signal :: "pool \<Rightarrow> pool option" where
  "signal p = (if po_unsignalled p = 0 then None
     else Some (p\<lparr>po_unsignalled := po_unsignalled p - 1, po_wake := True, po_unannounced := []\<rparr>))"

text \<open>The clock passes \<open>available_at\<close>, or \<open>leased_until\<close> of a job with attempts left; nobody signals.\<close>

definition ripen :: "nat \<Rightarrow> pool \<Rightarrow> pool option" where
  "ripen j p = (if j \<in> set (po_delayed p) then Some (offer_silently j (p\<lparr>po_delayed := removeAll j (po_delayed p)\<rparr>)) else None)"

definition expire :: "nat \<Rightarrow> pool \<Rightarrow> pool option" where
  "expire t p =
     (case map_of (po_leased p) t of None \<Rightarrow> None | Some j \<Rightarrow> if j \<in> set (po_work p) then None else Some (offer_silently j p))"

text \<open>A job turns up with no signal of this process, or another transaction takes or locks one.\<close>

definition appear :: "nat \<Rightarrow> pool \<Rightarrow> pool option" where
  "appear j p = (if absent j p then Some (offer_silently j p) else None)"

definition vanish :: "nat \<Rightarrow> pool \<Rightarrow> pool option" where
  "vanish j p = (if j \<in> set (po_work p) then Some (drop_job j p) else None)"

subsection \<open>Starting and stopping\<close>

definition POOL_BUDGET_RESERVE :: int where
  "POOL_BUDGET_RESERVE = 2"

definition POOL_MAX_SIZE :: int where
  "POOL_MAX_SIZE = 5"

definition pool_start :: "int \<Rightarrow> pool \<Rightarrow> unit res \<times> pool" where
  "pool_start n p =
     (let p1 = p\<lparr>po_orphans := filter (alive_at p) (po_orphans p)\<rparr>
      in if po_threads p1 \<noteq> [] \<or> po_orphans p1 \<noteq> [] then (Inl RuntimeError, p1)
         else if n \<le> 0 then (Inr (), p1)
         else (let gen = po_generation p1 + 1; m = length (po_workers p1)
               in (Inr (), p1\<lparr>po_generation := gen, po_stop := Some gen, po_threads := [m ..< m + nat n],
                     po_workers := po_workers p1 @ replicate (nat n) \<lparr>wk_gen = gen, wk_pc = AtTop\<rparr>\<rparr>)))"

definition lifespan_start :: "int \<Rightarrow> pool \<Rightarrow> unit res \<times> pool" where
  "lifespan_start n p = (if n + POOL_BUDGET_RESERVE > POOL_MAX_SIZE then (Inl RuntimeError, p) else pool_start n p)"

definition request_stop :: "nat \<Rightarrow> pool \<Rightarrow> pool" where
  "request_stop e p = p\<lparr>po_set := List.insert e (po_set p), po_wake := True, po_phase := Joining\<rparr>"

text \<open>\<open>held_tokens\<close>: it waits for the claims in flight, at most for its timeout.\<close>

definition take_snapshot :: "bool \<Rightarrow> pool \<Rightarrow> pool option" where
  "take_snapshot timed_out p = (if po_flight p = 0 \<or> timed_out then Some (p\<lparr>po_phase := Releasing (po_held p)\<rparr>) else None)"

text \<open>\<open>release_leases\<close> and the partition of the threads; \<open>spent\<close> are the released jobs with no attempt left, which no claim takes again.\<close>

definition finish_stop :: "nat list \<Rightarrow> nat list \<Rightarrow> pool \<Rightarrow> pool" where
  "finish_stop spent ts p =
     p\<lparr>po_work := map snd (filter (\<lambda>(t, j). t \<in> set ts \<and> j \<notin> set (po_work p) \<and> j \<notin> set spent) (po_leased p)) @ po_work p,
       po_leased := filter (\<lambda>(t, j). t \<notin> set ts) (po_leased p),
       po_orphans := po_orphans p @ filter (alive_at p) (po_threads p), po_threads := [], po_stop := None, po_phase := Quiet\<rparr>"

subsection \<open>The loop of a thread\<close>

definition stop_seen :: "nat \<Rightarrow> pool \<Rightarrow> bool" where
  "stop_seen i p \<longleftrightarrow> wk_gen (po_workers p ! i) \<in> set (po_set p)"

text \<open>The claim of \<open>drain_once\<close> with its registry: the counter goes up before the claim and down with the record. An expired lease of
  the job ends with it.\<close>

definition claim_lease :: "nat \<Rightarrow> nat \<Rightarrow> pool \<Rightarrow> pool" where
  "claim_lease i j p =
     goto i (Granted (po_next p)) ((drop_job j p)\<lparr>po_leased := (po_next p, j) # filter (\<lambda>(t, k). k \<noteq> j) (po_leased p), po_next := po_next p + 1\<rparr>)"

text \<open>A settlement that lands ends the lease and either closes the job or gives it a retry delay; one that is refused leaves the rows alone.
  Either way the token is forgotten.\<close>

definition end_lease :: "nat \<Rightarrow> bool \<Rightarrow> pool \<Rightarrow> pool" where
  "end_lease t retried p =
     (case map_of (po_leased p) t of
        None \<Rightarrow> p
      | Some j \<Rightarrow> (drop_job j p)\<lparr>po_leased := filter (\<lambda>(u, k). u \<noteq> t) (po_leased p), po_delayed := (if retried then [j] else []) @ po_delayed p\<rparr>)"

definition settle_lease :: "nat \<Rightarrow> nat \<Rightarrow> bool \<Rightarrow> pool \<Rightarrow> pool" where
  "settle_lease i t retried p = goto i AtTop (end_lease t retried (p\<lparr>po_held := removeAll t (po_held p)\<rparr>))"

text \<open>A generic fenced outcome drops the token although the lease may stand.\<close>

definition forget_lease :: "nat \<Rightarrow> nat \<Rightarrow> pool \<Rightarrow> pool" where
  "forget_lease i t p = goto i AtTop (p\<lparr>po_held := removeAll t (po_held p), po_forgotten := t # po_forgotten p\<rparr>)"

text \<open>What the thread does not control: which job a claim takes or which lease a reaper ends, a retry, a fenced settlement, and \<open>Odd\<close>, an exception or a
  timeout of the wait.\<close>

datatype turn = Usual | Odd | Takes nat | Retried | Fenced

definition loop_step :: "turn \<Rightarrow> nat \<Rightarrow> pool \<Rightarrow> pool option" where
  "loop_step turn i p =
     (case wk_pc (po_workers p ! i) of
        AtTop \<Rightarrow> Some (goto i (if stop_seen i p \<or> wk_gen (po_workers p ! i) \<noteq> po_generation p then Exited else AtClear) p)
      | AtClear \<Rightarrow> Some (goto i AtDrain (p\<lparr>po_wake := False\<rparr>))
      | AtDrain \<Rightarrow> Some (goto i Claiming (p\<lparr>po_flight := po_flight p + 1\<rparr>))
      | Claiming \<Rightarrow>
          (case turn of
             Takes j \<Rightarrow> if j \<in> set (po_work p) then Some (claim_lease i j p) else None
           | Odd \<Rightarrow> Some (goto i AtTop (p\<lparr>po_flight := po_flight p - 1\<rparr>))
           | _ \<Rightarrow> if po_work p = [] then Some (goto i EmptyHanded p) else None)
      | Granted t \<Rightarrow> Some (goto i (Working t) (p\<lparr>po_held := List.insert t (po_held p), po_flight := po_flight p - 1\<rparr>))
      | EmptyHanded \<Rightarrow>
          (let q = p\<lparr>po_flight := po_flight p - 1\<rparr>
           in case turn of
                Takes t \<Rightarrow> Some (goto i AtTop (end_lease t False q))
              | Odd \<Rightarrow> Some (goto i AtTop q)
              | _ \<Rightarrow> Some (goto i AtRecheck q))
      | Working t \<Rightarrow>
          Some (case turn of Odd \<Rightarrow> goto i AtTop p | Fenced \<Rightarrow> forget_lease i t p | Retried \<Rightarrow> settle_lease i t True p | _ \<Rightarrow> settle_lease i t False p)
      | AtRecheck \<Rightarrow> Some (goto i (if stop_seen i p then Exited else AtWait) p)
      | AtWait \<Rightarrow> if po_wake p \<or> turn = Odd then Some (goto i AtTop p) else None
      | Exited \<Rightarrow> None)"

datatype pool_event =
    Started int | StopRequested | Snapshot bool | Stopped "nat list" | Committed nat bool | DueNow nat | Signalled
  | Ripened nat | Expired nat | Appeared nat | Vanished nat | Moved turn nat

definition outside :: "pool_event \<Rightarrow> pool \<Rightarrow> pool option" where
  "outside e p =
     (case e of Committed j later \<Rightarrow> commit_job j later p | DueNow j \<Rightarrow> advance_due j p | Signalled \<Rightarrow> signal p | Ripened j \<Rightarrow> ripen j p
      | Expired t \<Rightarrow> expire t p | Appeared j \<Rightarrow> appear j p | Vanished j \<Rightarrow> vanish j p | _ \<Rightarrow> None)"

inductive pool_step :: "pool \<Rightarrow> pool_event \<Rightarrow> pool \<Rightarrow> bool" where
  step_start: "po_phase p = Quiet \<Longrightarrow> pool_step p (Started n) (snd (lifespan_start n p))"
| step_request: "po_phase p = Quiet \<Longrightarrow> po_stop p = Some e \<Longrightarrow> pool_step p StopRequested (request_stop e p)"
| step_snapshot: "po_phase p = Joining \<Longrightarrow> take_snapshot timed_out p = Some p' \<Longrightarrow> pool_step p (Snapshot timed_out) p'"
| step_stopped: "po_phase p = Releasing ts \<Longrightarrow> pool_step p (Stopped spent) (finish_stop spent ts p)"
| step_outside: "outside e p = Some p' \<Longrightarrow> pool_step p e p'"
| step_move: "i < length (po_workers p) \<Longrightarrow> loop_step turn i p = Some p' \<Longrightarrow> pool_step p (Moved turn i) p'"

inductive_cases pool_stepE: "pool_step p e p'"

subsection \<open>What a step of the loop leaves alone\<close>

lemma goto_simps [simp]:
  "po_threads (goto i q p) = po_threads p" "po_orphans (goto i q p) = po_orphans p" "po_generation (goto i q p) = po_generation p"
  "po_stop (goto i q p) = po_stop p" "po_set (goto i q p) = po_set p" "po_phase (goto i q p) = po_phase p" "po_wake (goto i q p) = po_wake p"
  "po_work (goto i q p) = po_work p" "po_delayed (goto i q p) = po_delayed p" "po_unannounced (goto i q p) = po_unannounced p"
  "po_unsignalled (goto i q p) = po_unsignalled p" "po_flight (goto i q p) = po_flight p" "po_leased (goto i q p) = po_leased p"
  "po_held (goto i q p) = po_held p" "po_forgotten (goto i q p) = po_forgotten p" "po_next (goto i q p) = po_next p"
  "po_workers (goto i q p) = (po_workers p)[i := (po_workers p ! i)\<lparr>wk_pc := q\<rparr>]"
  by (simp_all add: goto_def)

lemma end_lease_simps [simp]:
  "po_workers (end_lease t retried p) = po_workers p" "po_threads (end_lease t retried p) = po_threads p" "po_orphans (end_lease t retried p) = po_orphans p"
  "po_generation (end_lease t retried p) = po_generation p" "po_stop (end_lease t retried p) = po_stop p" "po_set (end_lease t retried p) = po_set p"
  "po_phase (end_lease t retried p) = po_phase p" "po_unsignalled (end_lease t retried p) = po_unsignalled p" "po_flight (end_lease t retried p) = po_flight p"
  "po_held (end_lease t retried p) = po_held p" "po_forgotten (end_lease t retried p) = po_forgotten p" "po_next (end_lease t retried p) = po_next p"
  by (simp_all add: end_lease_def drop_job_def split: option.split)

lemma end_lease_leased: "x \<in> set (po_leased (end_lease t retried p)) \<Longrightarrow> x \<in> set (po_leased p) \<and> fst x \<noteq> t"
  by (cases x) (force simp: end_lease_def drop_job_def map_of_eq_None_iff split: option.splits)

lemmas loop_defs = loop_step_def claim_lease_def settle_lease_def forget_lease_def drop_job_def Let_def

lemma loop_step_frame:
  assumes "loop_step turn i p = Some p'"
  shows "alive (po_workers p ! i) \<and> (\<exists>q. po_workers p' = (po_workers p)[i := (po_workers p ! i)\<lparr>wk_pc := q\<rparr>])
    \<and> po_threads p' = po_threads p \<and> po_orphans p' = po_orphans p \<and> po_generation p' = po_generation p \<and> po_stop p' = po_stop p
    \<and> po_set p' = po_set p \<and> po_phase p' = po_phase p \<and> po_unsignalled p' = po_unsignalled p"
  using assms by (cases "wk_pc (po_workers p ! i)"; cases turn) (auto simp: loop_defs alive_def split: if_splits)

lemma outside_frame:
  assumes "outside e p = Some p'"
  shows "po_workers p' = po_workers p \<and> po_threads p' = po_threads p \<and> po_orphans p' = po_orphans p \<and> po_generation p' = po_generation p
    \<and> po_stop p' = po_stop p \<and> po_set p' = po_set p \<and> po_phase p' = po_phase p \<and> po_flight p' = po_flight p \<and> po_leased p' = po_leased p
    \<and> po_held p' = po_held p \<and> po_forgotten p' = po_forgotten p"
  using assms
  by (cases e) (auto simp: outside_def commit_job_def advance_due_def signal_def ripen_def expire_def appear_def vanish_def offer_silently_def drop_job_def
      split: if_splits option.splits)

lemma gen_update: "k < length ws \<Longrightarrow> wk_gen (ws[i := (ws ! i)\<lparr>wk_pc := q\<rparr>] ! k) = wk_gen (ws ! k)"
  by (cases "k = i") simp_all

lemma filter_update:
  "i < length xs \<Longrightarrow> length (filter P (xs[i := y])) + (if P (xs ! i) then 1 else 0) = length (filter P xs) + (if P y then 1 else 0)"
proof (induction xs arbitrary: i)
  case (Cons x xs)
  then show ?case
  proof (cases i)
    case (Suc k)
    then show ?thesis using Cons.IH [of k] Cons.prems by (auto split: if_splits)
  qed simp
qed simp

subsection \<open>One generation within the budget\<close>

definition pool_ok :: "pool \<Rightarrow> bool" where
  "pool_ok p \<longleftrightarrow>
     (\<forall>i. alive_at p i \<longrightarrow> (i \<in> set (po_threads p) \<or> i \<in> set (po_orphans p)) \<and> wk_gen (po_workers p ! i) = po_generation p)
     \<and> (po_threads p = [] \<longleftrightarrow> po_stop p = None) \<and> (po_threads p \<noteq> [] \<longrightarrow> po_orphans p = [])
     \<and> length (po_threads p) \<le> 3 \<and> length (po_orphans p) \<le> 3
     \<and> (\<forall>e. po_stop p = Some e \<longrightarrow> e = po_generation p) \<and> (\<forall>e \<in> set (po_set p). e \<le> po_generation p)
     \<and> (po_stop p = None \<longrightarrow> po_phase p = Quiet)"

lemma pool_ok_move:
  assumes "pool_ok p" "i < length (po_workers p)" "loop_step turn i p = Some p'"
  shows "pool_ok p'"
proof -
  note f = loop_step_frame [OF assms(3)]
  obtain q where q: "po_workers p' = (po_workers p)[i := (po_workers p ! i)\<lparr>wk_pc := q\<rparr>]" using f by blast
  have a: "alive_at p k \<and> wk_gen (po_workers p' ! k) = wk_gen (po_workers p ! k)" if "alive_at p' k" for k
    using that f assms(2) gen_update [of k "po_workers p" i q] by (cases "k = i") (auto simp: alive_at_def q)
  show ?thesis using assms(1) f a unfolding pool_ok_def by auto
qed

lemma pool_ok_start:
  assumes "pool_ok p" "po_phase p = Quiet"
  shows "pool_ok (snd (lifespan_start n p))"
proof (cases "n + POOL_BUDGET_RESERVE > POOL_MAX_SIZE")
  case True
  with assms(1) show ?thesis by (simp add: lifespan_start_def)
next
  case False
  let ?p = "p\<lparr>po_orphans := filter (alive_at p) (po_orphans p)\<rparr>"
  have al: "alive_at ?p i = alive_at p i" for i by (simp add: alive_at_def)
  have "length (filter (alive_at p) (po_orphans p)) \<le> 3"
    using assms(1) le_trans [OF length_filter_le] by (auto simp: pool_ok_def)
  then have ok1: "pool_ok ?p" using assms(1) unfolding pool_ok_def al by auto
  show ?thesis
  proof (cases "po_threads p \<noteq> [] \<or> po_orphans ?p \<noteq> [] \<or> n \<le> 0")
    case True
    with ok1 False show ?thesis by (auto simp: lifespan_start_def pool_start_def Let_def)
  next
    case start: False
    then have none: "\<not> alive_at p i" for i
      using assms(1) by (auto simp: pool_ok_def filter_empty_conv)
    have new: "alive_at (snd (pool_start n p)) i \<Longrightarrow> i \<in> set (po_threads (snd (pool_start n p))) \<and>
        wk_gen (po_workers (snd (pool_start n p)) ! i) = po_generation (snd (pool_start n p))" for i
      using start none [of i] by (auto simp: pool_start_def Let_def alive_at_def nth_append split: if_splits)
    have q: "po_threads (snd (pool_start n p)) = [length (po_workers p) ..< length (po_workers p) + nat n]" "po_orphans (snd (pool_start n p)) = []"
      "po_stop (snd (pool_start n p)) = Some (po_generation p + 1)" "po_generation (snd (pool_start n p)) = po_generation p + 1"
      "po_set (snd (pool_start n p)) = po_set p"
      using start by (simp_all add: pool_start_def Let_def)
    have n: "nat n \<noteq> 0" "nat n \<le> 3" using start False by (simp_all add: POOL_BUDGET_RESERVE_def POOL_MAX_SIZE_def)
    have set: "\<forall>e \<in> set (po_set p). e \<le> po_generation p + 1" using assms(1) by (auto simp: pool_ok_def)
    have "pool_ok (snd (pool_start n p))" unfolding pool_ok_def q using n set new [unfolded q] by simp
    then show ?thesis using False by (simp add: lifespan_start_def)
  qed
qed

lemma pool_ok_step:
  assumes "pool_ok p" "pool_step p e p'"
  shows "pool_ok p'"
  using assms(2)
proof cases
  case (step_start n)
  then show ?thesis using pool_ok_start assms(1) by simp
next
  case (step_request e)
  then show ?thesis using assms(1) by (auto simp: pool_ok_def request_stop_def alive_at_def)
next
  case (step_snapshot timed_out)
  then show ?thesis using assms(1) by (auto simp: pool_ok_def take_snapshot_def alive_at_def split: if_splits)
next
  case (step_stopped ts spent)
  then have "po_stop p \<noteq> None" using assms(1) by (auto simp: pool_ok_def)
  then have "po_threads p \<noteq> []" "po_orphans p = []" using assms(1) by (auto simp: pool_ok_def)
  moreover have "length (filter (alive_at p) (po_threads p)) \<le> 3"
    using assms(1) le_trans [OF length_filter_le] by (auto simp: pool_ok_def)
  moreover have "alive_at (finish_stop spent ts p) i = alive_at p i" for i by (simp add: finish_stop_def alive_at_def)
  ultimately show ?thesis using assms(1) step_stopped by (auto simp: pool_ok_def finish_stop_def)
next
  case step_outside
  note f = outside_frame [OF step_outside]
  then have "alive_at p' i = alive_at p i" for i by (simp add: alive_at_def)
  then show ?thesis using assms(1) f by (simp add: pool_ok_def)
next
  case (step_move i turn)
  then show ?thesis using pool_ok_move assms(1) by simp
qed

interpretation generations: step_invariant pool_step pool_ok
  by unfold_locales (rule pool_ok_step)

lemma empty_pool_ok: "pool_ok empty_pool"
  by (simp add: pool_ok_def empty_pool_def alive_at_def)

subsection \<open>No pool sleeps on work\<close>

text \<open>A thread that will claim before it waits.\<close>

definition active :: "worker \<Rightarrow> bool" where
  "active w \<longleftrightarrow> (case wk_pc w of AtTop \<Rightarrow> True | AtClear \<Rightarrow> True | AtDrain \<Rightarrow> True | Claiming \<Rightarrow> True | Granted t \<Rightarrow> True | Working t \<Rightarrow> True
     | _ \<Rightarrow> False)"

text \<open>The pool runs and is not told to stop; every committed job has been signalled, and the signal is gone.\<close>

definition silent :: "pool \<Rightarrow> bool" where
  "silent p \<longleftrightarrow> po_stop p = Some (po_generation p) \<and> po_generation p \<notin> set (po_set p) \<and> po_unsignalled p = 0 \<and> \<not> po_wake p"

definition unattended_work :: "pool \<Rightarrow> bool" where
  "unattended_work p \<longleftrightarrow> silent p \<and> \<not> set (po_work p) \<subseteq> set (po_unannounced p)"

definition attended :: "pool \<Rightarrow> bool" where
  "attended p \<longleftrightarrow> (unattended_work p \<longrightarrow> (\<exists>i < length (po_workers p). active (po_workers p ! i)))"

lemma attended_goto:
  assumes "i < length (po_workers p)" "active ((po_workers p ! i)\<lparr>wk_pc := q\<rparr>)" "po_workers p' = (po_workers p)[i := (po_workers p ! i)\<lparr>wk_pc := q\<rparr>]"
  shows "attended p'"
  using assms by (auto simp: attended_def intro!: exI [of _ i])

text \<open>The moves after which the thread itself is not active.\<close>

lemma attended_rest:
  assumes "attended p" "i < length (po_workers p)" "loop_step turn i p = Some p'" "\<not> active (po_workers p' ! i)" "unattended_work p'"
    "alive (po_workers p ! i) \<Longrightarrow> wk_gen (po_workers p ! i) = po_generation p"
  shows "unattended_work p \<and> \<not> active (po_workers p ! i)"
  using assms(2-6)
  by (cases "wk_pc (po_workers p ! i)"; cases turn) (auto simp: loop_defs active_def alive_def unattended_work_def silent_def stop_seen_def split: if_splits)

lemma attended_move:
  assumes "pool_ok p" "attended p" "i < length (po_workers p)" "loop_step turn i p = Some p'"
  shows "attended p'"
proof (cases "active (po_workers p' ! i)")
  case True
  obtain q where "po_workers p' = (po_workers p)[i := (po_workers p ! i)\<lparr>wk_pc := q\<rparr>]" using loop_step_frame [OF assms(4)] by blast
  with True assms(3) show ?thesis by (intro attended_goto [of i p q]) simp_all
next
  case False
  have here: "alive (po_workers p ! i) \<Longrightarrow> wk_gen (po_workers p ! i) = po_generation p" using assms(1,3) by (simp add: pool_ok_def alive_at_def)
  obtain q where q: "po_workers p' = (po_workers p)[i := (po_workers p ! i)\<lparr>wk_pc := q\<rparr>]" using loop_step_frame [OF assms(4)] by blast
  show ?thesis unfolding attended_def
  proof
    assume "unattended_work p'"
    from attended_rest [OF assms(2-4) False this here] assms(2) obtain k where
      k: "k < length (po_workers p)" "active (po_workers p ! k)" "\<not> active (po_workers p ! i)" by (auto simp: attended_def)
    then have "k \<noteq> i" by auto
    with k show "\<exists>k < length (po_workers p'). active (po_workers p' ! k)" by (auto simp: q intro!: exI [of _ k])
  qed
qed

lemma attended_start:
  assumes "attended p"
  shows "attended (snd (lifespan_start n p))"
proof (cases "po_workers (snd (lifespan_start n p)) = po_workers p \<and> unattended_work (snd (lifespan_start n p)) = unattended_work p")
  case True
  then show ?thesis using assms unfolding attended_def by simp
next
  case False
  then have started: "po_workers (snd (lifespan_start n p)) = po_workers p @ replicate (nat n) \<lparr>wk_gen = po_generation p + 1, wk_pc = AtTop\<rparr>" "0 < n"
    by (auto simp: lifespan_start_def pool_start_def Let_def unattended_work_def silent_def split: if_splits)
  then show ?thesis unfolding attended_def
    by (intro impI exI [of _ "length (po_workers p)"]) (simp add: nth_append active_def)
qed

text \<open>What happens outside leaves a signal, or no new announced job.\<close>

lemma outside_unattended: "outside e p = Some p' \<Longrightarrow> unattended_work p' \<Longrightarrow> unattended_work p"
  by (cases e) (auto simp: outside_def commit_job_def advance_due_def signal_def ripen_def expire_def appear_def vanish_def offer_silently_def drop_job_def
      unattended_work_def silent_def split: if_splits option.splits)

lemma attended_step:
  assumes "pool_ok p" "attended p" "pool_step p e p'"
  shows "attended p'"
  using assms(3)
proof cases
  case (step_start n)
  then show ?thesis using attended_start assms(2) by simp
next
  case (step_request e)
  then show ?thesis by (simp add: attended_def unattended_work_def silent_def request_stop_def)
next
  case (step_snapshot timed_out)
  then show ?thesis using assms(2) by (auto simp: attended_def unattended_work_def silent_def take_snapshot_def split: if_splits)
next
  case (step_stopped ts spent)
  then show ?thesis by (simp add: attended_def unattended_work_def silent_def finish_stop_def)
next
  case step_outside
  with outside_unattended outside_frame assms(2) show ?thesis by (simp add: attended_def)
next
  case (step_move i turn)
  then show ?thesis using attended_move assms(1,2) by simp
qed

text \<open>No thread of a running generation has left its loop.\<close>

definition manned :: "pool \<Rightarrow> bool" where
  "manned p \<longleftrightarrow> (\<forall>e. po_stop p = Some e \<and> e \<notin> set (po_set p) \<longrightarrow> (\<forall>i \<in> set (po_threads p). alive_at p i))"

lemma loop_step_stays:
  "loop_step turn i p = Some p' \<Longrightarrow> i < length (po_workers p) \<Longrightarrow> \<not> stop_seen i p \<Longrightarrow> wk_gen (po_workers p ! i) = po_generation p
   \<Longrightarrow> alive (po_workers p' ! i)"
  by (cases "wk_pc (po_workers p ! i)"; cases turn) (auto simp: loop_defs alive_def split: if_splits)

lemma manned_move:
  assumes "pool_ok p" "manned p" "i < length (po_workers p)" "loop_step turn i p = Some p'"
  shows "manned p'"
  unfolding manned_def
proof (intro allI impI ballI)
  fix e k assume e: "po_stop p' = Some e \<and> e \<notin> set (po_set p')" and k: "k \<in> set (po_threads p')"
  note f = loop_step_frame [OF assms(4)]
  have al: "alive_at p k" using e k f assms(2) by (auto simp: manned_def)
  show "alive_at p' k"
  proof (cases "k = i")
    case True
    have "wk_gen (po_workers p ! i) = po_generation p" "po_generation p = e" using al True assms(1) e f by (auto simp: pool_ok_def)
    then have "alive (po_workers p' ! i)" using loop_step_stays [OF assms(4,3)] e f by (simp add: stop_seen_def)
    with True assms(3) f show ?thesis by (auto simp: alive_at_def)
  next
    case False
    with al f show ?thesis by (auto simp: alive_at_def)
  qed
qed

lemma manned_start: "manned p \<Longrightarrow> manned (snd (lifespan_start n p))"
  by (auto simp: manned_def lifespan_start_def pool_start_def Let_def alive_at_def alive_def nth_append)

lemma manned_step:
  assumes "pool_ok p" "manned p" "pool_step p e p'"
  shows "manned p'"
  using assms(3)
proof cases
  case (step_start n)
  then show ?thesis using manned_start assms(2) by simp
next
  case (step_request e)
  then show ?thesis by (simp add: manned_def request_stop_def)
next
  case (step_snapshot timed_out)
  then have "p' = p\<lparr>po_phase := Releasing (po_held p)\<rparr>" by (auto simp: take_snapshot_def split: if_splits)
  then show ?thesis using assms(2) by (simp add: manned_def alive_at_def)
next
  case (step_stopped ts spent)
  then show ?thesis by (simp add: manned_def finish_stop_def)
next
  case step_outside
  with outside_frame assms(2) show ?thesis by (simp add: manned_def alive_at_def)
next
  case (step_move i turn)
  then show ?thesis using manned_move assms(1,2) by simp
qed

interpretation awake: step_invariant pool_step "\<lambda>p. pool_ok p \<and> manned p \<and> attended p"
  by unfold_locales (use pool_ok_step attended_step manned_step in blast)

subsection \<open>The registry of leases\<close>

definition in_flight :: "worker \<Rightarrow> bool" where
  "in_flight w \<longleftrightarrow> (case wk_pc w of Claiming \<Rightarrow> True | Granted t \<Rightarrow> True | EmptyHanded \<Rightarrow> True | _ \<Rightarrow> False)"

definition accounted :: "pool \<Rightarrow> nat \<Rightarrow> bool" where
  "accounted p t \<longleftrightarrow> t \<in> set (po_held p) \<or> t \<in> set (po_forgotten p) \<or> (\<exists>w \<in> set (po_workers p). wk_pc w = Granted t)"

definition registry_ok :: "pool \<Rightarrow> bool" where
  "registry_ok p \<longleftrightarrow> po_flight p = length (filter in_flight (po_workers p)) \<and> (\<forall>x \<in> set (po_leased p). accounted p (fst x))"

lemma loop_step_flight:
  assumes "loop_step turn i p = Some p'" "in_flight (po_workers p ! i) \<Longrightarrow> 0 < po_flight p"
  shows "\<exists>q. po_workers p' = (po_workers p)[i := (po_workers p ! i)\<lparr>wk_pc := q\<rparr>]
    \<and> po_flight p' + (if in_flight (po_workers p ! i) then 1 else 0) = po_flight p + (if in_flight ((po_workers p ! i)\<lparr>wk_pc := q\<rparr>) then 1 else 0)"
proof -
  have at: "in_flight (w\<lparr>wk_pc := q\<rparr>) \<longleftrightarrow> (case q of Claiming \<Rightarrow> True | Granted t \<Rightarrow> True | EmptyHanded \<Rightarrow> True | _ \<Rightarrow> False)" for w q
    by (simp add: in_flight_def)
  show ?thesis using assms unfolding at
    by (cases "wk_pc (po_workers p ! i)"; cases turn) (auto simp: loop_defs in_flight_def split: if_splits intro!: exI)
qed

text \<open>A lease that stands after a move stood before it, accounted for in the same way or forgotten now, or is the one just granted.\<close>

lemma loop_step_lease:
  assumes "loop_step turn i p = Some p'" "x \<in> set (po_leased p')"
  shows "(x \<in> set (po_leased p) \<and> (fst x \<in> set (po_held p) \<or> fst x \<in> set (po_forgotten p) \<longrightarrow> fst x \<in> set (po_held p') \<or> fst x \<in> set (po_forgotten p'))
        \<and> (wk_pc (po_workers p ! i) = Granted (fst x) \<longrightarrow> fst x \<in> set (po_held p')))
    \<or> po_workers p' = (po_workers p)[i := (po_workers p ! i)\<lparr>wk_pc := Granted (fst x)\<rparr>]"
  using assms by (cases "wk_pc (po_workers p ! i)"; cases turn) (auto simp: loop_defs dest!: end_lease_leased split: if_splits)

lemma registry_move:
  assumes "registry_ok p" "i < length (po_workers p)" "loop_step turn i p = Some p'"
  shows "registry_ok p'"
proof -
  let ?ws = "po_workers p" and ?w = "po_workers p ! i"
  have "0 < po_flight p" if "in_flight ?w"
    using that assms(1) nth_mem [OF assms(2)] by (auto simp: registry_ok_def filter_empty_conv)
  from loop_step_flight [OF assms(3) this] obtain q where q: "po_workers p' = ?ws[i := ?w\<lparr>wk_pc := q\<rparr>]"
    "po_flight p' + (if in_flight ?w then 1 else 0) = po_flight p + (if in_flight (?w\<lparr>wk_pc := q\<rparr>) then 1 else 0)" by blast
  have flight: "po_flight p' = length (filter in_flight (po_workers p'))"
    using q filter_update [OF assms(2), of in_flight "?w\<lparr>wk_pc := q\<rparr>"] assms(1) by (simp add: registry_ok_def)
  have other: "v \<in> set (po_workers p')" if "v \<in> set ?ws" "v \<noteq> ?w" for v
    using that assms(2) unfolding q by (metis in_set_conv_nth length_list_update nth_list_update_neq)
  have "accounted p' (fst x)" if x: "x \<in> set (po_leased p')" for x
    using loop_step_lease [OF assms(3) x]
  proof (elim disjE conjE)
    assume "x \<in> set (po_leased p)"
      and keep: "fst x \<in> set (po_held p) \<or> fst x \<in> set (po_forgotten p) \<longrightarrow> fst x \<in> set (po_held p') \<or> fst x \<in> set (po_forgotten p')"
      and hold: "wk_pc ?w = Granted (fst x) \<longrightarrow> fst x \<in> set (po_held p')"
    then have "accounted p (fst x)" using assms(1) by (simp add: registry_ok_def)
    then consider "fst x \<in> set (po_held p) \<or> fst x \<in> set (po_forgotten p)" | v where "v \<in> set ?ws" "wk_pc v = Granted (fst x)"
      by (auto simp: accounted_def)
    then show ?thesis by cases (use keep hold other in \<open>auto simp: accounted_def\<close>)
  next
    assume "po_workers p' = ?ws[i := ?w\<lparr>wk_pc := Granted (fst x)\<rparr>]"
    then have "?w\<lparr>wk_pc := Granted (fst x)\<rparr> \<in> set (po_workers p')" using set_update_memI [OF assms(2)] by simp
    then show ?thesis by (force simp: accounted_def)
  qed
  then show ?thesis using flight by (simp add: registry_ok_def)
qed

lemma registry_step:
  assumes "registry_ok p" "pool_step p e p'"
  shows "registry_ok p'"
  using assms(2)
proof cases
  case (step_start n)
  have "filter in_flight (replicate m \<lparr>wk_gen = g, wk_pc = AtTop\<rparr>) = []" for m g by (simp add: in_flight_def)
  then show ?thesis using step_start assms(1) by (auto simp: registry_ok_def accounted_def lifespan_start_def pool_start_def Let_def)
next
  case (step_move i turn)
  then show ?thesis using registry_move assms(1) by simp
next
  case (step_stopped ts spent)
  then show ?thesis using assms(1) by (auto simp: registry_ok_def accounted_def finish_stop_def)
next
  case step_outside
  with outside_frame assms(1) show ?thesis by (simp add: registry_ok_def accounted_def)
next
  case (step_snapshot timed_out)
  then have "p' = p\<lparr>po_phase := Releasing (po_held p)\<rparr>" by (auto simp: take_snapshot_def split: if_splits)
  then show ?thesis using assms(1) by (simp add: registry_ok_def accounted_def)
next
  case (step_request e)
  then show ?thesis using assms(1) by (simp add: registry_ok_def accounted_def request_stop_def)
qed

interpretation registry: step_invariant pool_step registry_ok
  by unfold_locales (rule registry_step)

lemma empty_attended: "manned empty_pool \<and> attended empty_pool" and empty_registry: "registry_ok empty_pool"
  by (simp_all add: manned_def attended_def unattended_work_def registry_ok_def empty_pool_def)

subsection \<open>Running a sequence of events\<close>

fun pool_next :: "pool_event \<Rightarrow> pool \<Rightarrow> pool option" where
  "pool_next (Started n) p = (if po_phase p = Quiet then Some (snd (lifespan_start n p)) else None)"
| "pool_next StopRequested p = (case po_stop p of None \<Rightarrow> None | Some e \<Rightarrow> if po_phase p = Quiet then Some (request_stop e p) else None)"
| "pool_next (Snapshot timed_out) p = (if po_phase p = Joining then take_snapshot timed_out p else None)"
| "pool_next (Stopped spent) p = (case po_phase p of Releasing ts \<Rightarrow> Some (finish_stop spent ts p) | _ \<Rightarrow> None)"
| "pool_next (Moved turn i) p = (if i < length (po_workers p) then loop_step turn i p else None)"
| "pool_next e p = outside e p"

lemma pool_next_step: "pool_next e p = Some p' \<longleftrightarrow> pool_step p e p'"
proof
  assume "pool_next e p = Some p'"
  then show "pool_step p e p'"
    by (cases e) (auto intro: pool_step.intros split: if_splits option.splits stop_phase.splits)
next
  assume "pool_step p e p'"
  then show "pool_next e p = Some p'"
  proof cases
    case step_outside
    then show ?thesis by (cases e) (simp_all add: outside_def)
  qed auto
qed

fun pool_run :: "pool_event list \<Rightarrow> pool \<Rightarrow> pool option" where
  "pool_run [] p = Some p"
| "pool_run (e # es) p = Option.bind (pool_next e p) (pool_run es)"

lemma pool_run_run_of: "pool_run es p = Some p' \<Longrightarrow> run_of pool_step p es p'"
proof (induction es arbitrary: p)
  case Nil
  then show ?case by (simp add: run_of_nil)
next
  case (Cons e es)
  then obtain q where "pool_next e p = Some q" "pool_run es q = Some p'" by (auto split: bind_splits)
  then show ?case using run_of_cons [OF iffD1 [OF pool_next_step] Cons.IH] by simp
qed

subsection \<open>The pool\<close>

text \<open>C38. However starts, stops, timed-out joins and the threads interleave, every live thread belongs to the current
  generation, and the live threads leave the reserve of connections that the rest of the
  application needs.\<close>

theorem one_generation_within_budget:
  assumes "run_of pool_step empty_pool es p"
  shows "(\<forall>w \<in> set (po_workers p). alive w \<longrightarrow> wk_gen w = po_generation p)
    \<and> int (length (filter alive (po_workers p))) + POOL_BUDGET_RESERVE \<le> POOL_MAX_SIZE"
proof -
  have ok: "pool_ok p" using generations.along_run [OF assms empty_pool_ok] .
  let ?live = "{i. i < length (po_workers p) \<and> alive (po_workers p ! i)}"
  have in_one: "?live \<subseteq> set (if po_threads p = [] then po_orphans p else po_threads p)" (is "_ \<subseteq> set ?ts")
  proof
    fix i assume "i \<in> ?live"
    then have "alive_at p i" by (simp add: alive_at_def)
    then have "i \<in> set (po_threads p) \<or> i \<in> set (po_orphans p)" "po_threads p \<noteq> [] \<longrightarrow> po_orphans p = []"
      using ok by (simp_all add: pool_ok_def)
    then show "i \<in> set ?ts" by auto
  qed
  have "card ?live \<le> card (set ?ts)" by (rule card_mono [OF _ in_one]) simp
  also have "\<dots> \<le> length ?ts" by (rule card_length)
  also have "\<dots> \<le> 3" using ok by (simp add: pool_ok_def)
  finally have "card ?live \<le> 3" .
  moreover have "wk_gen w = po_generation p" if "w \<in> set (po_workers p)" "alive w" for w
    using that ok by (auto simp: pool_ok_def alive_at_def in_set_conv_nth)
  ultimately show ?thesis by (simp add: length_filter_conv_card POOL_BUDGET_RESERVE_def POOL_MAX_SIZE_def)
qed

text \<open>Where a job that no signal announced comes from.\<close>

lemma step_unannounced:
  assumes "pool_step p e p'" "j \<in> set (po_unannounced p')"
  shows "j \<in> set (po_unannounced p) \<or> e \<in> {Ripened j, Appeared j} \<union> range Expired"
  using assms(1)
proof cases
  case (step_move i turn)
  with assms(2) show ?thesis
    by (cases "wk_pc (po_workers p ! i)"; cases turn) (auto simp: loop_defs end_lease_def split: if_splits option.splits)
next
  case step_outside
  with assms(2) show ?thesis
    by (cases e) (auto simp: outside_def commit_job_def advance_due_def signal_def ripen_def expire_def appear_def vanish_def offer_silently_def drop_job_def
        split: if_splits option.splits)
qed (use assms(2) in \<open>auto simp: lifespan_start_def pool_start_def Let_def request_stop_def take_snapshot_def finish_stop_def split: if_splits\<close>)

lemma run_unannounced:
  "run_of pool_step p es p' \<Longrightarrow> j \<in> set (po_unannounced p') \<Longrightarrow> po_unannounced p = [] \<Longrightarrow> \<exists>e \<in> set es. e \<in> {Ripened j, Appeared j} \<union> range Expired"
proof (induction rule: run_of.induct)
  case (run_of_snoc s es t e u)
  from step_unannounced [OF run_of_snoc.hyps(2) run_of_snoc.prems(1)] run_of_snoc.IH run_of_snoc.prems(2) show ?case by auto
qed simp

text \<open>The timeout of a wait, and the moves of the thread until its claim.\<close>

definition poll_of :: "nat \<Rightarrow> nat \<Rightarrow> pool_event list" where
  "poll_of i j = [Moved Odd i, Moved Usual i, Moved Usual i, Moved Usual i, Moved (Takes j) i]"

lemma poll_takes:
  assumes "i < length (po_workers p)" "wk_pc (po_workers p ! i) = AtWait" "\<not> stop_seen i p" "wk_gen (po_workers p ! i) = po_generation p"
    "j \<in> set (po_work p)"
  shows "\<exists>p'. pool_run (poll_of i j) p = Some p' \<and> (po_next p, j) \<in> set (po_leased p')"
  using assms by (simp add: poll_of_def loop_step_def stop_seen_def claim_lease_def drop_job_def)

text \<open>C39. No pool sleeps on announced work, and none sleeps through its poll. Let the pool run, not told to stop, every commit
  signalled and the signal consumed. A claimable job then finds a live thread of the running generation; some thread is not asleep and will
  claim before it waits, or no signal has announced the job: its delay or a lease ran out, or it appeared from elsewhere. Such a job waits for the slow
  poll and no longer: whichever sleeping thread times out can lease it in its next four moves. Clearing before the drain is what makes the first part true.\<close>

theorem no_pool_sleeps_on_work:
  assumes "run_of pool_step empty_pool es p" "silent p" "j \<in> set (po_work p)"
  shows "(\<exists>w \<in> set (po_workers p). alive w \<and> wk_gen w = po_generation p)
    \<and> ((\<exists>w \<in> set (po_workers p). active w \<and> wk_gen w = po_generation p)
       \<or> j \<in> set (po_unannounced p) \<and> (\<exists>e \<in> set es. e \<in> {Ripened j, Appeared j} \<union> range Expired))
    \<and> (\<forall>i < length (po_workers p). wk_pc (po_workers p ! i) = AtWait
         \<longrightarrow> (\<exists>p'. pool_run (poll_of i j) p = Some p' \<and> (po_next p, j) \<in> set (po_leased p')))"
proof (intro conjI)
  have ok: "pool_ok p" "manned p" "attended p" using awake.along_run [OF assms(1)] empty_pool_ok empty_attended by simp_all
  have gen: "wk_gen (po_workers p ! i) = po_generation p" if "i < length (po_workers p)" "alive (po_workers p ! i)" for i
    using ok(1) that by (simp add: pool_ok_def alive_at_def)
  have run: "po_stop p = Some (po_generation p)" "po_generation p \<notin> set (po_set p)" using assms(2) by (simp_all add: silent_def)
  then obtain i where "i \<in> set (po_threads p)" using ok(1) by (cases "po_threads p") (auto simp: pool_ok_def)
  with ok(2) run have "i < length (po_workers p)" "alive (po_workers p ! i)" by (auto simp: manned_def alive_at_def)
  with gen show "\<exists>w \<in> set (po_workers p). alive w \<and> wk_gen w = po_generation p" using nth_mem by blast
  show "(\<exists>w \<in> set (po_workers p). active w \<and> wk_gen w = po_generation p)
      \<or> j \<in> set (po_unannounced p) \<and> (\<exists>e \<in> set es. e \<in> {Ripened j, Appeared j} \<union> range Expired)"
  proof (cases "j \<in> set (po_unannounced p)")
    case True
    then show ?thesis using run_unannounced [OF assms(1) True] by (simp add: empty_pool_def)
  next
    case False
    then have "unattended_work p" using assms(2,3) by (auto simp: unattended_work_def)
    then obtain k where k: "k < length (po_workers p)" "active (po_workers p ! k)" using ok(3) by (auto simp: attended_def)
    moreover have "alive (po_workers p ! k)" using k(2) by (auto simp: alive_def active_def)
    ultimately show ?thesis using gen nth_mem by blast
  qed
  show "\<forall>i < length (po_workers p). wk_pc (po_workers p ! i) = AtWait
      \<longrightarrow> (\<exists>p'. pool_run (poll_of i j) p = Some p' \<and> (po_next p, j) \<in> set (po_leased p'))"
    using poll_takes [OF _ _ _ _ assms(3)] gen run by (simp add: stop_seen_def alive_def)
qed

text \<open>A shutdown that waits for the claims in flight loses no lease its registry still knows: the snapshot holds every lease the database has granted
  to a thread of this process, but for those whose token a fenced settlement dropped, so the release that follows leaves no other.\<close>

theorem snapshot_covers_every_lease:
  assumes "run_of pool_step empty_pool es p" "take_snapshot False p = Some p'"
  shows "po_phase p' = Releasing (po_held p) \<and> fst ` set (po_leased p) \<subseteq> set (po_held p) \<union> set (po_forgotten p)
    \<and> fst ` set (po_leased (finish_stop spent (po_held p) p')) \<subseteq> set (po_forgotten p)"
proof -
  have r: "registry_ok p" using registry.along_run [OF assms(1) empty_registry] .
  have p': "po_flight p = 0" "p' = p\<lparr>po_phase := Releasing (po_held p)\<rparr>" using assms(2) by (auto simp: take_snapshot_def split: if_splits)
  then have "\<not> (\<exists>w \<in> set (po_workers p). wk_pc w = Granted t)" for t
    using r by (auto simp: registry_ok_def filter_empty_conv in_flight_def)
  then have "fst ` set (po_leased p) \<subseteq> set (po_held p) \<union> set (po_forgotten p)" using r by (auto simp: registry_ok_def accounted_def)
  then show ?thesis by (auto simp: p'(2) finish_stop_def)
qed

text \<open>Two threads and two jobs: the second thread has just found nothing when both jobs are signalled; the first one clears the
  signal, takes one job and works; the second one goes to sleep on the other.\<close>

definition shared_clear :: "pool_event list" where
  "shared_clear = Started 2 # replicate 5 (Moved Usual 1) @ [Committed 0 False, Signalled, Committed 1 False, Signalled]
     @ replicate 3 (Moved Usual 0) @ [Moved (Takes 0) 0, Moved Usual 0, Moved Usual 1]"

definition slept :: pool where
  "slept = the (pool_run shared_clear empty_pool)"

lemma second_worker_sleeps_on_work:
  "pool_run shared_clear empty_pool = Some slept \<and> silent slept \<and> po_work slept = [1] \<and> map wk_pc (po_workers slept) = [Working 0, AtWait]"
  by code_simp

text \<open>The first job is retried and its delay runs out while both threads sleep: nobody has signalled, and only the poll finds it.\<close>

definition retried_alone :: "pool_event list" where
  "retried_alone = [Started 1, Committed 0 False, Signalled] @ replicate 3 (Moved Usual 0) @ [Moved (Takes 0) 0, Moved Usual 0, Moved Retried 0]
     @ replicate 6 (Moved Usual 0) @ [Ripened 0]"

lemma ripened_job_waits:
  "case pool_run retried_alone empty_pool of None \<Rightarrow> False
   | Some p \<Rightarrow> silent p \<and> po_work p = [0] \<and> po_unannounced p = [0] \<and> map wk_pc (po_workers p) = [AtWait]
       \<and> map_option po_leased (pool_run (poll_of 0 0) p) = Some [(1, 0)]"
  by code_simp

theorem no_pool_sleeps_on_work_witness:
  "(\<exists>w \<in> set (po_workers slept). active w \<and> wk_gen w = po_generation slept)
   \<and> (\<exists>p'. pool_run (poll_of 1 1) slept = Some p' \<and> (po_next slept, 1) \<in> set (po_leased p'))"
proof -
  have s: "pool_run shared_clear empty_pool = Some slept" "silent slept" "1 \<in> set (po_work slept)" "map wk_pc (po_workers slept) = [Working 0, AtWait]"
    using second_worker_sleeps_on_work by simp_all
  have "length (map wk_pc (po_workers slept)) = 2" "map wk_pc (po_workers slept) ! 1 = AtWait" unfolding s(4) by simp_all
  then have w: "1 < length (po_workers slept)" "wk_pc (po_workers slept ! 1) = AtWait" by simp_all
  have "\<not> (\<exists>e \<in> set shared_clear. e \<in> {Ripened 1, Appeared 1} \<union> range Expired)" by (auto simp: shared_clear_def)
  with no_pool_sleeps_on_work [OF pool_run_run_of [OF s(1)] s(2,3)] w show ?thesis by blast
qed

theorem one_generation_within_budget_witness: "int (length (filter alive (po_workers slept))) + POOL_BUDGET_RESERVE \<le> POOL_MAX_SIZE"
  using one_generation_within_budget [OF pool_run_run_of] second_worker_sleeps_on_work by blast

definition stopping :: pool where
  "stopping = the (pool_run [StopRequested] slept)"

theorem snapshot_covers_every_lease_witness:
  "po_leased slept = [(0, 0)] \<and> po_leased (finish_stop [] (po_held stopping) (the (take_snapshot False stopping))) = []"
proof -
  have s: "pool_run (shared_clear @ [StopRequested]) empty_pool = Some stopping" "take_snapshot False stopping = Some (the (take_snapshot False stopping))"
    "po_leased slept = [(0, 0)]" "po_forgotten stopping = []"
    by code_simp+
  from snapshot_covers_every_lease [OF pool_run_run_of [OF s(1)] s(2), of "[]"] s(3,4) show ?thesis by simp
qed

end
