(* ===== verification/Lifecycle.thy ===== *)
theory Lifecycle
  imports Worker Console Pool
begin

section \<open>A pipeline job from claim to settlement\<close>

text \<open>
  The parts put together: one step of the worker (\<open>app/queue/drain.py\<close>) claims a job, its handler
  (\<open>app/queue/handlers\<close>) claims the run and drives the pipeline, and the settlement closes job and run. What
  a pipeline adds to the tables on the way keeps the claimed row in place. The contract of a
  handler is the locale \<open>settling_handler\<close>; the step is proved once inside it, and the handlers of the first
  run, of a reply, of an operator's resolution and their dispatch are interpretations.
\<close>

subsection \<open>What a pipeline may do to the tables\<close>

definition untouched :: "db \<Rightarrow> db \<Rightarrow> bool" where
  "untouched d e \<longleftrightarrow> db_jobs e = db_jobs d \<and> db_outbound e = db_outbound d \<and> map run_id (db_runs e) = map run_id (db_runs d)"

definition only_adds :: "db \<Rightarrow> db \<Rightarrow> bool" where
  "only_adds d e \<longleftrightarrow> db_ok e \<and> (\<exists>new. db_jobs e = db_jobs d @ new)"

definition fresh_ids :: "slot_ids \<Rightarrow> db \<Rightarrow> bool" where
  "fresh_ids ids d \<longleftrightarrow> sl_job ids \<notin> job_id ` set (db_jobs d) \<and> sl_email ids \<notin> ob_email ` set (db_outbound d)"

lemma untouched_ok: "untouched d e \<Longrightarrow> db_ok d \<Longrightarrow> db_ok e" and untouched_fresh: "untouched d e \<Longrightarrow> fresh_ids ids d \<Longrightarrow> fresh_ids ids e"
  by (simp_all add: untouched_def db_ok_def fresh_ids_def)

lemma untouched_adds: "untouched d e \<Longrightarrow> only_adds e g \<Longrightarrow> only_adds d g"
  by (simp add: untouched_def only_adds_def)

lemma untouched_refl [simp]: "untouched d d"
  by (simp add: untouched_def)

lemma only_adds_refl: "db_ok d \<Longrightarrow> only_adds d d"
  by (simp add: only_adds_def)

lemma untouched_update: "(\<And>r. run_id r = run \<Longrightarrow> run_id (f r) = run) \<Longrightarrow> untouched d (update_run run f d)"
  using map_update_rows [of "\<lambda>r. run_id r = run" run_id f "db_runs d"] by (simp add: untouched_def update_run_def)

text \<open>A chain whose head leaves the tables alone.\<close>

lemma chain_adds:
  assumes "untouched d (snd (m d))" "db_ok d" "\<And>x e. m d = (Inr x, e) \<Longrightarrow> only_adds e (snd (f x e))"
  shows "only_adds d (snd (staged_bind m f d))"
proof (cases "m d")
  case (Pair q e)
  then have u: "untouched d e" using assms(1) by simp
  show ?thesis
  proof (cases q)
    case (Inl res)
    with Pair u assms(2) show ?thesis by (simp add: staged_bind_def only_adds_def untouched_def db_ok_def)
  next
    case (Inr x)
    with Pair assms(3) untouched_adds [OF u] show ?thesis by (simp add: staged_bind_def)
  qed
qed

lemma reading_adds:
  assumes "db_ok d" "\<And>x. g d = Inr x \<Longrightarrow> only_adds d (snd (f x d))"
  shows "only_adds d (snd (staged_bind (at_stage st (reading g)) f d))"
  using assms only_adds_refl by (cases "g d") (simp_all add: staged_bind_def at_stage_def reading_def)

lemma extract_adds:
  assumes "db_ok d" "\<And>x. only_adds d (snd (f x d))"
  shows "only_adds d (snd (staged_bind (extract_from ri m ros) f d))"
  using assms only_adds_refl by (cases "ri_extract ri m ros") (simp_all add: staged_bind_def extract_from_def)

lemma writing_adds:
  assumes "untouched d (w d)" "only_adds (w d) (snd (f () (w d)))"
  shows "only_adds d (snd (staged_bind (at_stage st (writing w)) f d))"
  using untouched_adds [OF assms] by (simp add: staged_bind_def at_stage_def writing_def)

lemma gate_untouched:
  assumes "load_run run d = Some r"
  shows "untouched d (snd (at_stage st (gate_and_persist u ri run ros si x) d))"
proof -
  have "untouched d (update_run run (\<lambda>_. r') d)" if "run_stages u (ri_stub_id ri) (ri_clock ri) ros si x r = Inr (r', sr)" for r' sr
    by (rule untouched_update) (use run_stages_row [OF that] load_run_Some [OF assms] in simp)
  then show ?thesis using assms by (auto simp: at_stage_def gate_and_persist_eq split: sum.split)
qed

subsection \<open>A question adds one job\<close>

lemma enqueue_send_adds:
  assumes "enqueue_send now cfg jid run email d = Inr d'" "jid \<notin> job_id ` set (db_jobs d)" "db_ok d"
  shows "only_adds d d' \<and> db_runs d' = db_runs d \<and> db_outbound d' = db_outbound d"
proof -
  obtain i js where e: "enqueue_job now cfg jid (plain_request SendOutbound (send_outbound_dedup_key email) run (Some email) None) (db_jobs d) = Inr (i, js)"
    and d': "d' = d\<lparr>db_jobs := js\<rparr>" using assms(1) by (auto simp: enqueue_send_def enqueue_on_def res_simps)
  show ?thesis using enqueue_job_Inr [OF e assms(2)] assms(3) d'
    by (auto simp: only_adds_def db_ok_def fresh_row_def)
qed

lemma await_untouched: "untouched d (await_reply run x n d)"
  unfolding await_reply_def by (rule untouched_update) (simp add: set_status_def set_clarification_round_def set_pre_clarify_extracted_def)

lemma adds_untouched: "only_adds d e \<Longrightarrow> untouched e g \<Longrightarrow> only_adds d g"
  using untouched_ok [of e g] by (auto simp: only_adds_def untouched_def)

lemma ask_adds:
  assumes "ask u cfg ri run m dec ros x p n d = Inr d'" "db_ok d" "fresh_ids (rd_ids ri) d"
  shows "only_adds d d'"
proof -
  let ?sg = "suggest_employees (unresolved_names dec) ros (rd_suggest ri)"
  obtain ob d1 d2 where res: "reserve_outbound_snapshot (rd_now ri) (rd_ids ri) run p (int n)
        (clarification_envelope cfg m (compose_clarification (rd_draft ri) dec ?sg)) d = Inr (ob, d1)"
    and enq: "enqueue_send (rd_now ri) (cf_job_attempts cfg) (sl_job (rd_ids ri)) run (ob_email ob) d1 = Inr d2"
    and d': "d' = await_reply run x (ob_round ob + 1)
           (case capture u dec ros ?sg of None \<Rightarrow> d2 | Some cs \<Rightarrow> update_run run (set_alias_candidates cs) d2)"
    using assms(1) by (auto simp: ask_def Let_def res_simps)
  have d1: "db_jobs d1 = db_jobs d \<and> db_ok d1" using res
  proof (cases rule: reserve_cases)
    case (new e)
    then show ?thesis using assms(2,3) by (simp add: db_ok_def fresh_ids_def)
  qed (use assms(2) in simp)
  then have 2: "only_adds d d2" using enqueue_send_adds [OF enq] assms(3) by (simp add: only_adds_def fresh_ids_def)
  have "untouched d2 (case capture u dec ros ?sg of None \<Rightarrow> d2 | Some cs \<Rightarrow> update_run run (set_alias_candidates cs) d2)"
    by (auto intro!: untouched_update simp: set_alias_candidates_def split: option.split)
  then show ?thesis unfolding d' using 2 adds_untouched await_untouched by blast
qed

lemma clarify_adds:
  assumes "db_ok d" "fresh_ids (rd_ids ri) d"
  shows "only_adds d (snd (at_stage st (clarify u cfg ri run m dec ros x p) d))"
proof -
  have esc: "untouched d (update_run run (set_status NEEDS_OPERATOR) d)" by (rule untouched_update) (simp add: set_status_def)
  have again: "only_adds d d'" if "ask_again cfg ri run email x d = Inr d'" for email d'
  proof -
    have "\<exists>n d1. enqueue_send (rd_now ri) (cf_job_attempts cfg) (sl_job (rd_ids ri)) run email d = Inr d1 \<and> d' = await_reply run x n d1"
      using that by (cases "lock_frozen_snapshot run email d") (auto simp: ask_again_def res_simps)
    then obtain n d1 where e: "enqueue_send (rd_now ri) (cf_job_attempts cfg) (sl_job (rd_ids ri)) run email d = Inr d1"
      and d': "d' = await_reply run x n d1" by blast
    have "only_adds d d1" using enqueue_send_adds [OF e _ assms(1)] assms(2) by (simp add: fresh_ids_def)
    then show ?thesis unfolding d' by (rule adds_untouched) (rule await_untouched)
  qed
  note quiet = untouched_adds [OF _ only_adds_refl]
  obtain q d' where q: "clarify u cfg ri run m dec ros x p d = (q, d')" by (cases "clarify u cfg ri run m dec ros x p d")
  have "only_adds d d'"
  proof (cases q)
    case (Inl e)
    with q clarify_error [of u cfg ri run m dec ros x p d e d'] show ?thesis using only_adds_refl [OF assms(1)] by simp
  next
    case (Inr y)
    consider "d' = update_run run (set_status NEEDS_OPERATOR) d" | n where "d' = await_reply run x n d"
      | email where "ask_again cfg ri run email x d = Inr d'" | n where "ask u cfg ri run m dec ros x p n d = Inr d'"
      using q Inr by (auto simp: clarify_def Let_def writing_def transaction_Inr split: if_splits option.splits)
    then show ?thesis
    proof cases
      case 1
      then show ?thesis using adds_untouched [OF only_adds_refl [OF assms(1)] esc] by simp
    next
      case 2
      then show ?thesis using adds_untouched [OF only_adds_refl [OF assms(1)] await_untouched] by simp
    next
      case 3
      then show ?thesis by (rule again)
    next
      case 4
      then show ?thesis by (rule ask_adds [OF _ assms])
    qed
  qed
  then show ?thesis using q by (cases q) (simp_all add: at_stage_def)
qed

lemma run_stages_on_adds:
  assumes "db_ok d" "fresh_ids (rd_ids (ri_round ri)) d" "load_run run d = Some r"
  shows "only_adds d (snd (run_stages_on u cfg ri run m ros si x d))"
  unfolding run_stages_on_def
proof (rule chain_adds, rule gate_untouched [OF assms(3)], rule assms(1))
  fix sr e assume g: "at_stage StageCompute (gate_and_persist u ri run ros si x) d = (Inr sr, e)"
  have u: "untouched d e" using gate_untouched [OF assms(3), of StageCompute u ri ros si x] g by simp
  have ok: "db_ok e" "fresh_ids (rd_ids (ri_round ri)) e" using untouched_ok [OF u assms(1)] untouched_fresh [OF u assms(2)] by simp_all
  have ret: "only_adds e (snd (staged_return sr e))" using only_adds_refl [OF ok(1)] by (simp add: staged_return_def)
  have bind: "only_adds e (snd (staged_bind m' (\<lambda>_. staged_return sr) e))" if "only_adds e (snd (m' e))" for m' :: "unit staged"
    using that by (cases "m' e") (auto simp: staged_bind_def staged_return_def split: sum.split)
  have cl: "only_adds e (snd (staged_bind (at_stage StageClarification (clarify u cfg (ri_round ri) run m dec ros x' PurposeClarification)) (\<lambda>_. staged_return sr) e))" for dec x'
    by (rule bind, rule clarify_adds [OF ok])
  show "only_adds e (snd ((case sr_branch sr of
          ClarifyNow dec x' \<Rightarrow>
            staged_bind (at_stage StageClarification (clarify u cfg (ri_round ri) run m dec ros x' PurposeClarification)) (\<lambda>_. staged_return sr)
        | _ \<Rightarrow> staged_return sr) e))"
    using ret cl by (cases "sr_branch sr") simp_all
qed

lemma run_body_adds:
  assumes "db_ok d" "fresh_ids (rd_ids (ri_round ri)) d" "load_run run d = Some r"
  shows "only_adds d (snd (run_body u cfg ri run d))"
  unfolding run_body_def find_run_def load_roster_def
proof ((rule reading_adds [OF assms(1)])+, rule writing_adds)
  let ?d = "update_run run (set_status EXTRACTING) d"
  show u: "untouched d ?d" by (rule untouched_update) (simp add: set_status_def)
  have ok: "db_ok ?d" "fresh_ids (rd_ids (ri_round ri)) ?d" using untouched_ok [OF u assms(1)] untouched_fresh [OF u assms(2)] by simp_all
  have r: "load_run run ?d = Some (set_status EXTRACTING r)" by (rule load_run_update_same) (simp_all add: set_status_def assms(3))
  fix m ros
  have "only_adds ?d (snd (staged_bind (run_stages_on u cfg ri run m ros first_inputs x) (\<lambda>sr. staged_return ()) ?d))" for x
    using run_stages_on_adds [OF ok r, of u cfg m ros first_inputs x]
    by (cases "run_stages_on u cfg ri run m ros first_inputs x ?d") (auto simp: staged_bind_def staged_return_def split: sum.split)
  then show "only_adds ?d (snd (staged_bind (extract_from ri m ros)
      (\<lambda>x. staged_bind (run_stages_on u cfg ri run m ros first_inputs x) (\<lambda>sr. staged_return ())) ?d))"
    by (rule extract_adds [OF ok(1)])
qed

subsection \<open>A resume adds no more\<close>

lemma staged_bind_assoc: "staged_bind (staged_bind m f) g = staged_bind m (\<lambda>x. staged_bind (f x) g)"
  by (auto simp: staged_bind_def fun_eq_iff split: prod.split sum.split)

lemma staged_return_bind: "staged_bind (staged_return x) f = f x"
  by (simp add: staged_bind_def staged_return_def fun_eq_iff)

lemma at_stage_snd: "snd (at_stage st m d) = snd (m d)"
  by (auto simp: at_stage_def split: prod.split sum.split)

lemma bind_aliases_untouched: "untouched d (bind_aliases u ros run cs d)"
  by (auto intro!: untouched_update simp: bind_aliases_def Let_def set_alias_candidates_def)

lemma defer_adds:
  assumes "db_ok d" "fresh_ids (rd_ids ri) d"
  shows "only_adds d (snd (at_stage st (defer_field_regression_clarification u cfg ri run c issues m ros) d))"
proof -
  define c' where "c' = mark_regressions (case Option.bind (load_run run d) reconciliation of None \<Rightarrow> [] | Some ms \<Rightarrow> matched_ids ms) issues c"
  let ?d = "update_run run (set_clarified_fields c') d"
  have u: "untouched d ?d" by (rule untouched_update) (simp add: set_clarified_fields_def)
  have ok: "db_ok ?d" "fresh_ids (rd_ids ri) ?d" using untouched_ok [OF u assms(1)] untouched_fresh [OF u assms(2)] by simp_all
  have "defer_field_regression_clarification u cfg ri run c issues m ros d = (Inr (), ?d)
    \<or> (\<exists>dec x. defer_field_regression_clarification u cfg ri run c issues m ros d = clarify u cfg ri run m dec ros x PurposeFieldRegression ?d)"
    by (auto simp: defer_field_regression_clarification_def act_bind_def reading_def writing_def act_return_def c'_def split: option.split)
  moreover have "only_adds ?d (snd (clarify u cfg ri run m dec ros x PurposeFieldRegression ?d))" for dec x
    using clarify_adds [OF ok, of StageLoad] by (simp add: at_stage_snd)
  ultimately show ?thesis using untouched_adds [OF u] only_adds_refl [OF ok(1)] by (auto simp: at_stage_snd)
qed

lemma after_stages_adds:
  assumes "db_ok d" "sr_branch sr = Deferred \<Longrightarrow> fresh_ids (rd_ids (ri_round ri)) d"
  shows "only_adds d (snd (after_stages u cfg ri run c m ros cs sr d))"
  using defer_adds [OF assms(1)] assms(2) adds_untouched [OF only_adds_refl [OF assms(1)] bind_aliases_untouched]
  by (simp add: after_stages_def at_stage_snd writing_def)

lemma stages_then_adds:
  assumes "db_ok d" "fresh_ids (rd_ids (ri_round ri)) d" "load_run run d = Some r"
  shows "only_adds d (snd (staged_bind (run_stages_on u cfg ri run m ros si x) (after_stages u cfg ri run c m ros cs) d))"
  unfolding run_stages_on_def staged_bind_assoc
proof (rule chain_adds, rule gate_untouched [OF assms(3)], rule assms(1))
  fix sr e assume g: "at_stage StageCompute (gate_and_persist u ri run ros si x) d = (Inr sr, e)"
  have u: "untouched d e" using gate_untouched [OF assms(3), of StageCompute u ri ros si x] g by simp
  have ok: "db_ok e" "fresh_ids (rd_ids (ri_round ri)) e" using untouched_ok [OF u assms(1)] untouched_fresh [OF u assms(2)] by simp_all
  have after: "only_adds e' (snd (after_stages u cfg ri run c m ros cs sr e'))" if "db_ok e'" "sr_branch sr = Deferred \<Longrightarrow> e' = e" for e'
    by (rule after_stages_adds) (use that ok in auto)
  show "only_adds e (snd (staged_bind (case sr_branch sr of
          ClarifyNow dec x' \<Rightarrow>
            staged_bind (at_stage StageClarification (clarify u cfg (ri_round ri) run m dec ros x' PurposeClarification)) (\<lambda>_. staged_return sr)
        | _ \<Rightarrow> staged_return sr) (after_stages u cfg ri run c m ros cs) e))"
  proof (cases "sr_branch sr")
    case (ClarifyNow dec x')
    obtain q e1 where q: "at_stage StageClarification (clarify u cfg (ri_round ri) run m dec ros x' PurposeClarification) e = (q, e1)"
      by (cases "at_stage StageClarification (clarify u cfg (ri_round ri) run m dec ros x' PurposeClarification) e")
    have e1: "only_adds e e1" using clarify_adds [OF ok, of StageClarification u cfg run m dec ros x' PurposeClarification] q by simp
    have "only_adds e (snd (after_stages u cfg ri run c m ros cs sr e1))"
      using adds_untouched [OF e1 bind_aliases_untouched] ClarifyNow by (simp add: after_stages_def at_stage_snd writing_def)
    with e1 q ClarifyNow show ?thesis by (cases q) (simp_all add: staged_bind_def staged_return_def)
  qed (use after [OF ok(1)] in \<open>simp_all add: staged_return_bind\<close>)
qed

lemma resume_body_adds:
  assumes "db_ok d" "fresh_ids (rd_ids (ri_round ri)) d" "load_run run d = Some r"
  shows "only_adds d (snd (resume_body u cfg ri run m ovs d))"
  unfolding resume_body_def find_run_def load_roster_def
proof ((rule reading_adds [OF assms(1)])+)
  fix rr ros cm
  let ?go = "\<lambda>c x si. staged_bind (run_stages_on u cfg ri run cm ros si x) (after_stages u cfg ri run c cm ros (pre_candidates rr))"
  have second: "only_adds d (snd (staged_bind (at_stage StagePersist (writing (update_run run (set_clarified_fields c)))) (\<lambda>_. ?go c x si) d))" for c x si
  proof (rule writing_adds)
    let ?d = "update_run run (set_clarified_fields c) d"
    show u: "untouched d ?d" by (rule untouched_update) (simp add: set_clarified_fields_def)
    have "load_run run ?d = Some (set_clarified_fields c r)" by (rule load_run_update_same) (simp_all add: set_clarified_fields_def assms(3))
    then show "only_adds ?d (snd (?go c x si ?d))"
      by (rule stages_then_adds [OF untouched_ok [OF u assms(1)] untouched_fresh [OF u assms(2)]])
  qed
  show "only_adds d (snd ((if load_clarified_fields rr = []
       then staged_bind (extract_from ri cm ros) (\<lambda>x. ?go [] x (first_reply_inputs rr ovs))
       else staged_bind (extract_from ri m ros) (\<lambda>reply.
            staged_bind (extract_from ri cm ros) (\<lambda>combined.
            (case second_round u ros rr ovs reply combined of
               (cl, x, si) \<Rightarrow>
                 staged_bind (at_stage StagePersist (writing (update_run run (set_clarified_fields (cl_fields cl))))) (\<lambda>_. ?go (cl_fields cl) x si))))) d))"
  proof (cases "load_clarified_fields rr = []")
    case True
    have "only_adds d (snd (?go [] x (first_reply_inputs rr ovs) d))" for x by (rule stages_then_adds [OF assms])
    then show ?thesis using True extract_adds [OF assms(1), of "\<lambda>x. ?go [] x (first_reply_inputs rr ovs)"] by simp
  next
    case False
    show ?thesis unfolding if_not_P [OF False]
    proof (rule extract_adds [OF assms(1)], rule extract_adds [OF assms(1)])
      fix reply combined
      show "only_adds d (snd ((case second_round u ros rr ovs reply combined of
               (cl, x, si) \<Rightarrow>
                 staged_bind (at_stage StagePersist (writing (update_run run (set_clarified_fields (cl_fields cl))))) (\<lambda>_. ?go (cl_fields cl) x si)) d))"
        using second by (cases "second_round u ros rr ovs reply combined") simp
    qed
  qed
qed

subsection \<open>The two bodies\<close>

lemma run_pipeline_adds:
  assumes "db_ok d" "fresh_ids (rd_ids (ri_round ri)) d" "load_run run d = Some r"
  shows "only_adds d (snd (run_pipeline u cfg ri run d))"
  using run_body_adds [OF assms, of u cfg] by (auto simp: run_pipeline_def finish_def split: prod.split sum.split)

lemma claimed_run:
  assumes "db_ok d" "load_run run d = Some r" "status r = s"
  obtains e where "cas_run run s (set_status t) d = (True, e)" "untouched d e" "load_run run e = Some (set_status t r)"
proof -
  let ?c = "cas_run run s (set_status t) d"
  have "untouched d (snd ?c)"
    unfolding cas_run_snd untouched_def using map_update_rows [of "\<lambda>r. run_id r = run \<and> status r = s" run_id "set_status t" "db_runs d"]
    by (simp add: set_status_def)
  moreover have "load_run run (snd ?c) = Some (set_status t r)"
    using load_run_cas [OF assms(2), of "set_status t" s] assms(3) by (simp add: set_status_def)
  moreover have "fst ?c" using cas_run_iff [OF assms(1,2)] assms(3) by simp
  ultimately show thesis by (intro that [of "snd ?c"]) (auto simp: prod_eq_iff)
qed

lemma mark_reply_consumed_untouched: "untouched d (mark_reply_consumed mid n d)"
  by (simp add: untouched_def mark_reply_consumed_def)

lemma untouched_trans: "untouched d e \<Longrightarrow> untouched e g \<Longrightarrow> untouched d g"
  by (simp add: untouched_def)

text \<open>What a body promises on the run it is started on, and the run a handler starts it on.\<close>

definition delivers :: "uuid \<Rightarrow> db \<Rightarrow> pipeline_result \<times> db \<Rightarrow> bool" where
  "delivers run d q \<longleftrightarrow> settles run q \<and> only_adds d (snd q)"

lemma delivers_after: "untouched d e \<Longrightarrow> delivers run e q \<Longrightarrow> delivers run d q"
  using untouched_adds by (simp add: delivers_def)

lemma run_pipeline_delivers:
  assumes "db_ok d" "fresh_ids (rd_ids (ri_round ri)) d" "load_run run d = Some r" "status r = EXTRACTING"
  shows "delivers run d (run_pipeline u cfg ri run d)"
  using run_pipeline_adds [OF assms(1-3)] finish_settles [where m = "run_body u cfg ri run", OF run_body_leaves [OF assms(1,3,4)]]
  by (simp add: delivers_def run_pipeline_def)

lemma resume_pipeline_delivers:
  assumes "db_ok d" "fresh_ids (rd_ids (ri_round ri)) d" "load_run run d = Some r" "status r = RECEIVED"
  shows "delivers run d (resume_pipeline u cfg ri run inbound RECEIVED overrides d)"
proof -
  let ?m = "case inbound of None \<Rightarrow> operator_mail run | Some m \<Rightarrow> m" and ?ovs = "case overrides of None \<Rightarrow> [] | Some ovs \<Rightarrow> ovs"
  obtain e where e: "cas_run run RECEIVED (set_status EXTRACTING) d = (True, e)" "untouched d e" "load_run run e = Some (set_status EXTRACTING r)"
    by (rule claimed_run [OF assms(1,3,4), of EXTRACTING])
  let ?e = "mark_reply_consumed (ml_message_id ?m) (get_clarification_round run e) e"
  have u: "untouched d ?e" by (rule untouched_trans [OF e(2) mark_reply_consumed_untouched])
  have ok: "db_ok ?e" "fresh_ids (rd_ids (ri_round ri)) ?e" using untouched_ok [OF u assms(1)] untouched_fresh [OF u assms(2)] by (simp_all del: mark_reply_consumed_frame)
  have r: "load_run run ?e = Some (set_status EXTRACTING r)" using e(3) by simp
  have "settles run (finish (resume_body u cfg ri run ?m ?ovs) ?e)"
    by (rule finish_settles, rule resume_body_leaves [OF ok(1) r]) (simp add: set_status_def)
  moreover have "only_adds ?e (snd (finish (resume_body u cfg ri run ?m ?ovs) ?e))"
    using resume_body_adds [OF ok r, of u cfg ?m ?ovs] by (auto simp: finish_def split: prod.split sum.split)
  ultimately have "delivers run ?e (finish (resume_body u cfg ri run ?m ?ovs) ?e)" by (simp add: delivers_def)
  from delivers_after [OF u this] e(1) show ?thesis by (simp add: resume_pipeline_def Let_def)
qed

subsection \<open>The contract of a handler\<close>

text \<open>The status a claim may find its run in: the one it waits for, or, when the job is claimed again,
  whatever a worker that died in the middle has left.\<close>

definition can_resume :: "run_status \<Rightarrow> claim \<Rightarrow> payroll_run \<Rightarrow> bool" where
  "can_resume s c r \<longleftrightarrow> status r = s \<or> 1 < cj_attempts c \<and> status r \<in> {RECEIVED, EXTRACTING, COMPUTED, SENT}"

text \<open>A reclaim brings the run back to the received status from wherever it was left.\<close>

lemma rewound:
  assumes "load_run run d = Some r" "status r \<in> {EXTRACTING, COMPUTED, SENT}"
  obtains e r' where "e = update_run run (\<lambda>r. snd (rewind_for_reclaim r)) d" "untouched d e" "load_run run e = Some r'" "status r' = RECEIVED"
proof -
  let ?f = "\<lambda>r. snd (rewind_for_reclaim r)"
  have "untouched d (update_run run ?f d)" by (auto intro!: untouched_update simp: rewind_for_reclaim_def clear_reply_columns_def)
  moreover have "load_run run (update_run run ?f d) = Some (?f r)"
    using load_run_update_same [of ?f run d r] assms(1) by (simp add: rewind_for_reclaim_def clear_reply_columns_def)
  moreover have "status (?f r) = RECEIVED" using assms(2) by (auto simp: rewind_for_reclaim_def)
  ultimately show thesis using that by blast
qed

subsection \<open>The settlement closes both rows\<close>

text \<open>What a step reports, with the row of the job and the run it leaves.\<close>

fun closes :: "drain_outcome \<Rightarrow> job \<Rightarrow> payroll_run \<Rightarrow> bool" where
  "closes DrainDone j r \<longleftrightarrow> job_state j = Done \<and> (paused (status r) \<or> status r = ERROR)"
| "closes DrainRetried j r \<longleftrightarrow> job_state j = Pending \<and> attempts j < max_attempts j \<and> status r = RECEIVED"
| "closes DrainDead j r \<longleftrightarrow> job_state j = Dead \<and> max_attempts j \<le> attempts j \<and> status r = ERROR"
| "closes _ j r \<longleftrightarrow> False"

lemma settlement_closes:
  assumes "db_ok d" "locked_job c d = Some j" "job_kind_of j = cj_kind c" "cj_kind c \<notin> {Ingest, SendOutbound}" "job_run_id j = Some run"
    "cj_run_id c = Some run" "settles run (res, d)"
  shows "\<exists>s d' j' r'. settle_pipeline_job now c res b d = Inr (s, d') \<and> s \<in> {SettledDone, SettledRetried, SettledDead}
    \<and> get_job (cj_id c) (db_jobs d') = Some j' \<and> load_run run d' = Some r' \<and> closes (map_settlement_outcome s) j' r'"
proof -
  obtain r where r: "load_run run d = Some r" "if outcome res = Ok then paused (status r) else status r = EXTRACTING"
    using assms(7) by (auto simp: settles_def)
  have kind: "job_kind_of j \<noteq> Ingest" using assms(3,4) by simp
  note get = get_job_cas [OF assms(2,1)]
  have jid: "job_id (finish_row t st err x) = job_id x" for t st err x by (simp add: finish_row_def settle_row_def split: option.split)
  consider "outcome res = Ok" | "outcome res = Retryable" "attempts j < max_attempts j"
    | "outcome res \<noteq> Ok" "outcome res = Retryable \<longrightarrow> max_attempts j \<le> attempts j" by force
  then show ?thesis
  proof cases
    case 1
    show ?thesis
      unfolding settle_pipeline_ok [OF assms(2,3) kind assms(5,6) 1]
      using get [of "finish_row now Done None"] r 1 by (simp add: jid finish_row_def settle_row_def)
  next
    case 2
    with r have st: "status r = EXTRACTING" by simp
    let ?f = "\<lambda>k. (finish_row now Pending (Some (diagnostic_code res)) k)\<lparr>available_at := now + b\<rparr>"
    show ?thesis
      unfolding settle_pipeline_retry [OF assms(1-3) kind assms(5,6) r(1) 2 st]
      using get [of ?f] load_run_update [OF r(1) st, of "set_status RECEIVED"] 2
      by (simp add: jid finish_row_def settle_row_def set_status_def)
  next
    case 3
    with r have st: "status r = EXTRACTING" by simp
    let ?f = "finish_row now (if outcome res = Retryable then Dead else Done) (Some (diagnostic_code res))"
    show ?thesis
      unfolding settle_pipeline_final [OF assms(1-3) kind assms(5,6) r(1) 3 st]
      using get [of ?f] load_run_update [OF r(1) st, of "fail_run _ _"] 3
      by (auto simp: jid finish_row_def settle_row_def fail_run_def)
  qed
qed

text \<open>The claim rewrites a row, never its id.\<close>

lemma claim_keeps_ids:
  assumes "claim_job now lease token locked js = (c, js')"
  shows "map job_id js' = map job_id js"
  using assms map_update_rows [of _ job_id "claim_row now lease token" js]
  by (auto simp: claim_job_def claim_row_def split: list.splits)


text \<open>A handler that is ready for a claim returns a result that fits the run it leaves, and only adds jobs.\<close>

locale settling_handler =
  fixes handler :: "claim \<Rightarrow> db \<Rightarrow> pipeline_result res \<times> db"
    and ready :: "claim \<Rightarrow> uuid \<Rightarrow> db \<Rightarrow> bool"
  assumes run_job: "ready c run d \<Longrightarrow> cj_run_id c = Some run \<and> cj_kind c \<notin> {Ingest, SendOutbound}"
    and ready_jobs: "ready c run d \<Longrightarrow> map job_id js = map job_id (db_jobs d) \<Longrightarrow> ready c run (d\<lparr>db_jobs := js\<rparr>)"
    and settling: "db_ok d \<Longrightarrow> ready c run d \<Longrightarrow> \<exists>res d'. handler c d = (Inr res, d') \<and> delivers run d (res, d')"
begin

lemma drained:
  assumes "db_ok d" "ready c run d" "claim_job (dc_now k) (dc_lease k) (dc_token k) (dc_locked k) (db_jobs d) = (Some c, js)"
  shows "\<exists>out ts' d' j' r'. drain_once v k handler ts d = (Inr out, ts', d') \<and> dc_token k \<notin> set ts'
    \<and> get_job (cj_id c) (db_jobs d') = Some j' \<and> load_run run d' = Some r' \<and> closes out j' r'"
proof -
  let ?d = "d\<lparr>db_jobs := js\<rparr>" and ?b = "backoff_seconds (dc_jitter k) (cj_attempts c)"
  obtain j where j: "c = claim_of (dc_token k) (claim_row (dc_now k) (dc_lease k) (dc_token k) j)"
    "locked_job c ?d = Some (claim_row (dc_now k) (dc_lease k) (dc_token k) j)" "db_ok ?d"
    by (rule claim_locked [OF assms(1,3)]) blast
  let ?row = "claim_row (dc_now k) (dc_lease k) (dc_token k) j"
  note run = run_job [OF assms(2)]
  have row: "job_kind_of ?row = cj_kind c" "job_run_id ?row = Some run" "cj_token c = dc_token k"
    using run by (simp_all add: j(1) claim_of_def)
  obtain res d2 where h: "handler c ?d = (Inr res, d2)" "settles run (res, d2)" "only_adds ?d d2"
    using settling [OF j(3) ready_jobs [OF assms(2) claim_keeps_ids [OF assms(3)]]] by (auto simp: delivers_def)
  have ok: "db_ok d2" using h(3) by (simp add: only_adds_def)
  have "locked_job c d2 = Some ?row" using h(3) j(2) by (auto simp: only_adds_def locked_job_def find_append)
  from settlement_closes [OF ok this row(1) conjunct2 [OF run] row(2) conjunct1 [OF run] h(2), of "dc_settle k" ?b]
  obtain s d' j' r' where s: "settle_pipeline_job (dc_settle k) c res ?b d2 = Inr (s, d')"
    "s \<in> {SettledDone, SettledRetried, SettledDead}" "get_job (cj_id c) (db_jobs d') = Some j'" "load_run run d' = Some r'"
    "closes (map_settlement_outcome s) j' r'" by blast
  have "settle_dispatch v (dc_settle k) (dc_jitter k) c (Inr res) d2 = Inr (s, d')"
    using s(1) run by (simp add: settle_dispatch_def)
  from drain_claimed [where handle = handler, OF assms(3) h(1) this] s row(3) show ?thesis
    by (auto simp: lease_is_settled_def)
qed

end

subsection \<open>The three handlers keep it\<close>

text \<open>When a job may start: its run is there in a status its claim expects, the ids drawn for a question
  are new, and the reply, or the operator's resolution, is one that the handler accepts.\<close>

definition startable :: "slot_ids \<Rightarrow> run_status \<Rightarrow> claim \<Rightarrow> uuid \<Rightarrow> db \<Rightarrow> bool" where
  "startable ids s c run d \<longleftrightarrow> cj_run_id c = Some run \<and> fresh_ids ids d \<and> (\<exists>r. load_run run d = Some r \<and> can_resume s c r)"

definition pipeline_ready :: "slot_ids \<Rightarrow> claim \<Rightarrow> uuid \<Rightarrow> db \<Rightarrow> bool" where
  "pipeline_ready ids c run d \<longleftrightarrow> cj_kind c = RunPipeline \<and> startable ids RECEIVED c run d"

definition reply_ready :: "slot_ids \<Rightarrow> claim \<Rightarrow> uuid \<Rightarrow> db \<Rightarrow> bool" where
  "reply_ready ids c run d \<longleftrightarrow> cj_kind c = ResumeReply \<and> startable ids AWAITING_REPLY c run d
     \<and> (\<exists>email b r. cj_email_id c = Some email \<and> get_inbound_email_by_id email d = Some b \<and> in_run b = Some run
          \<and> load_run run d = Some r \<and> reply_sender_ok b r d)"

definition operator_ready :: "slot_ids \<Rightarrow> claim \<Rightarrow> uuid \<Rightarrow> db \<Rightarrow> bool" where
  "operator_ready ids c run d \<longleftrightarrow> cj_kind c = OperatorResume \<and> startable ids NEEDS_OPERATOR c run d
     \<and> (\<exists>i rs q. cj_resolution_id c = Some i \<and> generation_rows i d = Some rs \<and> rs_authoritative rs
          \<and> prepare_authoritative_operator_resume run i d = Inr q)"

lemma startable_run: "startable ids s c run d \<Longrightarrow> cj_run_id c = Some run"
  by (simp add: startable_def)

lemma startable_jobs:
  assumes "startable ids s c run d" "map job_id js = map job_id (db_jobs d)"
  shows "startable ids s c run (d\<lparr>db_jobs := js\<rparr>)"
proof -
  have "job_id ` set js = job_id ` set (db_jobs d)" using assms(2) by (metis list.set_map)
  with assms(1) show ?thesis by (simp add: startable_def fresh_ids_def)
qed

lemma prepare_jobs:
  assumes "prepare_authoritative_operator_resume run i d = Inr q"
  shows "\<exists>q. prepare_authoritative_operator_resume run i (d\<lparr>db_jobs := js\<rparr>) = Inr q"
proof -
  have same: "locked_run run (d\<lparr>db_jobs := js\<rparr>) = locked_run run d" "generation_rows i (d\<lparr>db_jobs := js\<rparr>) = generation_rows i d"
    "validate_generation_for_run g ms r dec (d\<lparr>db_jobs := js\<rparr>) = validate_generation_for_run g ms r dec d" for g ms r dec
    by (simp_all add: locked_run_def generation_rows_def validate_generation_for_run_def)
  obtain r dec g where "locked_run run d = Inr (r, dec)" "stored_generation (generation_rows i d) = Inr g"
    "validate_generation_for_run (rs_run (fst g)) (rs_mapping (fst g)) r dec d = Inr ()"
    using assms by (auto simp: prepare_authoritative_operator_resume_def res_simps)
  then show ?thesis by (simp add: prepare_authoritative_operator_resume_def same Let_def res_simps)
qed

interpretation pipeline: settling_handler "handle_run_pipeline (run_pipeline u cfg ri)" "pipeline_ready (rd_ids (ri_round ri))"
proof unfold_locales
  fix c run d
  assume ok: "db_ok d" and ready: "pipeline_ready (rd_ids (ri_round ri)) c run d"
  then obtain r where r: "cj_run_id c = Some run" "fresh_ids (rd_ids (ri_round ri)) d" "load_run run d = Some r" "can_resume RECEIVED c r"
    by (auto simp: pipeline_ready_def startable_def)
  let ?d = "if 1 < cj_attempts c then update_run run (\<lambda>r. snd (rewind_for_reclaim r)) d else d"
    and ?r = "if 1 < cj_attempts c then snd (rewind_for_reclaim r) else r"
  have u: "untouched d ?d" by (auto intro!: untouched_update simp: rewind_for_reclaim_def clear_reply_columns_def)
  have l: "load_run run ?d = Some ?r"
    using load_run_update_same [of "\<lambda>r. snd (rewind_for_reclaim r)" run d r] r(3) by (simp add: rewind_for_reclaim_def clear_reply_columns_def)
  have "status ?r = RECEIVED" using r(4) by (auto simp: can_resume_def rewind_for_reclaim_def)
  from claimed_run [OF untouched_ok [OF u ok] l this, of EXTRACTING] obtain e where
    e: "cas_run run RECEIVED (set_status EXTRACTING) ?d = (True, e)" "untouched ?d e" "load_run run e = Some (set_status EXTRACTING ?r)"
    by blast
  have u': "untouched d e" by (rule untouched_trans [OF u e(2)])
  have "delivers run e (run_pipeline u cfg ri run e)"
    by (rule run_pipeline_delivers [OF untouched_ok [OF u' ok] untouched_fresh [OF u' r(2)] e(3)]) (simp add: set_status_def)
  with delivers_after [OF u'] r(1) e(1)
  show "\<exists>res d'. handle_run_pipeline (run_pipeline u cfg ri) c d = (Inr res, d') \<and> delivers run d (res, d')"
    by (cases "run_pipeline u cfg ri run e") (simp add: handle_run_pipeline_def Let_def)
qed (auto simp: pipeline_ready_def startable_run startable_jobs)

text \<open>The two resumes start their body on a received run in the same three ways.\<close>

lemma resume_starts:
  assumes "db_ok d" "fresh_ids (rd_ids (ri_round ri)) d" "load_run run d = Some r" "can_resume s c r"
  shows "\<exists>e. (if status r = s then cas_run run s (set_status RECEIVED) d = (True, e)
      else 1 < cj_attempts c \<and> (if status r = RECEIVED then e = d
        else status r \<in> {EXTRACTING, COMPUTED, SENT} \<and> e = update_run run (\<lambda>r. snd (rewind_for_reclaim r)) d))
    \<and> delivers run d (resume_pipeline u cfg ri run inbound RECEIVED overrides e)"
proof -
  have go: "delivers run d (resume_pipeline u cfg ri run inbound RECEIVED overrides e)"
    if "untouched d e" "load_run run e = Some r'" "status r' = RECEIVED" for e r'
    using delivers_after [OF that(1)] resume_pipeline_delivers [OF untouched_ok [OF that(1) assms(1)] untouched_fresh [OF that(1) assms(2)] that(2,3)] .
  consider "status r = s" | "status r \<noteq> s" "status r = RECEIVED" "1 < cj_attempts c"
    | "status r \<noteq> s" "status r \<in> {EXTRACTING, COMPUTED, SENT}" "1 < cj_attempts c"
    using assms(4) by (auto simp: can_resume_def)
  then show ?thesis
  proof cases
    case 1
    obtain e where "cas_run run s (set_status RECEIVED) d = (True, e)" "untouched d e" "load_run run e = Some (set_status RECEIVED r)"
      by (rule claimed_run [OF assms(1,3) 1, of RECEIVED])
    with 1 go show ?thesis by (auto simp: set_status_def)
  next
    case 2
    with go [OF untouched_refl assms(3)] show ?thesis by auto
  next
    case 3
    obtain e r' where "e = update_run run (\<lambda>r. snd (rewind_for_reclaim r)) d" "untouched d e" "load_run run e = Some r'" "status r' = RECEIVED"
      by (rule rewound [OF assms(3) 3(2)])
    with 3 go show ?thesis by auto
  qed
qed

lemma sender_ok_jobs: "reply_sender_ok b r (d\<lparr>db_jobs := js\<rparr>) = reply_sender_ok b r d"
  by (simp add: reply_sender_ok_def find_business_by_sender_def split: option.split)

interpretation reply: settling_handler "handle_resume_reply (\<lambda>run m. resume_pipeline u cfg ri run (Some m) RECEIVED None)" "reply_ready (rd_ids (ri_round ri))"
proof unfold_locales
  fix c run d
  let ?go = "\<lambda>m. resume_pipeline u cfg ri run (Some m) RECEIVED None"
  assume ok: "db_ok d" and ready: "reply_ready (rd_ids (ri_round ri)) c run d"
  then obtain email b r where r: "cj_run_id c = Some run" "fresh_ids (rd_ids (ri_round ri)) d" "load_run run d = Some r" "can_resume AWAITING_REPLY c r"
    and b: "cj_email_id c = Some email" "get_inbound_email_by_id email d = Some b" "in_run b = Some run" "reply_sender_ok b r d"
    by (auto simp: reply_ready_def startable_def)
  obtain e where e: "if status r = AWAITING_REPLY then cas_run run AWAITING_REPLY (set_status RECEIVED) d = (True, e)
      else 1 < cj_attempts c \<and> (if status r = RECEIVED then e = d
        else status r \<in> {EXTRACTING, COMPUTED, SENT} \<and> e = update_run run (\<lambda>r. snd (rewind_for_reclaim r)) d)"
    "delivers run d (?go (row_to_inbound b) e)"
    using resume_starts [OF ok r(2,3,4), of u cfg "Some (row_to_inbound b)" None] by auto
  have "handle_resume_reply (\<lambda>run m. resume_pipeline u cfg ri run (Some m) RECEIVED None) c d
      = (Inr (fst (?go (row_to_inbound b) e)), snd (?go (row_to_inbound b) e))"
    using e(1) r(1,3) b by (auto simp: handle_resume_reply_def Let_def case_prod_beta split: if_splits)
  with e(2) show "\<exists>res d'. handle_resume_reply (\<lambda>run m. resume_pipeline u cfg ri run (Some m) RECEIVED None) c d = (Inr res, d') \<and> delivers run d (res, d')"
    by simp
next
  fix c run d and js :: "job list"
  assume "reply_ready (rd_ids (ri_round ri)) c run d" "map job_id js = map job_id (db_jobs d)"
  then show "reply_ready (rd_ids (ri_round ri)) c run (d\<lparr>db_jobs := js\<rparr>)"
    using startable_jobs by (simp add: reply_ready_def get_inbound_email_by_id_def sender_ok_jobs)
qed (auto simp: reply_ready_def startable_run)

interpretation operator: settling_handler "handle_operator_resume (\<lambda>run ovs. resume_pipeline u cfg ri run None RECEIVED (Some ovs))" "operator_ready (rd_ids (ri_round ri))"
proof unfold_locales
  fix c run d
  let ?go = "\<lambda>ovs. resume_pipeline u cfg ri run None RECEIVED (Some ovs)"
  assume ok: "db_ok d" and ready: "operator_ready (rd_ids (ri_round ri)) c run d"
  then obtain r i rs sub d1 where r: "cj_run_id c = Some run" "fresh_ids (rd_ids (ri_round ri)) d" "load_run run d = Some r" "can_resume NEEDS_OPERATOR c r"
    and b: "cj_resolution_id c = Some i" "generation_rows i d = Some rs" "rs_authoritative rs" "prepare_authoritative_operator_resume run i d = Inr (sub, d1)"
    by (auto simp: operator_ready_def startable_def)
  note p = prepare_rows [OF b(4,2)]
  obtain f where f: "d1 = update_run run f d" "\<And>r. run_id (f r) = run_id r \<and> status (f r) = status r"
  proof (cases "d1 = d")
    case True
    then show thesis using that [of "\<lambda>r. r"] by (simp add: update_run_def update_rows_def map_idI)
  next
    case False
    with p show thesis using that [of "set_alias_candidates (remembered (rs_mapping rs))"] by (auto simp: set_alias_candidates_def split: if_splits)
  qed
  have u: "untouched d d1" unfolding f(1) by (rule untouched_update) (simp add: f(2))
  have r1: "load_run run d1 = Some (f r)" unfolding f(1) by (rule load_run_update_same) (simp_all add: f(2) r(3))
  have c1: "can_resume NEEDS_OPERATOR c (f r)" using r(4) by (simp add: can_resume_def f(2))
  have "generation_rows i d1 = Some rs" using b(2) f(1) by (simp add: generation_rows_def)
  then obtain ovs where ovs: "load_operator_resume_resolution run i d1 = Inr ovs" using p by (simp add: load_operator_resume_resolution_def)
  obtain e where e: "if status (f r) = NEEDS_OPERATOR then cas_run run NEEDS_OPERATOR (set_status RECEIVED) d1 = (True, e)
      else 1 < cj_attempts c \<and> (if status (f r) = RECEIVED then e = d1
        else status (f r) \<in> {EXTRACTING, COMPUTED, SENT} \<and> e = update_run run (\<lambda>r. snd (rewind_for_reclaim r)) d1)"
    "delivers run d1 (?go ovs e)"
    using resume_starts [OF untouched_ok [OF u ok] untouched_fresh [OF u r(2)] r1 c1, of u cfg None "Some ovs"] by auto
  have "handle_operator_resume (\<lambda>run ovs. resume_pipeline u cfg ri run None RECEIVED (Some ovs)) c d = (Inr (fst (?go ovs e)), snd (?go ovs e))"
    using e(1) r(1) b(1,3,4) p r1 ovs by (auto simp: handle_operator_resume_def Let_def case_prod_beta split: if_splits)
  with delivers_after [OF u e(2)]
  show "\<exists>res d'. handle_operator_resume (\<lambda>run ovs. resume_pipeline u cfg ri run None RECEIVED (Some ovs)) c d = (Inr res, d') \<and> delivers run d (res, d')"
    by simp
next
  fix c run d and js :: "job list"
  assume "operator_ready (rd_ids (ri_round ri)) c run d" "map job_id js = map job_id (db_jobs d)"
  then show "operator_ready (rd_ids (ri_round ri)) c run (d\<lparr>db_jobs := js\<rparr>)"
    using startable_jobs prepare_jobs by (fastforce simp: operator_ready_def generation_rows_def)
qed (auto simp: operator_ready_def startable_run)

subsection \<open>The worker\<close>

text \<open>The worker's dispatch over the handlers of the three kinds of job that belong to a run.\<close>

definition run_ready :: "slot_ids \<Rightarrow> claim \<Rightarrow> uuid \<Rightarrow> db \<Rightarrow> bool" where
  "run_ready ids c run d \<longleftrightarrow> pipeline_ready ids c run d \<or> reply_ready ids c run d \<or> operator_ready ids c run d"

definition worker_handle ::
  "unicode \<Rightarrow> settings \<Rightarrow> run_inputs \<Rightarrow> (claim \<Rightarrow> db \<Rightarrow> pipeline_result res \<times> db) \<Rightarrow> (claim \<Rightarrow> db \<Rightarrow> pipeline_result res \<times> db)
   \<Rightarrow> claim \<Rightarrow> db \<Rightarrow> pipeline_result res \<times> db" where
  "worker_handle u cfg ri =
     dispatch_handle (handle_run_pipeline (run_pipeline u cfg ri))
       (handle_resume_reply (\<lambda>run m. resume_pipeline u cfg ri run (Some m) RECEIVED None))
       (handle_operator_resume (\<lambda>run ovs. resume_pipeline u cfg ri run None RECEIVED (Some ovs)))"

interpretation work: settling_handler "worker_handle u cfg ri ingest send" "run_ready (rd_ids (ri_round ri))"
proof unfold_locales
  fix c run d
  assume ok: "db_ok d" and ready: "run_ready (rd_ids (ri_round ri)) c run d"
  consider "pipeline_ready (rd_ids (ri_round ri)) c run d" | "reply_ready (rd_ids (ri_round ri)) c run d" | "operator_ready (rd_ids (ri_round ri)) c run d"
    using ready by (auto simp: run_ready_def)
  then show "\<exists>res d'. worker_handle u cfg ri ingest send c d = (Inr res, d') \<and> delivers run d (res, d')"
  proof cases
    case 1
    then show ?thesis using pipeline.settling [OF ok 1] by (simp add: worker_handle_def dispatch_handle_def pipeline_ready_def)
  next
    case 2
    then show ?thesis using reply.settling [OF ok 2] by (simp add: worker_handle_def dispatch_handle_def reply_ready_def)
  next
    case 3
    then show ?thesis using operator.settling [OF ok 3] by (simp add: worker_handle_def dispatch_handle_def operator_ready_def)
  qed
next
  fix c run d and js :: "job list"
  assume "run_ready (rd_ids (ri_round ri)) c run d" "map job_id js = map job_id (db_jobs d)"
  then show "run_ready (rd_ids (ri_round ri)) c run (d\<lparr>db_jobs := js\<rparr>)"
    using pipeline.ready_jobs reply.ready_jobs operator.ready_jobs by (auto simp: run_ready_def)
qed (auto simp: run_ready_def pipeline_ready_def reply_ready_def operator_ready_def startable_run)

text \<open>C1. A job of a run that a worker claims is closed together with its run: whatever the extraction
  returned or raised and wherever the pipeline stopped, the step settles the job it claimed
  (never a fenced or lost settlement), forgets the token, and leaves one of three pairs: the job
  done and the run waiting for a person, or failed; the job pending again with an attempt left
  and the run received; or the job dead, out of attempts, and the run failed. It holds for the first
  run, for an authorized reply and for an operator's resolution, on a first attempt and on a reclaim of a
  run whose worker died in the middle. The ids drawn for the question that may be asked must be new.\<close>

theorem drained_run_job_closes:
  assumes "db_ok d" "run_ready (rd_ids (ri_round ri)) c run d"
    "claim_job (dc_now k) (dc_lease k) (dc_token k) (dc_locked k) (db_jobs d) = (Some c, js)"
  shows "\<exists>out ts' d' j' r'. drain_once v k (worker_handle u cfg ri ingest send) ts d = (Inr out, ts', d') \<and> dc_token k \<notin> set ts'
    \<and> get_job (cj_id c) (db_jobs d') = Some j' \<and> load_run run d' = Some r' \<and> closes out j' r'"
  by (rule work.drained [OF assms])

text \<open>A run is received, and in another database a reply waits for its run; both with a job that is due.\<close>

definition waiting_reply_db :: db where
  "waiting_reply_db = empty_db\<lparr>db_runs := [sample_run\<lparr>status := AWAITING_REPLY\<rparr>], db_businesses := [(7, ''client@y'')],
     db_inbox := [(new_inbound 21 late_mail ''40 hours'')\<lparr>in_run := Some 9\<rparr>],
     db_jobs := [sample_job\<lparr>job_kind_of := ResumeReply, job_email_id := Some 21\<rparr>]\<rparr>"

theorem drained_run_job_closes_witness:
  "(\<exists>out ts' d' j' r'. drain_once ascii fresh_clock (worker_handle ascii sample_settings sample_run_inputs (\<lambda>c d. (Inl ValueError, d)) (\<lambda>c d. (Inl ValueError, d)))
       [] waiting_db = (Inr out, ts', d') \<and> 11 \<notin> set ts' \<and> load_run 9 d' = Some r' \<and> closes out j' r')
   \<and> (\<exists>out ts' d' j' r'. drain_once ascii fresh_clock (worker_handle ascii sample_settings sample_run_inputs (\<lambda>c d. (Inl ValueError, d)) (\<lambda>c d. (Inl ValueError, d)))
       [] waiting_reply_db = (Inr out, ts', d') \<and> 11 \<notin> set ts' \<and> load_run 9 d' = Some r' \<and> closes out j' r')"
proof
  let ?c = "claim_of 11 (claim_row 0 (seconds 900) 11 sample_job)" and ?ids = "rd_ids (ri_round sample_run_inputs)"
  have ok: "db_ok waiting_db"
    by (simp add: db_ok_def waiting_db_def empty_db_def row_ok_def lease_coherent_def context_ok_def sample_job_def)
  have c: "claim_job (dc_now fresh_clock) (dc_lease fresh_clock) (dc_token fresh_clock) (dc_locked fresh_clock) (db_jobs waiting_db)
      = (Some ?c, [claim_row 0 (seconds 900) 11 sample_job])"
    using sample_claim by (simp add: fresh_clock_def waiting_db_def empty_db_def)
  have "run_ready ?ids ?c 9 waiting_db"
    by (simp add: run_ready_def pipeline_ready_def startable_def fresh_ids_def load_run_def can_resume_def claim_of_def claim_row_def
        waiting_db_def empty_db_def sample_run_def sample_job_def sample_run_inputs_def sample_round_def)
  from drained_run_job_closes [OF ok this c, of ascii ascii sample_settings]
  show "\<exists>out ts' d' j' r'. drain_once ascii fresh_clock (worker_handle ascii sample_settings sample_run_inputs (\<lambda>c d. (Inl ValueError, d)) (\<lambda>c d. (Inl ValueError, d)))
       [] waiting_db = (Inr out, ts', d') \<and> 11 \<notin> set ts' \<and> load_run 9 d' = Some r' \<and> closes out j' r'"
    by (simp add: fresh_clock_def) blast
next
  let ?j = "sample_job\<lparr>job_kind_of := ResumeReply, job_email_id := Some 21\<rparr>"
  let ?c = "claim_of 11 (claim_row 0 (seconds 900) 11 ?j)" and ?ids = "rd_ids (ri_round sample_run_inputs)"
  have ok: "db_ok waiting_reply_db"
    by (simp add: db_ok_def waiting_reply_db_def empty_db_def row_ok_def lease_coherent_def context_ok_def sample_job_def)
  have c: "claim_job (dc_now fresh_clock) (dc_lease fresh_clock) (dc_token fresh_clock) (dc_locked fresh_clock) (db_jobs waiting_reply_db)
      = (Some ?c, [claim_row 0 (seconds 900) 11 ?j])"
    by (simp add: claim_job_def claim_candidates_def claimable_def due_def sample_job_def update_rows_def fresh_clock_def waiting_reply_db_def empty_db_def)
  have "reply_ready ?ids ?c 9 waiting_reply_db"
    by (simp add: reply_ready_def startable_def fresh_ids_def load_run_def can_resume_def claim_of_def claim_row_def get_inbound_email_by_id_def
        reply_sender_ok_def find_business_by_sender_def new_inbound_def late_mail_def
        waiting_reply_db_def empty_db_def sample_run_def sample_job_def sample_run_inputs_def sample_round_def)
  then have "run_ready ?ids ?c 9 waiting_reply_db" by (simp add: run_ready_def)
  from drained_run_job_closes [OF ok this c, of ascii ascii sample_settings]
  show "\<exists>out ts' d' j' r'. drain_once ascii fresh_clock (worker_handle ascii sample_settings sample_run_inputs (\<lambda>c d. (Inl ValueError, d)) (\<lambda>c d. (Inl ValueError, d)))
       [] waiting_reply_db = (Inr out, ts', d') \<and> 11 \<notin> set ts' \<and> load_run 9 d' = Some r' \<and> closes out j' r'"
    by (simp add: fresh_clock_def) blast
qed

end
