(* ===== verification/JobTable.thy ===== *)
theory JobTable
  imports Worker Review
begin

section \<open>The jobs table under everything that writes it\<close>

text \<open>
  \<open>JobQueue\<close> holds the calls of \<open>jobs.py\<close>. Production ends and retries a job elsewhere: in the settlements and the reaper of
  \<open>job_settlement.py\<close>, the advances of a delivery review, and the purge of old events, which the foreign key lets write
  \<open>jobs.event_id\<close>. This theory takes the whole database as the state and all of them as steps, so what it proves of the runs holds
  of every table the application can reach. A step is one call; a transaction of several calls is a sequence of steps, and what it does to other
  tables in between is the step \<open>Elsewhere\<close>, which may be anything that leaves the jobs alone.
\<close>

subsection \<open>The steps\<close>

record table =
  tb_db :: db
  tb_issued :: "uuid list"

definition queue_view :: "table \<Rightarrow> queue" where
  "queue_view s = \<lparr>q_jobs = db_jobs (tb_db s), q_issued = tb_issued s\<rparr>"

datatype table_event =
    Called queue_event | Elsewhere | Settled claim settlement | Reaped "settlement option" | RetryEnqueued settlement
  | ReviewAdvanced advance_outcome | Purged nat

inductive table_step :: "table \<Rightarrow> table_event \<Rightarrow> table \<Rightarrow> bool" where
  table_call:
    "queue_step (queue_view s) e q \<Longrightarrow> table_step s (Called e) \<lparr>tb_db = (tb_db s)\<lparr>db_jobs := q_jobs q\<rparr>, tb_issued = q_issued q\<rparr>"
| table_elsewhere:
    "db_jobs d = db_jobs (tb_db s) \<Longrightarrow> table_step s Elsewhere (s\<lparr>tb_db := d\<rparr>)"
| table_settle:
    "settle_pipeline_job now c r backoff (tb_db s) = Inr (out, d) \<Longrightarrow> table_step s (Settled c out) (s\<lparr>tb_db := d\<rparr>)"
| table_deliver:
    "settle_outbound_delivery_job u now c r (tb_db s) = Inr (out, d) \<Longrightarrow> table_step s (Settled c out) (s\<lparr>tb_db := d\<rparr>)"
| table_reap:
    "reap_expired_final_attempt now locked (tb_db s) = Inr (out, d) \<Longrightarrow> table_step s (Reaped out) (s\<lparr>tb_db := d\<rparr>)"
| table_retry:
    "enqueue_classified_retry now cfg i run r kind email delay (tb_db s) = Inr (out, d) \<Longrightarrow> i \<notin> job_id ` set (db_jobs (tb_db s))
     \<Longrightarrow> table_step s (RetryEnqueued out) (s\<lparr>tb_db := d\<rparr>)"
| table_operator_retry:
    "enqueue_operator_resume_retry now cfg i run resolution r delay (tb_db s) = Inr (out, d) \<Longrightarrow> i \<notin> job_id ` set (db_jobs (tb_db s))
     \<Longrightarrow> table_step s (RetryEnqueued out) (s\<lparr>tb_db := d\<rparr>)"
| table_advance:
    "advance_existing_send_job_due_now now run email (tb_db s) = (out, d) \<Longrightarrow> table_step s (ReviewAdvanced out) (s\<lparr>tb_db := d\<rparr>)"
| table_advance_question:
    "advance_existing_clarification_delivery_review_job_due_now now run email (tb_db s) = (out, d)
     \<Longrightarrow> table_step s (ReviewAdvanced out) (s\<lparr>tb_db := d\<rparr>)"
| table_purge:
    "purge_terminal_inbound_events now days batch (tb_db s) = Inr (n, d) \<Longrightarrow> table_step s (Purged n) (s\<lparr>tb_db := d\<rparr>)"

inductive_cases table_stepE: "table_step s e t"

definition table_weight :: "uuid \<Rightarrow> table_event \<Rightarrow> int" where
  "table_weight i e = (case e of Called q \<Rightarrow> claim_weight i q | _ \<Rightarrow> 0)"

lemma view_simps [simp]:
  "q_jobs (queue_view s) = db_jobs (tb_db s)" "q_issued (queue_view s) = tb_issued s"
  "queue_view (s\<lparr>tb_db := d\<rparr>) = (queue_view s)\<lparr>q_jobs := db_jobs d\<rparr>"
  by (simp_all add: queue_view_def)

subsection \<open>Rewriting rows without issuing a lease\<close>

definition rewritten :: "job list \<Rightarrow> job list \<Rightarrow> bool" where
  "rewritten js js' \<longleftrightarrow>
     (\<exists>p f. js' = update_rows p f js
        \<and> (\<forall>j. job_id (f j) = job_id j \<and> dedup_key (f j) = dedup_key j \<and> attempts (f j) = attempts j \<and> max_attempts (f j) = max_attempts j)
        \<and> (\<forall>j. lease_token (f j) = None \<or> lease_token (f j) = lease_token j)
        \<and> (\<forall>j \<in> set js. p j \<longrightarrow> row_ok j \<longrightarrow> row_ok (f j) \<and> (job_state (f j) = Leased \<longrightarrow> job_state j = Leased \<and> lease_token (f j) = lease_token j)))"

lemma rewritten_refl [simp, intro]: "rewritten js js"
  unfolding rewritten_def by (rule exI [of _ "\<lambda>j. False"], rule exI [of _ id]) (simp add: update_rows_def)

lemma finish_row_form: "finish_row now st err j = (settle_row now st j)\<lparr>available_at := available_at j, last_error := last_error (finish_row now st err j)\<rparr>"
  by (simp add: finish_row_def settle_row_def split: option.split)

lemma rewritten_settle:
  assumes "\<And>j. p j \<Longrightarrow> job_state j = Leased" "st \<noteq> Leased"
  shows "rewritten js (update_rows p (\<lambda>j. (settle_row now st j)\<lparr>available_at := slot j, last_error := err j\<rparr>) js)"
  unfolding rewritten_def
  by (intro exI conjI allI ballI impI, rule refl)
    (use assms row_move_ok [OF move_settle] in \<open>auto simp: settle_row_def\<close>)

lemma rewritten_finish:
  assumes "st \<noteq> Leased"
  shows "rewritten js (update_rows (held i t) (finish_row now st err) js)"
    "rewritten js (update_rows (held i t) (\<lambda>j. (finish_row now st err j)\<lparr>available_at := slot j\<rparr>) js)"
proof -
  show "rewritten js (update_rows (held i t) (finish_row now st err) js)"
    using rewritten_settle [OF _ assms, where p = "held i t" and slot = available_at and now = now and err = "\<lambda>j. last_error (finish_row now st err j)"]
    by (simp add: held_def finish_row_form [symmetric])
  have "(finish_row now st err j)\<lparr>available_at := slot j\<rparr> = (settle_row now st j)\<lparr>available_at := slot j, last_error := last_error (finish_row now st err j)\<rparr>" for j
    by (subst finish_row_form) simp
  then show "rewritten js (update_rows (held i t) (\<lambda>j. (finish_row now st err j)\<lparr>available_at := slot j\<rparr>) js)"
    using rewritten_settle [OF _ assms, where p = "held i t" and slot = slot and now = now and err = "\<lambda>j. last_error (finish_row now st err j)"] by (simp add: held_def)
qed

lemma rewritten_cas: "st \<noteq> Leased \<Longrightarrow> db_jobs d = js \<Longrightarrow> rewritten js (db_jobs (snd (cas_job i t (finish_row now st err) d)))"
  "st \<noteq> Leased \<Longrightarrow> db_jobs d = js \<Longrightarrow> rewritten js (db_jobs (snd (cas_job i t (\<lambda>j. (finish_row now st err j)\<lparr>available_at := slot j\<rparr>) d)))"
  "st \<noteq> Leased \<Longrightarrow> cas_job i t (finish_row now st err) d = (hit, d') \<Longrightarrow> rewritten (db_jobs d) (db_jobs d')"
  by (auto simp: cas_job_def rewritten_finish)

lemma jobs_kept:
  "must (cas_run i s f d) = Inr e \<Longrightarrow> db_jobs e = db_jobs d"
  "must (mark_sent run email d) = Inr e \<Longrightarrow> db_jobs e = db_jobs d"
  "must (release_exact_handoff now why a d) = Inr e \<Longrightarrow> db_jobs e = db_jobs d"
  "must (set_run_error run why2 detail s d) = Inr e \<Longrightarrow> db_jobs e = db_jobs d"
  by (auto simp: cas_run_def mark_sent_def release_exact_handoff_def set_run_error_def Let_def)

lemma completion_jobs:
  assumes "complete_confirmation_after_send u run d = Inr e"
  shows "db_jobs e = db_jobs d"
proof -
  obtain r ros where r: "load_run run d = Some r" "load_roster_for_business (business_id r) (db_staff d) = Inr ros"
    using assms by (auto simp: complete_confirmation_after_send_def bind_res_Inr_iff split: option.splits)
  obtain staff batch where "write_aliases u (business_id r) (case alias_candidates r of None \<Rightarrow> [] | Some cs \<Rightarrow> cs) ros (db_staff d) = (staff, batch)"
    by force
  then show ?thesis using assms r by (cases batch) (auto simp: complete_confirmation_after_send_def cas_run_def)
qed

lemmas handoff_defs = finalize_handoff_def release_handoff_for_retry_def release_handoff_to_review_def

lemma mail_accepted_rewritten:
  assumes "mail_accepted u now c run email ob d = Inr (out, d')"
  shows "rewritten (db_jobs d) (db_jobs d')"
proof -
  obtain d1 d2 where d1: "must (mark_sent run email d) = Inr d1"
    and d2: "(if ob_purpose ob = PurposeConfirmation then bind_res (must (cas_run run APPROVED (set_status SENT) d1)) (complete_confirmation_after_send u run)
      else Inr d1) = Inr d2"
    and d': "d' = snd (cas_job (cj_id c) (cj_token c) (finish_row now Done None) d2)"
    using assms by (auto simp: mail_accepted_def res_simps)
  have "db_jobs d2 = db_jobs d1" using d2 by (auto simp: bind_res_Inr_iff jobs_kept completion_jobs simp del: must_Inr split: if_splits)
  then have "db_jobs d2 = db_jobs d" using jobs_kept(2) [OF d1] by simp
  then show ?thesis unfolding d' by (intro rewritten_cas(1)) simp
qed

lemma delivery_review_rewritten:
  assumes "settle_delivery_review now c result run ob expected d = Inr (out, d')"
  shows "rewritten (db_jobs d) (db_jobs d')"
  using assms by (auto simp: settle_delivery_review_def Let_def res_simps cas_run_def append_delivery_attempt_def intro!: rewritten_cas(1,2))

lemma with_authority_rewritten:
  assumes "settle_with_authority u now c result run email ob tries a d = Inr (out, d')"
  shows "rewritten (db_jobs d) (db_jobs d')"
proof (cases "outcome result = Ok")
  case True
  then obtain d1 where "must (finalize_handoff now a d) = Inr d1"
    "mail_accepted u now c run email ob (append_delivery_attempt (ob_snapshot ob) AttemptSent ''none'' d1) = Inr (out, d')"
    using assms by (auto simp: settle_with_authority_def bind_res_Inr_iff simp del: must_Inr)
  then show ?thesis using mail_accepted_rewritten jobs_kept(3) [of now ReleaseFinalized a d d1]
    by (fastforce simp: handoff_defs append_delivery_attempt_def simp del: must_Inr)
next
  case False
  have same: "db_jobs (snd (release_exact_handoff now why a d)) = db_jobs d" for why by (simp add: release_exact_handoff_def)
  show ?thesis using assms False same
    by (auto simp: settle_with_authority_def handoff_defs bind_res_Inr_iff append_delivery_attempt_def split: option.splits
        intro!: rewritten_cas(1,2) dest!: delivery_review_rewritten)
qed

lemma retire_rewritten:
  "st \<noteq> Leased \<Longrightarrow> retire_invalid_outbound_lease now i t st d = Inr d' \<Longrightarrow> rewritten (db_jobs d) (db_jobs d')"
  by (auto simp: retire_invalid_outbound_lease_def intro!: rewritten_cas(1,2))

lemma delivery_rewritten:
  assumes "settle_outbound_delivery_job u now c result d = Inr (out, d')"
  shows "rewritten (db_jobs d) (db_jobs d')"
  using assms
  by (auto simp: settle_outbound_delivery_job_def Let_def bind_res_Inr_iff split: option.splits if_splits
      dest!: retire_rewritten [rotated] mail_accepted_rewritten delivery_review_rewritten with_authority_rewritten)

lemma pipeline_rewritten:
  assumes "settle_pipeline_job now c result backoff d = Inr (out, d')"
  shows "rewritten (db_jobs d) (db_jobs d')"
  using assms
  by (auto simp: settle_pipeline_job_def settle_ingest_job_def rewind_run_def set_run_error_def cas_run_def Let_def bind_res_Inr_iff
      split: option.splits if_splits prod.splits intro!: rewritten_cas(1,2) dest!: rewritten_cas(3) [rotated])

lemma reap_row_rewritten:
  assumes "reap_row now j d = Inr (out, d')"
  shows "rewritten (db_jobs d) (db_jobs d')"
proof -
  have "(\<lambda>j. (settle_row now Dead j)\<lparr>available_at := available_at j, last_error := last_error j\<rparr>) = settle_row now Dead"
    by (simp add: fun_eq_iff settle_row_def)
  then have "rewritten js (update_rows (\<lambda>k. job_id k = job_id j \<and> reapable now k) (settle_row now Dead) js)" for js
    using rewritten_settle [where p = "\<lambda>k. job_id k = job_id j \<and> reapable now k" and st = Dead and slot = available_at and err = last_error and now = now]
    by (simp add: reapable_def expired_def)
  then show ?thesis using assms by (auto simp: reap_row_def Let_def bind_res_Inr_iff)
qed

lemma reap_delivery_rewritten:
  assumes "reap_delivery now j c d = Inr (out, d')"
  shows "rewritten (db_jobs d) (db_jobs d')"
  using assms reap_row_rewritten [of now j]
  by (fastforce simp: reap_delivery_def Let_def handoff_defs release_exact_handoff_def cas_run_def append_delivery_attempt_def bind_res_Inr_iff
      split: option.splits dest: retire_rewritten [rotated])

lemma reaped_rewritten:
  assumes "reap_expired_final_attempt now locked d = Inr (out, d')"
  shows "rewritten (db_jobs d) (db_jobs d')"
proof -
  have "rewritten (db_jobs d) (db_jobs d')" if "bind_res (if st \<in> A then must (set_run_error run why detail st d) else Inr d) (reap_row now j) = Inr (out, d')"
    for st A run why detail j
    using that reap_row_rewritten [of now j] by (fastforce simp: set_run_error_def cas_run_def bind_res_Inr_iff split: if_splits)
  with assms show ?thesis
    by (auto simp: reap_expired_final_attempt_def split: list.splits option.splits if_splits dest!: reap_row_rewritten reap_delivery_rewritten)
qed

lemma purged_rewritten:
  assumes "purge_terminal_inbound_events now days batch d = Inr (n, d')"
  shows "rewritten (db_jobs d) (db_jobs d')"
proof -
  let ?gone = "map ev_id (take (nat batch) (sort_key (\<lambda>e. (ev_received_at e, ev_id e)) (filter (purgeable now days d) (db_events d))))"
  let ?p = "\<lambda>j. job_event_id j \<in> Some ` set ?gone"
  have g: "db_jobs d' = update_rows ?p (\<lambda>j. j\<lparr>job_event_id := None\<rparr>) (db_jobs d)"
    using assms by (auto simp: purge_terminal_inbound_events_def Let_def simp del: set_map split: if_splits)
  have "row_ok (j\<lparr>job_event_id := None\<rparr>)" if j: "j \<in> set (db_jobs d)" "?p j" "row_ok j" for j
  proof -
    obtain e where e: "job_event_id j = Some (ev_id e)" "purgeable now days d e" using j(2) by (auto dest: in_set_takeD)
    have "job_kind_of j = Ingest" using j(3) e(1) by (auto simp: row_ok_def context_ok_def split: job_kind.splits)
    then have "job_state j \<in> {Done, Dead}"
      using e j(1) by (cases "job_state j") (auto simp: purgeable_def list_ex_iff)
    with \<open>job_kind_of j = Ingest\<close> j(3) show ?thesis by (simp add: row_ok_def context_ok_def lease_coherent_def)
  qed
  then show ?thesis unfolding rewritten_def g by (intro exI [of _ ?p] exI [of _ "\<lambda>j. j\<lparr>job_event_id := None\<rparr>"]) simp
qed

subsection \<open>Every step is a call of the queue or a rewriting\<close>

lemma rewind_enqueue_call:
  assumes "rewind_and_enqueue now cfg i q run st (tb_db s) = Inr (out, d)" "i \<notin> job_id ` set (db_jobs (tb_db s))"
  shows "db_jobs d = db_jobs (tb_db s) \<or> (\<exists>r. queue_step (queue_view s) (Enqueued r) ((queue_view s)\<lparr>q_jobs := db_jobs d\<rparr>))"
proof -
  have same: "db_jobs (snd (rewind_run run (tb_db s))) = db_jobs (tb_db s)" by (simp add: rewind_run_def cas_run_def)
  show ?thesis using assms same step_enqueue [of now cfg i q "queue_view s"]
    by (fastforce simp: rewind_and_enqueue_def Let_def bind_res_Inr_iff split: if_splits)
qed

lemma advance_call:
  assumes "advance_job now j (tb_db s) = (out, d)"
  shows "\<exists>ok. queue_step (queue_view s) (Advanced (job_id j) ok) ((queue_view s)\<lparr>q_jobs := db_jobs d\<rparr>)"
  using assms step_advance [of now "job_id j" "queue_view s"]
  by (cases "advance_due_now now (job_id j) (db_jobs (tb_db s))") (auto simp: advance_job_def)

lemma table_step_cases [consumes 1, case_names call rewritten]:
  assumes "table_step s e t"
  obtains q where "queue_step (queue_view s) q (queue_view t)" "\<And>i. table_weight i e = claim_weight i q"
  | "rewritten (db_jobs (tb_db s)) (db_jobs (tb_db t))" "tb_issued t = tb_issued s" "\<And>i. table_weight i e = 0"
  using assms
proof cases
  case (table_call q' e')
  then show ?thesis using that(1) [of q'] by (cases e') (simp add: queue_view_def table_weight_def)
next
  case (table_retry now cfg i run r kind email delay out d)
  then have "db_jobs d = db_jobs (tb_db s) \<or> (\<exists>r. queue_step (queue_view s) (Enqueued r) ((queue_view s)\<lparr>q_jobs := db_jobs d\<rparr>))"
    using rewind_enqueue_call [of now cfg i _ run _ s out d]
    by (auto simp: enqueue_classified_retry_def split: if_splits option.splits)
  with that table_retry(1,2) show ?thesis by (fastforce simp: table_weight_def claim_weight_def)
next
  case (table_operator_retry now cfg i run resolution r delay out d)
  then have "db_jobs d = db_jobs (tb_db s) \<or> (\<exists>r. queue_step (queue_view s) (Enqueued r) ((queue_view s)\<lparr>q_jobs := db_jobs d\<rparr>))"
    using rewind_enqueue_call [of now cfg i _ run _ s out d]
    by (auto simp: enqueue_operator_resume_retry_def split: if_splits option.splits sum.splits)
  with that table_operator_retry(1,2) show ?thesis by (fastforce simp: table_weight_def claim_weight_def)
next
  case (table_advance now run email out d)
  then have "db_jobs d = db_jobs (tb_db s) \<or> (\<exists>i ok. queue_step (queue_view s) (Advanced i ok) ((queue_view s)\<lparr>q_jobs := db_jobs d\<rparr>))"
    using advance_call [of now _ s out d] by (fastforce simp: advance_existing_send_job_due_now_def split: if_splits option.splits)
  with that table_advance(1,2) show ?thesis by (fastforce simp: table_weight_def claim_weight_def)
next
  case (table_advance_question now run email out d)
  then have "db_jobs d = db_jobs (tb_db s) \<or> (\<exists>i ok. queue_step (queue_view s) (Advanced i ok) ((queue_view s)\<lparr>q_jobs := db_jobs d\<rparr>))"
    using advance_call [of now _ s out d]
    by (fastforce simp: advance_existing_clarification_delivery_review_job_due_now_def split: if_splits option.splits)
  with that table_advance_question(1,2) show ?thesis by (fastforce simp: table_weight_def claim_weight_def)
qed (use that(2) in \<open>simp_all add: table_weight_def pipeline_rewritten delivery_rewritten reaped_rewritten purged_rewritten\<close>)

subsection \<open>What every step keeps\<close>

lemma rewrittenE:
  assumes "rewritten js js'"
  obtains p f where "js' = update_rows p f js"
    "\<And>j. job_id (f j) = job_id j" "\<And>j. dedup_key (f j) = dedup_key j" "\<And>j. attempts (f j) = attempts j"
    "\<And>j. lease_token (f j) = None \<or> lease_token (f j) = lease_token j"
    "\<And>j. j \<in> set js \<Longrightarrow> p j \<Longrightarrow> row_ok j \<Longrightarrow> row_ok (f j) \<and> (job_state (f j) = Leased \<longrightarrow> job_state j = Leased \<and> lease_token (f j) = lease_token j)"
  using assms by (auto simp: rewritten_def)

lemma rewritten_queue_ok:
  assumes "queue_ok q" "rewritten (q_jobs q) js"
  shows "queue_ok (q\<lparr>q_jobs := js\<rparr>)"
proof -
  from assms(2) obtain p f where f: "js = update_rows p f (q_jobs q)"
    "\<And>j. job_id (f j) = job_id j" "\<And>j. dedup_key (f j) = dedup_key j"
    "\<And>j. lease_token (f j) = None \<or> lease_token (f j) = lease_token j"
    "\<And>j. j \<in> set (q_jobs q) \<Longrightarrow> p j \<Longrightarrow> row_ok j \<Longrightarrow> row_ok (f j)" by (elim rewrittenE) blast
  have "map job_id js = map job_id (q_jobs q)" "map dedup_key js = map dedup_key (q_jobs q)"
    unfolding f(1) by (rule map_update_rows, simp add: f(2,3))+
  moreover have "\<forall>j \<in> set js. row_ok j" unfolding f(1) set_update_rows using f(5) assms(1) by (auto simp: queue_ok_def)
  moreover have "tokens_ok (set (q_issued q)) js" unfolding f(1) using assms(1) f(4) by (intro tokens_ok_update) (simp_all add: queue_ok_tokens)
  ultimately show ?thesis using assms(1) by (simp add: queue_ok_tokens)
qed

lemma rewritten_stale:
  assumes "queue_ok q" "stale i t q" "rewritten (q_jobs q) js"
  shows "stale i t (q\<lparr>q_jobs := js\<rparr>)"
proof -
  from assms(3) obtain p f where f: "js = update_rows p f (q_jobs q)" "\<And>j. job_id (f j) = job_id j"
    "\<And>j. j \<in> set (q_jobs q) \<Longrightarrow> p j \<Longrightarrow> row_ok j \<Longrightarrow> job_state (f j) = Leased \<longrightarrow> job_state j = Leased \<and> lease_token (f j) = lease_token j"
    by (elim rewrittenE) blast
  have "\<not> held i t k" if "k \<in> set js" for k
    using that unfolding f(1)
  proof (rule update_rowsE)
    fix j assume j: "j \<in> set (q_jobs q)" "p j" "k = f j"
    then have "row_ok j" "\<not> held i t j" using assms(1,2) by (simp_all add: queue_ok_def stale_def)
    with f(3) [OF j(1,2)] f(2) [of j] j(3) show "\<not> held i t k" by (auto simp: held_def)
  next
    assume "k \<in> set (q_jobs q)"
    with assms(2) show "\<not> held i t k" by (simp add: stale_def)
  qed
  then show ?thesis using assms(2) by (simp add: stale_def)
qed

lemma rewritten_attempts: "rewritten (q_jobs q) js \<Longrightarrow> attempts_of i (q\<lparr>q_jobs := js\<rparr>) = attempts_of i q"
  by (elim rewrittenE) (simp add: attempts_of_update)

lemma view_rewritten: "tb_issued t = tb_issued s \<Longrightarrow> queue_view t = (queue_view s)\<lparr>q_jobs := db_jobs (tb_db t)\<rparr>"
  by (simp add: queue_view_def)

lemma table_ok_step:
  assumes "queue_ok (queue_view s)" "table_step s e t"
  shows "queue_ok (queue_view t)"
  using assms(2)
proof (cases rule: table_step_cases)
  case (call q)
  with assms(1) show ?thesis by (blast intro: queue_ok_step)
next
  case rewritten
  then show ?thesis using rewritten_queue_ok [OF assms(1)] unfolding view_rewritten [OF rewritten(2)] by simp
qed

lemma table_stale_step:
  assumes "queue_ok (queue_view s) \<and> stale i u (queue_view s)" "table_step s e t"
  shows "queue_ok (queue_view t) \<and> stale i u (queue_view t)"
  using assms(2)
proof (cases rule: table_step_cases)
  case (call q)
  with assms(1) show ?thesis by (blast dest: stale_step [OF conjI])
next
  case rewritten
  have "stale i u (queue_view t)"
    using rewritten_stale [of "queue_view s" i u] assms(1) rewritten(1) unfolding view_rewritten [OF rewritten(2)] by simp
  with assms table_ok_step show ?thesis by blast
qed

lemma table_accounted:
  assumes "queue_ok (queue_view s)" "table_step s e t"
  shows "attempts_of i (queue_view t) = attempts_of i (queue_view s) + table_weight i e"
  using assms(2)
proof (cases rule: table_step_cases)
  case (call q)
  with attempts_accounted [OF assms(1)] show ?thesis by simp
next
  case rewritten
  then show ?thesis using rewritten_attempts [of "queue_view s"] unfolding view_rewritten [OF rewritten(2)] by simp
qed

interpretation jobs: step_invariant table_step "\<lambda>s. queue_ok (queue_view s)"
  by unfold_locales (rule table_ok_step)

interpretation fence: step_invariant table_step "\<lambda>s. queue_ok (queue_view s) \<and> stale i t (queue_view s)"
  by unfold_locales (rule table_stale_step)

interpretation account: step_account table_step "\<lambda>s. queue_ok (queue_view s)" "\<lambda>s. attempts_of i (queue_view s)" "table_weight i"
  by unfold_locales (rule table_accounted)

lemma no_jobs_ok: "db_jobs (tb_db s) = [] \<Longrightarrow> queue_ok (queue_view s)"
  by (simp add: queue_ok_def)

lemma stale_settles_nothing:
  assumes "stale (cj_id c) (cj_token c) (queue_view s)"
  shows "settle_pipeline_job now c r b (tb_db s) = Inr (SettledFenced, tb_db s)"
    "settle_outbound_delivery_job u now c r (tb_db s) = Inr (SettledLostLease, tb_db s)"
    "authorize_outbound_provider_handoff now hid c (tb_db s) = Inr (Refused RefusedInvalidContext None, tb_db s)"
proof -
  have "first_match (held (cj_id c) (cj_token c)) (db_jobs (tb_db s)) = None" using assms by (simp add: stale_def first_match_None)
  then show "settle_pipeline_job now c r b (tb_db s) = Inr (SettledFenced, tb_db s)"
    "settle_outbound_delivery_job u now c r (tb_db s) = Inr (SettledLostLease, tb_db s)"
    "authorize_outbound_provider_handoff now hid c (tb_db s) = Inr (Refused RefusedInvalidContext None, tb_db s)"
    by (simp_all add: settle_pipeline_job_def settle_outbound_delivery_job_def authorize_outbound_provider_handoff_def locked_job_def locked_send_job_def Let_def)
qed

subsection \<open>The worker and the producers take these steps\<close>

lemma enqueue_on_step:
  assumes "enqueue_on now cfg i q (tb_db s) = Inr (r, d)" "i \<notin> job_id ` set (db_jobs (tb_db s))"
  shows "table_step s (Called (Enqueued r)) (s\<lparr>tb_db := d\<rparr>)"
proof -
  obtain js where js: "enqueue_job now cfg i q (db_jobs (tb_db s)) = Inr (r, js)" "d = (tb_db s)\<lparr>db_jobs := js\<rparr>"
    using assms(1) by (auto simp: enqueue_on_def bind_res_Inr_iff)
  then have "queue_step (queue_view s) (Enqueued r) ((queue_view s)\<lparr>q_jobs := js\<rparr>)" using assms(2) by (intro step_enqueue) simp_all
  from table_call [OF this] show ?thesis by (cases s rule: table.cases) (simp add: js(2) queue_view_def)
qed

lemma settle_dispatch_step:
  assumes "settle_dispatch u now jitter c res (tb_db s) = Inr (out, d)"
  shows "table_step s (Settled c out) (s\<lparr>tb_db := d\<rparr>)"
  using assms unfolding settle_dispatch_def settle_infrastructure_failure_def
  by (auto split: sum.splits if_splits intro: table_settle table_deliver)

text \<open>One turn of the worker is a run of these steps, whatever its handler does, if the handler's own calls are.\<close>

lemma drain_once_runs:
  assumes "drain_once u k handle ts (tb_db s) = (res, ts', d')" "dc_token k \<notin> set (tb_issued s)"
    "\<And>c q. \<exists>es q'. run_of table_step q es q' \<and> tb_db q' = snd (handle c (tb_db q))"
  shows "\<exists>es s'. run_of table_step s es s' \<and> tb_db s' = d'"
proof (cases "claim_job (dc_now k) (dc_lease k) (dc_token k) (dc_locked k) (db_jobs (tb_db s))")
  case (Pair c js)
  show ?thesis
  proof (cases c)
    case None
    then show ?thesis
    proof (cases "reap_expired_final_attempt (dc_now k) (dc_locked k) (tb_db s)")
      case (Inl e)
      then have "tb_db s = d'" using assms(1) Pair None by (simp add: drain_once_def)
      then show ?thesis by (blast intro: run_of_nil)
    next
      case (Inr x)
      obtain out where "x = (out, d')" using assms(1) Pair None Inr by (cases x) (auto simp: drain_once_def split: option.splits)
      then have "run_of table_step s [Reaped out] (s\<lparr>tb_db := d'\<rparr>)" using Inr by (auto intro: run_of_single table_reap)
      then show ?thesis by (metis table.select_convs(1) table.surjective table.update_convs(1))
    qed
  next
    case (Some c')
    let ?s = "\<lparr>tb_db = (tb_db s)\<lparr>db_jobs := js\<rparr>, tb_issued = dc_token k # tb_issued s\<rparr>"
    have "queue_step (queue_view s) (Claimed c') \<lparr>q_jobs = js, q_issued = dc_token k # tb_issued s\<rparr>"
      using step_claim [of _ _ "dc_token k" _ "queue_view s"] Pair Some assms(2) by simp
    from run_of_single [of table_step, OF table_call, OF this]
    have claimed: "run_of table_step s [Called (Claimed c')] ?s" by simp
    obtain es q where q: "run_of table_step ?s es q" "tb_db q = snd (handle c' (tb_db ?s))" using assms(3) by blast
    note handled = run_of_append [OF q(1) claimed]
    obtain res' where h: "handle c' (tb_db ?s) = (res', tb_db q)" using q(2) by (cases "handle c' (tb_db ?s)") simp
    show ?thesis
    proof (cases "settle_dispatch u (dc_settle k) (dc_jitter k) c' res' (tb_db q)")
      case (Inl e)
      then have "tb_db q = d'" using assms(1) Pair Some h by (simp add: drain_once_def Let_def)
      with handled show ?thesis by blast
    next
      case (Inr x)
      obtain out where "x = (out, d')" using assms(1) Pair Some Inr h by (cases x) (auto simp: drain_once_def Let_def)
      with Inr have "table_step q (Settled c' out) (q\<lparr>tb_db := d'\<rparr>)" by (intro settle_dispatch_step) simp
      from run_of_snoc [OF handled this] have "\<exists>fs. run_of table_step s fs (q\<lparr>tb_db := d'\<rparr>)" by blast
      then show ?thesis by (metis table.select_convs(1) table.surjective table.update_convs(1))
    qed
  qed
qed

subsection \<open>A small run\<close>

definition timed_out :: pipeline_result where
  "timed_out = \<lparr>outcome = Retryable, stage = StageExtract, reason = ProviderTimeout\<rparr>"

definition no_jobs_table :: table where
  "no_jobs_table = \<lparr>tb_db = sample_db\<lparr>db_jobs := []\<rparr>, tb_issued = []\<rparr>"

definition dead_table :: table where
  "dead_table = \<lparr>tb_db = sample_db\<lparr>db_jobs := update_rows (held 1 11) (finish_row 5 Dead (Some (diagnostic_code timed_out))) (db_jobs sample_db),
        db_runs := update_rows (\<lambda>r. run_id r = 9 \<and> status r = EXTRACTING) (fail_run ''RetryExhausted'' (bounded_detail timed_out (Some (1, 1)))) (db_runs sample_db)\<rparr>,
     tb_issued = [11]\<rparr>"

lemma dead_table_jobs: "db_jobs (tb_db dead_table) = [finish_row 5 Dead (Some (diagnostic_code timed_out)) (claim_row 0 (seconds 900) 11 sample_job)]"
  by (simp add: dead_table_def sample_db_def update_rows_def held_def claim_row_def sample_job_def)

lemma dead_table_run:
  "run_of table_step no_jobs_table [Called (Enqueued (Some 1)), Called (Claimed sample_claim_rec), Settled sample_claim_rec SettledDead] dead_table"
proof -
  let ?t1 = "\<lparr>tb_db = sample_db\<lparr>db_jobs := [sample_job]\<rparr>, tb_issued = []\<rparr>" and ?t2 = "\<lparr>tb_db = sample_db, tb_issued = [11]\<rparr>"
  have "enqueue_on 0 5 1 sample_request (tb_db no_jobs_table) = Inr (Some 1, sample_db\<lparr>db_jobs := [sample_job]\<rparr>)"
    using sample_enqueue by (simp add: enqueue_on_def no_jobs_table_def)
  from enqueue_on_step [OF this] have a: "table_step no_jobs_table (Called (Enqueued (Some 1))) ?t1" by (simp add: no_jobs_table_def)
  have "queue_step (queue_view ?t1) (Claimed sample_claim_rec) \<lparr>q_jobs = db_jobs sample_db, q_issued = [11]\<rparr>"
    using step_claim [of 0 "seconds 900" 11 "[]" "queue_view ?t1"] sample_claim by (simp add: sample_claim_rec_def sample_db_def)
  from table_call [OF this] have b: "table_step ?t1 (Called (Claimed sample_claim_rec)) ?t2" by (simp add: sample_db_def empty_db_def)
  have "settle_pipeline_job 5 sample_claim_rec timed_out 0 sample_db = Inr (SettledDead, tb_db dead_table)"
    using settle_pipeline_final [OF sample_db_facts(1,2) _ _ _ _ sample_db_facts(3), of timed_out 5 0]
    by (simp add: timed_out_def dead_table_def sample_claim_rec_def claim_of_def claim_row_def sample_job_def sample_run_def)
  with table_settle [of 5 sample_claim_rec timed_out 0 ?t2] have c: "table_step ?t2 (Settled sample_claim_rec SettledDead) dead_table"
    by (simp add: dead_table_def)
  from run_of_snoc [OF run_of_snoc [OF run_of_single [of table_step, OF a] b] c] show ?thesis by simp
qed

subsection \<open>Properties\<close>

text \<open>C8. Whatever the application does to its jobs, from a database without jobs on: enqueue, claim, release at a shutdown, settle a pipeline
  job or a delivery, reap an expired last attempt, enqueue a retry, advance a delivery review, purge old events, in any order and by any number of
  workers, the table stays coherent: one row per id and per dedup key, a lease token exactly on leased rows and on one row only, a
  context that fits the kind, and attempts within the ceiling of the row.\<close>

theorem queue_invariant:
  assumes "db_jobs (tb_db s0) = []" "run_of table_step s0 es s"
  shows "queue_ok (queue_view s)"
  using jobs.along_run [OF assms(2) no_jobs_ok [OF assms(1)]] .

theorem queue_invariant_witness: "queue_ok (queue_view dead_table) \<and> map job_state (db_jobs (tb_db dead_table)) = [Dead]"
  using queue_invariant [OF _ dead_table_run] by (simp add: dead_table_jobs no_jobs_table_def)

text \<open>C20. A lost lease stays lost: once the row of a job no longer holds a token that was issued, no later sequence of steps gives it back, and
  everything that worker may still try is refused without touching a table: both settlements, the authorization of a provider call, and
  the completion and the failure of \<open>jobs.py\<close>.\<close>

theorem lost_lease_is_fenced_forever:
  assumes "queue_ok (queue_view s)" "cj_token c \<in> set (tb_issued s)" "\<forall>j \<in> set (db_jobs (tb_db s)). \<not> held (cj_id c) (cj_token c) j"
    "run_of table_step s es s'"
  shows "(\<forall>j \<in> set (db_jobs (tb_db s')). \<not> held (cj_id c) (cj_token c) j)
    \<and> settle_pipeline_job now c r b (tb_db s') = Inr (SettledFenced, tb_db s')
    \<and> settle_outbound_delivery_job u now c r (tb_db s') = Inr (SettledLostLease, tb_db s')
    \<and> authorize_outbound_provider_handoff now hid c (tb_db s') = Inr (Refused RefusedInvalidContext None, tb_db s')
    \<and> complete_job now (cj_id c) (cj_token c) (db_jobs (tb_db s')) = (False, db_jobs (tb_db s'))
    \<and> fail_job now (cj_id c) (cj_token c) detail b (db_jobs (tb_db s')) = (None, db_jobs (tb_db s'))"
proof -
  have "stale (cj_id c) (cj_token c) (queue_view s')"
    using fence.along_run [OF assms(4), of "cj_id c" "cj_token c"] assms(1-3) by (simp add: stale_def)
  with stale_no_effect [OF this] stale_settles_nothing [OF this] show ?thesis by (simp add: stale_def)
qed

theorem lost_lease_is_fenced_forever_witness:
  "settle_pipeline_job 7 sample_claim_rec timed_out 0 (tb_db dead_table) = Inr (SettledFenced, tb_db dead_table)"
proof -
  have "queue_ok (queue_view dead_table)" using jobs.along_run [OF dead_table_run no_jobs_ok] by (simp add: no_jobs_table_def)
  moreover have "cj_token sample_claim_rec \<in> set (tb_issued dead_table)" by (simp add: sample_claim_rec_def claim_of_def dead_table_def)
  ultimately show ?thesis using lost_lease_is_fenced_forever [OF _ _ _ run_of_nil, of dead_table sample_claim_rec 7 timed_out 0]
    by (simp add: dead_table_jobs held_def)
qed

text \<open>C21. No poison job runs forever: along any run of these steps, from a database without jobs on, a job is claimed exactly as often as its
  attempts say, hence never more often than its ceiling allows: no settlement, retry, reaping, review or release gives an attempt back, also when no worker
  ever reports.\<close>

theorem claims_are_bounded:
  assumes "db_jobs (tb_db s0) = []" "run_of table_step s0 es s" "j \<in> set (db_jobs (tb_db s))"
  shows "sum_list (map (table_weight (job_id j)) es) = attempts j \<and> attempts j \<le> max 0 (max_attempts j)"
proof -
  have ok: "queue_ok (queue_view s)" using jobs.along_run [OF assms(2) no_jobs_ok [OF assms(1)]] .
  have "get_job (job_id j) (db_jobs (tb_db s)) = Some j" using get_job_member [OF _ assms(3)] ok by (simp add: queue_ok_def)
  then have "attempts_of (job_id j) (queue_view s) = attempts j" by (simp add: attempts_of_def)
  moreover have "attempts_of (job_id j) (queue_view s0) = 0" by (simp add: attempts_of_def assms(1) get_job_def)
  ultimately show ?thesis
    using account.balance [OF assms(2) no_jobs_ok [OF assms(1)], of "job_id j"] ok assms(3) by (simp add: queue_ok_def row_ok_def)
qed

theorem claims_are_bounded_witness:
  "sum_list (map (table_weight 1) [Called (Enqueued (Some 1)), Called (Claimed sample_claim_rec), Settled sample_claim_rec SettledDead]) = 1"
  using claims_are_bounded [OF _ dead_table_run] by (simp add: dead_table_jobs no_jobs_table_def claim_row_def sample_job_def)

end
