(* ===== verification/Spec2Isabelle.thy ===== *)
theory Spec2Isabelle
  imports Lifecycle JobTable
begin

text \<open>
  \<^bold>\<open>A model of the payroll agent.\<close> The program under \<open>src/app\<close> runs payroll from e-mail. A client's mail is stored and
  becomes a run; a language model extracts employees and hours; deterministic code resolves the names against
  the roster, validates the hours, compares them with earlier answers, decides, and computes paystubs with
  federal withholding; an operator approves; a confirmation is sent exactly as it was frozen. When something is
  open the client is asked, in at most three rounds, and the answer resumes the run. Every step is a leased job of
  a Postgres table, and every mail goes through a fence that admits one provider call at a time. The
  theories model that core. Nothing is simplified to make a theorem hold; where the code does something surprising, the
  theorem says so.

  \<^bold>\<open>Conventions.\<close> A Pydantic class or a table row is a record, a \<open>Literal\<close> or \<open>StrEnum\<close> a datatype with the source's
  constructors. Python exceptions are values: \<open>'a res\<close> is \<open>py_error + 'a\<close>, and every raise and early return is a
  branch. A dictionary is an association list in insertion order. A UUID is a 128-bit word with its string form, a timestamp
  is an integer of microseconds, a \<open>Decimal\<close> is coefficient and exponent with the rounding of the default context. A
  repository function is a function of the database record \<open>db\<close>; a transaction returns the new database or leaves the old one.
  What the database, the clock, a random draw or a lock held elsewhere contributes is an argument. Unicode
  case folding and normalisation are the parameter \<open>unicode\<close>; the model's answer is the parameter \<open>ri_extract\<close>, which may
  also raise; suggestions and drafts are optional arguments; the provider is a function that may fail with any of
  the exceptions the classifier tests.

  \<^bold>\<open>Theories and code.\<close>
  \<^item> \<open>Prelude\<close>: results, dictionaries, strings, updates of rows, runs of a step relation, and the locales \<open>step_invariant\<close> and
    \<open>step_account\<close> for what every step keeps or counts. \<open>Uuids\<close> and \<open>PyDecimal\<close>: the two library types the program computes with.
  \<^item> \<open>Models\<close>: \<open>app/models/contracts.py\<close>, \<open>roster.py\<close>, \<open>status.py\<close>.
  \<^item> \<open>TaxTables\<close>, \<open>Withholding\<close>, \<open>Calculate\<close>: \<open>tax_tables_2026.py\<close>, \<open>federal_withholding.py\<close>, \<open>calculate.py\<close>.
  \<^item> \<open>Reconcile\<close>, \<open>Validate\<close>, \<open>Decide\<close>, \<open>AliasLearning\<close>: the pipeline modules of those names (\<open>reconcile_names.py\<close>, \<open>validate.py\<close>,
    \<open>decide.py\<close>, \<open>alias_learning.py\<close>), with the roster functions of \<open>app/db/repo\<close>.
  \<^item> \<open>Backfill\<close>, \<open>Stages\<close>, \<open>Resume\<close>: \<open>orchestrator.py\<close>; the values paid after a reply, the shared gate path \<open>_run_stages\<close> with the columns
    of a run (\<open>pipeline_state.py\<close>, \<open>runs.py\<close>), and \<open>run_pipeline\<close> and \<open>resume_pipeline\<close> over the database with every commit point.
  \<^item> \<open>Outcomes\<close>: \<open>result.py\<close>; vocabularies, exception classifiers, replay slots.
  \<^item> \<open>JobQueue\<close>, \<open>Database\<close>, \<open>Settlement\<close>, \<open>Worker\<close>: \<open>jobs.py\<close>, \<open>outbound_handoffs.py\<close>, \<open>job_settlement.py\<close>, and \<open>drain.py\<close> with \<open>dispatch.py\<close>, the send
    and pipeline handlers, the provider call of \<open>gateway.py\<close> and the release at shutdown.
  \<^item> \<open>Outbox\<close>, \<open>Compose\<close>, \<open>Clarification\<close>: slots of outbound mail (\<open>emails.py\<close>, \<open>send_guard.py\<close>), the text of a question, one round of
    \<open>clarification.py\<close>.
  \<^item> \<open>Inbox\<close>: \<open>clean.py\<close>, \<open>ingest.py\<close>, \<open>pipeline_glue.py\<close>, the receipt of \<open>webhook.py\<close>, inbound rows and header matching.
  \<^item> \<open>Confirmation\<close>: the confirmation half of \<open>compose_email.py\<close>: the template, the amounts, the guard on a draft.
  \<^item> \<open>OperatorResume\<close>, \<open>Approval\<close>, \<open>Review\<close>, \<open>Console\<close>: operator resolutions, \<open>delivery.py\<close>, and the routes of \<open>app/routes/runs.py\<close>; what they write
    (\<open>Approval\<close>, \<open>Review\<close>) and what they show (\<open>Console\<close>).
  \<^item> \<open>JobTable\<close>: everything that writes the job table as one step relation \<open>table_step\<close> over the database: the calls of \<open>JobQueue\<close>, both settlements, the reaper,
    the retry enqueues, the advances of a review, the purge of events, and any transaction that leaves the jobs alone. A turn of the worker is a
    run of these steps (\<open>drain_once_runs\<close>).
  \<^item> \<open>Pool\<close>: the worker threads of \<open>worker.py\<close> with the signal of \<open>wake.py\<close> and the registry of leases, as a step relation over all interleavings; jobs
    are claimable, delayed or leased there, and retries, delays and leases that run out are steps.
  \<^item> \<open>Lifecycle\<close>: the worker's step over a whole job. The locale \<open>settling_handler\<close> is what the drain step needs of a
    handler; the three handlers of a run's jobs and their dispatch are its interpretations.
\<close>

text \<open>
  \<^bold>\<open>What is shown.\<close>
  \<^item> Money: the withholding is the worksheet over exact numbers; the paystub of an hourly employee is exact to the cent, that of a
    salaried one within a cent, and both tie out; higher wages never lower the withholding where the tables have exact bases.
  \<^item> Gate: a name resolves exactly when one employee carries it; the decision processes exactly when nothing is open; a processed run
    returns, stores one line item per employee and pays each person once; an alias is learned exactly when it then resolves and no resolution changes; what the client
    answered is what is paid, and the snapshot only fills silence.
  \<^item> Queue: the coherence of the job table is an invariant of \<open>table_step\<close>, along every run; a lost lease stays lost and refuses its worker everything; claims are
    counted by the attempts and bounded by the ceiling; a claim takes the best row; an expired lease is claimable or reapable, never both. The smaller
    relation \<open>queue_step\<close> has the calls of \<open>jobs.py\<close> alone.
  \<^item> Settlement and fence: job, run and slot move together as one table of verdicts says; an authorization owns the one active
    handoff of a run; the composed theorem closes every claimed job of a run together with the run.
  \<^item> Threads: live threads belong to one generation and leave the reserved connections; no pool sleeps on a job that was
    signalled, and a job nobody signals (after a retry delay, an expired lease, from another process) waits for the slow poll and no longer; a shutdown snapshot covers every lease but
    those a fenced settlement forgot. Invariants of \<open>pool_step\<close>, each by its own interpretation of \<open>step_invariant\<close>.
  \<^item> Mail: a reply resumes a run only when it is authorized; ingest is idempotent; a header matches whole message ids only; a cleaned body keeps
    no history; a round asks or escalates, with its tables exactly; a confirmation is the frozen one; its text has no placeholder and, but for
    unusual line ends, no subject line or sign-off, and its template states every net pay.
  \<^item> Operator: the first resolution is the authority; the exact table of an approval, the verdicts of retrigger and a new confirmation; a stored diagnostic
    is read back as what was written.
  Each theorem with a hypothesis is followed, as \<open>_witness\<close>, by its use on a concrete input. Lemmas that describe a
  defect state it on the model: a lease released on its final attempt, a lease forgotten after an early failure, a delivery lost at
  shutdown, the late reply, the lost second question, the resolution that cannot be replaced, the remembered names
  that are forgotten, the review that cannot be reached, the marker that is never cleared, the retry that cannot queue,
  the second worker that sleeps on a job, the sign-off with the line ends of a mail, and the paystub with a full deferral.

  \<^bold>\<open>Bounds.\<close> No definition uses fuel. Recursion is structural or has a measure: the digits of an integer, the removal of trailing
  zeros, the removal of a substring. Loops of the source run over lists that are finite data; the
  replay ladder has eight slots and a job at most its stored ceiling of attempts, so no loop of the model is cut short. The worker's endless loop is
  modelled by its steps.

  \<^bold>\<open>Not modelled, and why.\<close> The language model, its prompts and the parsing of its answers (a service; its value or exception is an argument).
  The PDF drawing (a library; the bytes are an argument). Signature verification, HTTP requests, JSON and HTML, the run list, demo and health pages (glue without
  payroll logic). Schema bootstrap, seeding, catalogue introspection, connections and configuration (the tables are the record \<open>db\<close>, with
  the constraints the code relies on written as guards). Two jobs that interleave inside their handlers (\<open>drain_once\<close> over the database is one step; \<open>Pool\<close> interleaves
  the threads, but sees a job only as claimable, delayed, leased and settled). Row locks appear as the argument of rows locked elsewhere.
  The audit query \<open>list_unaccounted_error_runs\<close>, which only reads. The evaluation under \<open>src/eval\<close> and the scripts. Infinities and NaN
  of \<open>Decimal\<close> and floating point jitter beyond a rational draw.
\<close>

end
